(* ===== verification/Prelude.thy ===== *)
theory Prelude
  imports Main "HOL-Library.Word" "HOL-Library.Signed_Division"
begin

text \<open>
  What every component shares: the Go types the program uses (64-bit integers, byte
  strings, optional pointers), Go's truncating integer division, the decimal formats
  \<open>%d\<close> and \<open>%0kd\<close>, string prefixes and suffixes, and generic lemmas on sums, lists
  and the signed reading of words.

  Conventions of the whole development:
  \<^item> \<open>int64\<close> (amounts of money) is \<open>64 word\<close>, so sums and products wrap as in Go.
  \<^item> Go's \<open>int\<close> (numbers of installments, rates, version counters, days) is HOL's
    \<open>int\<close>; the conversion \<open>int64(n)\<close> is \<open>word_of_int n\<close>. Such a value is at most a
    counter incremented once per operation or a validated input, so no \<open>int\<close> addition
    of the program comes near the 64-bit range.
  \<^item> Go strings are byte strings: \<open>string\<close>, a list of 8-bit \<open>char\<close>.
  \<^item> \<open>(T, error)\<close> results are sums: \<open>Inl\<close> the error, \<open>Inr\<close> the value.
\<close>

section \<open>Lemma collections\<close>

named_theorems op_defs \<open>definitions of domain operations, for unfolding\<close>
named_theorems frame \<open>fields an operation leaves alone\<close>

section \<open>64-bit integers\<close>

type_synonym int64 = "64 word"

text \<open>Go's \<open>/\<close> and \<open>%\<close> on \<open>int64\<close> truncate towards zero.\<close>

definition div64 :: "int64 \<Rightarrow> int64 \<Rightarrow> int64" where
  "div64 a b = word_of_int (sint a sdiv sint b)"

definition mod64 :: "int64 \<Rightarrow> int64 \<Rightarrow> int64" where
  "mod64 a b = word_of_int (sint a smod sint b)"

definition in_range64 :: "int \<Rightarrow> bool" where
  "in_range64 x \<longleftrightarrow> - (2 ^ 63) \<le> x \<and> x < 2 ^ 63"

lemma sint_word_of_int64:
  "in_range64 x \<Longrightarrow> sint (word_of_int x :: int64) = x"
  by (simp add: in_range64_def sint_sbintrunc' signed_take_bit_int_eq_self)

lemma sint_in_range64 [simp]: "in_range64 (sint (a :: int64))"
  using sint_lt [of a] sint_ge [of a] by (simp add: in_range64_def)

lemma sint_add64:
  "in_range64 (sint a + sint b) \<Longrightarrow> sint (a + b :: int64) = sint a + sint b"
  by (simp add: in_range64_def sint_word_ariths signed_take_bit_int_eq_self)

lemma sint_sub64:
  "in_range64 (sint a - sint b) \<Longrightarrow> sint (a - b :: int64) = sint a - sint b"
  by (simp add: in_range64_def sint_word_ariths signed_take_bit_int_eq_self)

lemma sint_mult64:
  "in_range64 (sint a * sint b) \<Longrightarrow> sint (a * b :: int64) = sint a * sint b"
  by (simp add: in_range64_def sint_word_ariths signed_take_bit_int_eq_self)

lemma sint_eq_iff64: "(a :: int64) = b \<longleftrightarrow> sint a = sint b"
  by (metis signed_word_eqI)

lemma word_of_int_sint64 [simp]: "word_of_int (sint (a :: int64)) = a"
  by simp

lemma sless64: "(a :: int64) <s b \<longleftrightarrow> sint a < sint b"
  by (rule word_sless_alt)

lemma sle64: "(a :: int64) \<le>s b \<longleftrightarrow> sint a \<le> sint b"
  by (rule word_sle_eq)

lemma sint_div64:
  assumes "0 \<le> sint a" "0 < sint b"
  shows "sint (div64 a b) = sint a div sint b"
proof -
  have eq: "sint a sdiv sint b = sint a div sint b"
    using assms by (cases "sint a = 0") (simp_all add: signed_divide_int_def)
  have "sint a div sint b \<le> sint a"
    using assms by (smt (verit) zdiv_mono2 div_by_1)
  moreover have "0 \<le> sint a div sint b"
    using assms by (simp add: pos_imp_zdiv_nonneg_iff)
  moreover have "sint a < 2 ^ 63"
    using sint_in_range64 [of a] by (simp add: in_range64_def)
  ultimately have "in_range64 (sint a div sint b)"
    by (simp add: in_range64_def)
  then show ?thesis by (simp add: div64_def eq sint_word_of_int64)
qed

section \<open>Strings\<close>

text \<open>\<open>strings.HasPrefix\<close>, \<open>strings.HasSuffix\<close>, and ASCII case mapping of one byte.\<close>

definition has_prefix :: "string \<Rightarrow> string \<Rightarrow> bool" where
  "has_prefix s p \<longleftrightarrow> take (length p) s = p"

definition has_suffix :: "string \<Rightarrow> string \<Rightarrow> bool" where
  "has_suffix s p \<longleftrightarrow> length p \<le> length s \<and> drop (length s - length p) s = p"

definition byte :: "char \<Rightarrow> nat" where
  "byte c = of_char c"

definition is_digit :: "char \<Rightarrow> bool" where
  "is_digit c \<longleftrightarrow> 48 \<le> byte c \<and> byte c \<le> 57"

definition is_upper :: "char \<Rightarrow> bool" where
  "is_upper c \<longleftrightarrow> 65 \<le> byte c \<and> byte c \<le> 90"

definition is_lower :: "char \<Rightarrow> bool" where
  "is_lower c \<longleftrightarrow> 97 \<le> byte c \<and> byte c \<le> 122"

definition upper_char :: "char \<Rightarrow> char" where
  "upper_char c = (if is_lower c then char_of (byte c - 32) else c)"

definition lower_char :: "char \<Rightarrow> char" where
  "lower_char c = (if is_upper c then char_of (byte c + 32) else c)"

lemma byte_less [simp]: "byte c < 256"
  by (simp add: byte_def)

lemma byte_char_of [simp]: "n < 256 \<Longrightarrow> byte (char_of n) = n"
  by (simp add: byte_def of_char_of)

lemma char_of_byte [simp]: "char_of (byte c) = c"
  by (simp add: byte_def)

lemma has_prefix_append: "has_prefix s p \<longleftrightarrow> (\<exists>t. s = p @ t)"
  by (metis append_eq_conv_conj append_take_drop_id has_prefix_def)

lemma has_suffixI: "has_suffix (t @ p) p"
  by (simp add: has_suffix_def)

lemma has_suffixD: "has_suffix s p \<Longrightarrow> \<exists>t. s = t @ p"
  by (metis append_take_drop_id has_suffix_def)

section \<open>Decimal output\<close>

text \<open>\<open>%d\<close> of a non-negative number and \<open>%0kd\<close> (padded with zeros to width \<open>k\<close>).\<close>

definition digit_char :: "nat \<Rightarrow> char" where
  "digit_char d = char_of (48 + d)"

fun dec :: "nat \<Rightarrow> string" where
  "dec n = (if n < 10 then [digit_char n] else dec (n div 10) @ [digit_char (n mod 10)])"

declare dec.simps [simp del]

definition dec_pad :: "nat \<Rightarrow> nat \<Rightarrow> string" where
  "dec_pad k n = replicate (k - length (dec n)) (digit_char 0) @ dec n"

text \<open>The value of a string of digits, most significant first.\<close>

definition undec :: "string \<Rightarrow> nat" where
  "undec s = foldl (\<lambda>a c. 10 * a + (byte c - 48)) 0 s"

lemma byte_digit_char [simp]: "d < 10 \<Longrightarrow> byte (digit_char d) = 48 + d"
  by (simp add: digit_char_def)

lemma is_digit_digit_char [simp]: "d < 10 \<Longrightarrow> is_digit (digit_char d)"
  by (simp add: is_digit_def)

lemma undec_Nil [simp]: "undec [] = 0"
  by (simp add: undec_def)

lemma undec_snoc [simp]: "undec (s @ [c]) = 10 * undec s + (byte c - 48)"
  by (simp add: undec_def)

lemma undec_dec [simp]: "undec (dec n) = n"
proof (induction n rule: dec.induct)
  case (1 n)
  show ?case
  proof (cases "n < 10")
    case True
    then show ?thesis using undec_snoc [of "[]" "digit_char n"] by (simp add: dec.simps [of n])
  next
    case False
    with "1.IH" show ?thesis by (simp add: dec.simps [of n])
  qed
qed

lemma undec_zeros [simp]: "undec (replicate k (digit_char 0) @ s) = undec s"
proof -
  have "foldl (\<lambda>a c. 10 * a + (byte c - 48)) 0 (replicate k (digit_char 0)) = (0 :: nat)"
    by (induction k) simp_all
  then show ?thesis by (simp add: undec_def)
qed

lemma undec_dec_pad [simp]: "undec (dec_pad k n) = n"
  by (simp add: dec_pad_def)

lemma dec_digits: "c \<in> set (dec n) \<Longrightarrow> is_digit c"
proof (induction n rule: dec.induct)
  case (1 n)
  then show ?case by (cases "n < 10") (auto simp: dec.simps [of n])
qed

lemma dec_nonempty [simp]: "dec n \<noteq> []"
  by (simp add: dec.simps [of n])

lemma dec_pad_digits: "c \<in> set (dec_pad k n) \<Longrightarrow> is_digit c"
  by (auto simp: dec_pad_def dec_digits)

lemma dec_less_pow: "0 < k \<Longrightarrow> n < 10 ^ k \<Longrightarrow> length (dec n) \<le> k"
proof (induction n arbitrary: k rule: dec.induct)
  case (1 n)
  show ?case
  proof (cases "n < 10")
    case True
    with "1.prems" show ?thesis by (simp add: dec.simps [of n])
  next
    case False
    with "1.prems" obtain j where k: "k = Suc j" and j: "0 < j"
      by (cases k; cases "k = 1") (auto simp: gr0_conv_Suc)
    from "1.prems" k have "n div 10 < 10 ^ j" by (simp add: less_mult_imp_div_less mult.commute)
    with "1.IH" [OF False j] False k show ?thesis by (simp add: dec.simps [of n])
  qed
qed

lemma length_dec_pad: "0 < k \<Longrightarrow> n < 10 ^ k \<Longrightarrow> length (dec_pad k n) = k"
  using dec_less_pow [of k n] by (simp add: dec_pad_def)

section \<open>Sums and lists\<close>

lemma sum_case_Inr [simp]:
  "(case r of Inl e \<Rightarrow> Inl e | Inr x \<Rightarrow> f x) = Inr y \<longleftrightarrow> (\<exists>x. r = Inr x \<and> f x = Inr y)"
  by (cases r) auto

lemma sum_case_Inl:
  "(case r of Inl e \<Rightarrow> Inl e | Inr x \<Rightarrow> f x) = Inl e' \<longleftrightarrow>
     r = Inl e' \<or> (\<exists>x. r = Inr x \<and> f x = Inl e')"
  by (cases r) auto

lemma map_nth_upt: "map (\<lambda>i. f (xs ! i)) [0..<length xs] = map f xs"
  by (rule nth_equalityI) simp_all

section \<open>Truncating division of non-negative integers\<close>

lemma sdiv_nonneg: "0 \<le> (a :: int) \<Longrightarrow> 0 < b \<Longrightarrow> a sdiv b = a div b"
  by (cases "a = 0") (simp_all add: signed_divide_int_def)

lemma smod_nonneg: "0 \<le> (a :: int) \<Longrightarrow> 0 < b \<Longrightarrow> a smod b = a mod b"
  by (simp add: smod_mod_positive)

lemma div_between: "b * q \<le> (x :: int) \<Longrightarrow> x < b * q + b \<Longrightarrow> x div b = q"
  by (rule int_div_pos_eq [of x b q "x - b * q"]) simp_all

lemma undec_append: "undec (s @ t) = undec s * 10 ^ length t + undec t"
proof (induction t rule: rev_induct)
  case (snoc c t)
  then show ?case by (simp add: append_assoc [symmetric] del: append_assoc)
qed simp

lemma filter_digits_dec [simp]: "filter is_digit (dec n) = dec n"
  by (simp add: filter_id_conv dec_digits)

lemma filter_digits_dec_pad [simp]: "filter is_digit (dec_pad k n) = dec_pad k n"
  by (simp add: filter_id_conv dec_pad_digits)

lemma sint_mod64:
  assumes "0 \<le> sint a" "0 < sint b"
  shows "sint (mod64 a b) = sint a mod sint b"
proof -
  have "0 \<le> sint a mod sint b" "sint a mod sint b < sint b"
    using assms by simp_all
  moreover have "sint b < 2 ^ 63"
    using sint_in_range64 [of b] by (simp add: in_range64_def)
  ultimately have "in_range64 (sint a mod sint b)"
    by (simp add: in_range64_def)
  then show ?thesis using assms by (simp add: mod64_def smod_nonneg sint_word_of_int64)
qed

end
