(* ===== verification/GoTime.thy ===== *)
theory GoTime
  imports Prelude
begin

text \<open>
  The part of Go's package \<open>time\<close> the program uses, for instants in UTC. An instant
  (\<open>time.Time\<close>) is the number of nanoseconds since 1970-01-01T00:00:00Z; every instant
  of the program is in UTC (\<open>RealClock.Now\<close>, \<open>DateOnly\<close> and \<open>time.Parse\<close>
  give UTC), so a location component is not kept. The civil calendar is the proleptic
  Gregorian one, computed from the day number by cutting off 400-year, 100-year, 4-year
  and single-year cycles, with years that start on the 1st of March.
\<close>

type_synonym time = int

definition nanos_per_day :: int where
  "nanos_per_day = 86400000000000"

lemma nanos_per_day_pos [simp]: "0 < nanos_per_day"
  by (simp add: nanos_per_day_def)

lemma nanos_per_day_neq0 [simp]: "nanos_per_day \<noteq> 0"
  by (simp add: nanos_per_day_def)

section \<open>Civil dates\<close>

text \<open>The day number of a date; \<open>mp\<close> counts months from March.\<close>

definition month_start :: "int \<Rightarrow> int" where
  "month_start mp = (153 * mp + 2) div 5"

definition days_from_civil :: "int \<Rightarrow> int \<Rightarrow> int \<Rightarrow> int" where
  "days_from_civil y m d =
     (let y' = (if m \<le> 2 then y - 1 else y);
          mp = (if m \<le> 2 then m + 9 else m - 3)
      in 365 * y' + y' div 4 - y' div 100 + y' div 400 + month_start mp + (d - 1) - 719468)"

text \<open>
  The March-based year of a day number and the day within it, then month and day.
\<close>

definition cycle_100 :: "int \<Rightarrow> int" where
  "cycle_100 doe = min 3 (doe div 36524)"

definition cycle_4 :: "int \<Rightarrow> int" where
  "cycle_4 doe = (doe - 36524 * cycle_100 doe) div 1461"

definition cycle_1 :: "int \<Rightarrow> int" where
  "cycle_1 doe = min 3 ((doe - 36524 * cycle_100 doe - 1461 * cycle_4 doe) div 365)"

definition day_of_year :: "int \<Rightarrow> int" where
  "day_of_year doe = doe - 36524 * cycle_100 doe - 1461 * cycle_4 doe - 365 * cycle_1 doe"

definition year_of_era :: "int \<Rightarrow> int" where
  "year_of_era doe = 100 * cycle_100 doe + 4 * cycle_4 doe + cycle_1 doe"

definition march_month :: "int \<Rightarrow> int" where
  "march_month doy = (5 * doy + 2) div 153"

definition civil_from_days :: "int \<Rightarrow> int \<times> int \<times> int" where
  "civil_from_days z =
     (let doe = (z + 719468) mod 146097;
          y = 400 * ((z + 719468) div 146097) + year_of_era doe;
          mp = march_month (day_of_year doe);
          m = (if mp < 10 then mp + 3 else mp - 9)
      in (if m \<le> 2 then y + 1 else y, m, day_of_year doe - month_start mp + 1))"

lemma cycle_bounds:
  assumes "0 \<le> doe" "doe < 146097"
  shows "0 \<le> cycle_100 doe" "cycle_100 doe \<le> 3"
    and "0 \<le> cycle_4 doe" "cycle_4 doe \<le> 24"
    and "0 \<le> cycle_1 doe" "cycle_1 doe \<le> 3"
    and "0 \<le> day_of_year doe" "day_of_year doe \<le> 365"
proof -
  define c where "c = cycle_100 doe"
  define r where "r = doe - 36524 * c"
  have c: "0 \<le> c" "c \<le> 3"
    using assms by (auto simp: c_def cycle_100_def)
  have r: "0 \<le> r" "r \<le> 36524"
    using assms unfolding r_def c_def cycle_100_def by (auto simp: min_def)
  define q where "q = cycle_4 doe"
  have q_eq: "q = r div 1461" by (simp add: q_def cycle_4_def r_def c_def)
  have q: "0 \<le> q" "q \<le> 24" using r by (auto simp: q_eq)
  define s where "s = r - 1461 * q"
  have s: "0 \<le> s" "s \<le> 1460" using r by (auto simp: s_def q_eq)
  have k_eq: "cycle_1 doe = min 3 (s div 365)"
    by (simp add: cycle_1_def s_def r_def q_def c_def)
  have k: "0 \<le> cycle_1 doe" "cycle_1 doe \<le> 3"
    using s by (auto simp: k_eq)
  have d_eq: "day_of_year doe = s - 365 * cycle_1 doe"
    by (simp add: day_of_year_def s_def r_def q_def c_def)
  have "0 \<le> day_of_year doe" "day_of_year doe \<le> 365"
    using s unfolding d_eq k_eq by (auto simp: min_def)
  with c q k show "0 \<le> cycle_100 doe" "cycle_100 doe \<le> 3"
    and "0 \<le> cycle_4 doe" "cycle_4 doe \<le> 24"
    and "0 \<le> cycle_1 doe" "cycle_1 doe \<le> 3"
    and "0 \<le> day_of_year doe" "day_of_year doe \<le> 365"
    by (simp_all add: c_def q_def)
qed

lemma march_month_bounds:
  "0 \<le> doy \<Longrightarrow> doy \<le> 365 \<Longrightarrow> 0 \<le> march_month doy \<and> march_month doy \<le> 11"
  using zdiv_mono1 [of "5 * doy + 2" 1827 153]
  by (simp add: march_month_def pos_imp_zdiv_nonneg_iff)

text \<open>
  Year numbers written in cycles: what \<open>365 * y + y div 4 - y div 100 + y div 400\<close>
  is for the year \<open>400 * e + 100 * c + 4 * q + k\<close>.
\<close>

definition year_days :: "int \<Rightarrow> int" where
  "year_days y = 365 * y + y div 4 - y div 100 + y div 400"

lemma year_days_cycles:
  assumes "0 \<le> c" "c \<le> 3" "0 \<le> q" "q \<le> 24" "0 \<le> k" "k \<le> 3"
  shows "year_days (400 * e + 100 * c + 4 * q + k) =
    146097 * e + 36524 * c + 1461 * q + 365 * k"
proof -
  have "(400 * e + 100 * c + 4 * q + k) div 4 = 100 * e + 25 * c + q"
    using assms by simp
  moreover have "(400 * e + 100 * c + 4 * q + k) div 100 = 4 * e + c"
    using assms by simp
  moreover have "(400 * e + 100 * c + 4 * q + k) div 400 = e"
    using assms by simp
  ultimately show ?thesis by (simp add: year_days_def)
qed

lemma days_from_civil_year_days:
  "days_from_civil y m d = year_days (if m \<le> 2 then y - 1 else y)
     + month_start (if m \<le> 2 then m + 9 else m - 3) + (d - 1) - 719468"
  by (simp add: days_from_civil_def year_days_def Let_def)

text \<open>Day number to date and back.\<close>

theorem days_from_civil_civil_from_days:
  "(case civil_from_days z of (y, m, d) \<Rightarrow> days_from_civil y m d) = z"
proof -
  define doe where "doe = (z + 719468) mod 146097"
  define era where "era = (z + 719468) div 146097"
  have doe: "0 \<le> doe" "doe < 146097" by (simp_all add: doe_def)
  note b = cycle_bounds [OF doe]
  have z: "z = 146097 * era + doe - 719468"
    unfolding era_def doe_def by (simp add: div_mult_mod_eq algebra_simps)
  have mp: "0 \<le> march_month (day_of_year doe)" "march_month (day_of_year doe) \<le> 11"
    using march_month_bounds b by auto
  have yd: "year_days (400 * era + year_of_era doe) =
      146097 * era + (doe - day_of_year doe)"
    using year_days_cycles [OF b(1-6), of era]
    by (simp add: year_of_era_def day_of_year_def algebra_simps)
  have "(case civil_from_days z of (y, m, d) \<Rightarrow> days_from_civil y m d) =
      year_days (400 * era + year_of_era doe) + day_of_year doe - 719468"
    using mp by (simp add: civil_from_days_def days_from_civil_year_days Let_def
        doe_def [symmetric] era_def [symmetric])
  with yd z show ?thesis by simp
qed

text \<open>Date to day number and back, for the dates of the calendar.\<close>

definition is_leap :: "int \<Rightarrow> bool" where
  "is_leap y \<longleftrightarrow> y mod 4 = 0 \<and> (y mod 100 \<noteq> 0 \<or> y mod 400 = 0)"

definition days_in_month :: "int \<Rightarrow> int \<Rightarrow> int" where
  "days_in_month y m =
     (if m = 2 then (if is_leap y then 29 else 28)
      else if m \<in> {4, 6, 9, 11} then 30 else 31)"

definition valid_date :: "int \<Rightarrow> int \<Rightarrow> int \<Rightarrow> bool" where
  "valid_date y m d \<longleftrightarrow> 1 \<le> m \<and> m \<le> 12 \<and> 1 \<le> d \<and> d \<le> days_in_month y m"

lemma cycles_recovered:
  assumes "0 \<le> c" "c \<le> 3" "0 \<le> q" "q \<le> 24" "0 \<le> k" "k \<le> 3" "0 \<le> doy"
    and "doy \<le> 364 \<or> doy = 365 \<and> k = 3 \<and> (q < 24 \<or> c = 3)"
    and doe: "doe = 36524 * c + 1461 * q + 365 * k + doy"
  shows "0 \<le> doe" "doe < 146097"
    and "year_of_era doe = 100 * c + 4 * q + k" and "day_of_year doe = doy"
proof -
  have r: "0 \<le> 1461 * q + 365 * k + doy" "1461 * q + 365 * k + doy \<le> 36524"
    "1461 * q + 365 * k + doy < 36524 \<or> c = 3"
    using assms by auto
  have s: "0 \<le> 365 * k + doy" "365 * k + doy \<le> 1460" "doy \<le> 364 \<or> k = 3"
    using assms by auto
  have c1: "cycle_100 doe = c"
    using r assms(1,2) unfolding cycle_100_def doe by (auto simp: min_def)
  have q1: "cycle_4 doe = q"
    using s unfolding cycle_4_def c1 by (simp add: doe)
  have k1: "cycle_1 doe = k"
    using s assms(5-7) unfolding cycle_1_def c1 q1 by (auto simp: doe min_def)
  show "year_of_era doe = 100 * c + 4 * q + k" "day_of_year doe = doy"
    unfolding year_of_era_def day_of_year_def c1 q1 k1 by (simp_all add: doe)
  show "0 \<le> doe" "doe < 146097" using r assms(1,2) by (auto simp: doe)
qed

lemma month_recovered:
  assumes "0 \<le> mp" "mp \<le> 11" "1 \<le> d" "d \<le> 31"
    and "mp \<in> {1, 3, 6, 8} \<Longrightarrow> d \<le> 30" and "mp = 11 \<Longrightarrow> d \<le> 29"
  shows "march_month (month_start mp + d - 1) = mp"
    and "0 \<le> month_start mp + d - 1" and "month_start mp + d - 1 \<le> 365"
    and "mp = 11 \<Longrightarrow> d \<le> 28 \<Longrightarrow> month_start mp + d - 1 \<le> 364"
    and "mp \<noteq> 11 \<Longrightarrow> month_start mp + d - 1 \<le> 364"
proof -
  have "mp \<in> {0, 1, 2, 3, 4, 5, 6, 7, 8, 9, 10, 11}"
    using assms(1,2) by (simp, presburger)
  then have "march_month (month_start mp + d - 1) = mp \<and> 0 \<le> month_start mp + d - 1
      \<and> month_start mp + d - 1 \<le> 365
      \<and> (mp = 11 \<longrightarrow> d \<le> 28 \<longrightarrow> month_start mp + d - 1 \<le> 364)
      \<and> (mp \<noteq> 11 \<longrightarrow> month_start mp + d - 1 \<le> 364)"
    using assms(3-6) by (elim insertE emptyE) (simp_all add: march_month_def month_start_def)
  then show "march_month (month_start mp + d - 1) = mp"
    and "0 \<le> month_start mp + d - 1" and "month_start mp + d - 1 \<le> 365"
    and "mp = 11 \<Longrightarrow> d \<le> 28 \<Longrightarrow> month_start mp + d - 1 \<le> 364"
    and "mp \<noteq> 11 \<Longrightarrow> month_start mp + d - 1 \<le> 364"
    by blast+
qed

lemma small_div:
  fixes x :: int
  assumes "0 < b" "0 < n"
  shows "0 \<le> (x mod n) div b" and "n - 1 < b * (u + 1) \<Longrightarrow> (x mod n) div b \<le> u"
proof -
  have x: "0 \<le> x mod n" "x mod n \<le> n - 1"
    using assms pos_mod_bound [of n x] by simp_all
  then show "0 \<le> (x mod n) div b" using assms by (simp add: pos_imp_zdiv_nonneg_iff)
  show "(x mod n) div b \<le> u" if "n - 1 < b * (u + 1)"
  proof -
    have "b * ((x mod n) div b) \<le> x mod n"
      using pos_mod_sign [OF assms(1), of "x mod n"] mult_div_mod_eq [of b "x mod n"]
      by linarith
    then have "b * ((x mod n) div b) < b * (u + 1)" using x(2) that by linarith
    then have "(x mod n) div b < u + 1" using assms(1) by (simp add: mult_less_cancel_left)
    then show ?thesis by simp
  qed
qed

text \<open>A year as 400, 100, 4 and single years.\<close>

lemma year_cycles:
  fixes y :: int
  defines "c \<equiv> (y mod 400) div 100" and "q \<equiv> (y mod 100) div 4" and "k \<equiv> y mod 4"
  shows "y = 400 * (y div 400) + 100 * c + 4 * q + k" "0 \<le> c" "c \<le> 3" "0 \<le> q" "q \<le> 24" "0 \<le> k" "k \<le> 3"
proof -
  have mods: "y mod 400 mod 100 = y mod 100" "y mod 100 mod 4 = y mod 4"
    by (simp_all add: mod_mod_cancel)
  show "y = 400 * (y div 400) + 100 * c + 4 * q + k"
    using mult_div_mod_eq [of 400 y] mult_div_mod_eq [of 100 "y mod 400"] mult_div_mod_eq [of 4 "y mod 100"]
    unfolding c_def q_def k_def mods by linarith
  show "0 \<le> c" "0 \<le> q" unfolding c_def q_def by (rule small_div(1); simp)+
  show "c \<le> 3" "q \<le> 24" unfolding c_def q_def by (rule small_div(2); simp)+
  show "0 \<le> k" "k \<le> 3" using pos_mod_bound [of 4 y] unfolding k_def by simp_all
qed

text \<open>The year before a leap year ends a cycle of four, and one of 100 only where it ends one of 400.\<close>

lemma before_leap:
  fixes y e c q k :: int
  assumes y: "y = 400 * e + 100 * c + 4 * q + k" and c: "0 \<le> c" "c \<le> 3" and q: "q \<le> 24" and k: "0 \<le> k" "k \<le> 3"
    and "is_leap (y + 1)"
  shows "k = 3 \<and> (q < 24 \<or> c = 3)"
proof -
  have leap: "(y + 1) mod 4 = 0 \<and> ((y + 1) mod 100 \<noteq> 0 \<or> (y + 1) mod 400 = 0)"
    using assms(7) by (simp add: is_leap_def)
  have "y + 1 = 4 * (100 * e + 25 * c + q) + (k + 1)" using y by simp
  then have "(y + 1) mod 4 = (k + 1) mod 4" by (simp only: mod_mult_self4)
  moreover have "k = 0 \<or> k = 1 \<or> k = 2 \<or> k = 3" using k by linarith
  ultimately have k3: "k = 3" using leap by auto
  have "c = 3" if "q = 24"
  proof -
    have y100: "y + 1 = 100 * (4 * e + c + 1)" by (simp add: y k3 that)
    then have "(y + 1) mod 400 = 0" using leap by simp
    then have "400 dvd 100 * (4 * e + c + 1)" unfolding y100 by (rule mod_0_imp_dvd)
    then have "(100 :: int) * 4 dvd 100 * (4 * e + (c + 1))" by (simp add: add.assoc)
    then have "4 dvd 4 * e + (c + 1)" by (subst (asm) dvd_mult_cancel_left) simp
    then have "4 dvd c + 1" by (simp add: dvd_add_right_iff)
    moreover have "c = 0 \<or> c = 1 \<or> c = 2 \<or> c = 3" using c by linarith
    ultimately show "c = 3" by auto
  qed
  with k3 q show ?thesis by force
qed

theorem civil_from_days_days_from_civil:
  assumes "valid_date y m d"
  shows "civil_from_days (days_from_civil y m d) = (y, m, d)"
proof -
  define y' where "y' = (if m \<le> 2 then y - 1 else y)"
  define mp where "mp = (if m \<le> 2 then m + 9 else m - 3)"
  define e where "e = y' div 400"
  define c where "c = (y' mod 400) div 100"
  define q where "q = (y' mod 100) div 4"
  define k where "k = y' mod 4"
  define doy where "doy = month_start mp + d - 1"
  note y' = year_cycles(1) [of y', folded e_def c_def q_def k_def]
  note cyc = year_cycles(2-7) [of y', folded c_def q_def k_def]
  have md: "1 \<le> m" "m \<le> 12" "1 \<le> d" "d \<le> days_in_month y m"
    using assms by (auto simp: valid_date_def)
  have leap: "k = 3 \<and> (q < 24 \<or> c = 3)" if "mp = 11" "d = 29"
  proof (rule before_leap [OF y' cyc(1,2,4,5,6)])
    have "m = 2" using that(1) md by (auto simp: mp_def split: if_splits)
    then show "is_leap (y' + 1)" using md that(2) by (auto simp: y'_def days_in_month_def split: if_splits)
  qed
  have mp: "0 \<le> mp" "mp \<le> 11" "mp \<in> {1, 3, 6, 8} \<Longrightarrow> d \<le> 30" "mp = 11 \<Longrightarrow> d \<le> 29" "d \<le> 31"
    using md by (auto simp: mp_def days_in_month_def split: if_splits)
  note mr = month_recovered [OF mp(1,2) md(3) mp(5,3,4), simplified]
  have doy: "0 \<le> doy" "doy \<le> 364 \<or> doy = 365 \<and> k = 3 \<and> (q < 24 \<or> c = 3)"
    using mr leap mp unfolding doy_def by (cases "d \<le> 28"; cases "mp = 11"; force)+
  define doe where "doe = 36524 * c + 1461 * q + 365 * k + doy"
  note rec = cycles_recovered [OF cyc doy doe_def]
  have yd: "year_days y' = 146097 * e + 36524 * c + 1461 * q + 365 * k"
    unfolding y' using cyc by (rule year_days_cycles)
  have z: "days_from_civil y m d + 719468 = 146097 * e + doe"
    using yd unfolding days_from_civil_def Let_def y'_def [symmetric] mp_def [symmetric]
    by (simp add: year_days_def doe_def doy_def)
  have "(146097 * e + doe) mod 146097 = doe" "(146097 * e + doe) div 146097 = e"
    using rec(1,2) by simp_all
  moreover have "march_month doy = mp" using mr(1) by (simp add: doy_def)
  ultimately have "civil_from_days (days_from_civil y m d) =
      (let m' = if mp < 10 then mp + 3 else mp - 9
       in (if m' \<le> 2 then y' + 1 else y', m', d))"
    using rec by (simp add: civil_from_days_def z Let_def y' doy_def)
  moreover have "(if mp < 10 then mp + 3 else mp - 9) = m"
    using md by (simp add: mp_def)
  ultimately show ?thesis by (simp add: Let_def y'_def)
qed

section \<open>Instants\<close>

definition day_number :: "time \<Rightarrow> int" where
  "day_number t = t div nanos_per_day"

definition time_of_day :: "time \<Rightarrow> int" where
  "time_of_day t = t mod nanos_per_day"

text \<open>\<open>t.Year()\<close>, \<open>t.Month()\<close>, \<open>t.Day()\<close>, \<open>t.Weekday()\<close> (Sunday is 0).\<close>

definition Year :: "time \<Rightarrow> int" where
  "Year t = fst (civil_from_days (day_number t))"

definition Month :: "time \<Rightarrow> int" where
  "Month t = fst (snd (civil_from_days (day_number t)))"

definition Day :: "time \<Rightarrow> int" where
  "Day t = snd (snd (civil_from_days (day_number t)))"

definition Weekday :: "time \<Rightarrow> int" where
  "Weekday t = (day_number t + 4) mod 7"

text \<open>
  \<open>time.Date(y, m, d, 0, 0, 0, 0, time.UTC)\<close>: a month outside 1..12 carries into the
  year, a day outside the month into the following or preceding months.
\<close>

definition Date :: "int \<Rightarrow> int \<Rightarrow> int \<Rightarrow> time" where
  "Date y m d =
     days_from_civil (y + (m - 1) div 12) ((m - 1) mod 12 + 1) d * nanos_per_day"

text \<open>\<open>t.AddDate(years, months, days)\<close> is \<open>Date\<close> on the shifted components.\<close>

definition AddDate :: "time \<Rightarrow> int \<Rightarrow> int \<Rightarrow> int \<Rightarrow> time" where
  "AddDate t y m d = Date (Year t + y) (Month t + m) (Day t + d) + time_of_day t"

lemma days_from_civil_add: "days_from_civil y m (d + n) = days_from_civil y m d + n"
  by (simp add: days_from_civil_def Let_def)

lemma civil_month_range:
  "civil_from_days z = (y, m, d) \<Longrightarrow> 1 \<le> m \<and> m \<le> 12"
proof -
  assume eq: "civil_from_days z = (y, m, d)"
  have "0 \<le> march_month (day_of_year ((z + 719468) mod 146097))"
    "march_month (day_of_year ((z + 719468) mod 146097)) \<le> 11"
    using march_month_bounds cycle_bounds(7,8) [of "(z + 719468) mod 146097"] by auto
  with eq show ?thesis
    by (auto simp: civil_from_days_def Let_def split: if_splits)
qed

lemma Month_range: "1 \<le> Month t" "Month t \<le> 12"
  using civil_month_range [of "day_number t"] unfolding Month_def
  by (metis prod.collapse)+

lemma Date_of_parts: "days_from_civil (Year t) (Month t) (Day t) = day_number t"
  using days_from_civil_civil_from_days [of "day_number t"]
  by (simp add: Year_def Month_def Day_def split_beta)

lemma AddDate_days: "AddDate t 0 0 n = t + n * nanos_per_day"
proof -
  have m: "(Month t - 1) mod 12 + 1 = Month t" "(Month t - 1) div 12 = 0"
    using Month_range [of t] by simp_all
  have "AddDate t 0 0 n = (day_number t + n) * nanos_per_day + time_of_day t"
    unfolding AddDate_def Date_def by (simp add: m days_from_civil_add Date_of_parts)
  also have "\<dots> = t + n * nanos_per_day"
    unfolding day_number_def time_of_day_def
    by (simp add: distrib_right)
  finally show ?thesis .
qed

lemma day_number_add [simp]: "day_number (t + n * nanos_per_day) = day_number t + n"
  by (simp add: day_number_def)

lemma day_number_mult [simp]: "day_number (n * nanos_per_day) = n"
  by (simp add: day_number_def)

text \<open>Midnights: instants that are whole days.\<close>

definition midnight :: "time \<Rightarrow> bool" where
  "midnight t \<longleftrightarrow> nanos_per_day dvd t"

lemma midnight_eq: "midnight t \<Longrightarrow> t = day_number t * nanos_per_day"
  by (auto simp: midnight_def day_number_def)

lemma midnight_mult [simp]: "midnight (n * nanos_per_day)"
  by (simp add: midnight_def)

lemma midnight_add [simp]: "midnight t \<Longrightarrow> midnight (t + n * nanos_per_day)"
  by (simp add: midnight_def)

lemma midnight_less: "midnight s \<Longrightarrow> midnight t \<Longrightarrow> s < t \<longleftrightarrow> day_number s < day_number t"
  by (metis midnight_eq mult_less_cancel_right_pos nanos_per_day_pos)

text \<open>\<open>t.IsZero()\<close>: the instant 0001-01-01T00:00:00Z.\<close>

definition zero_time :: time where
  "zero_time = days_from_civil 1 1 1 * nanos_per_day"

end
