(* ===== verification/Calendar.thy ===== *)
theory Calendar
  imports GoTime
begin

text \<open>
  \<open>internal/domain/shared/calendar.go\<close> and \<open>clock.go\<close>: the interface
  \<open>BusinessCalendar\<close>, its only implementation \<open>BrazilCalendar\<close> with the national
  holidays and the Meeus/Jones/Butcher computation of Easter, and \<open>DateOnly\<close>. The two
  loops of the calendar are \<open>function\<close>s whose termination rests on the existence of a
  business day after any given day. The locale \<open>calendar_contract\<close> states what the
  schedule of receivables relies on; \<open>brazil\<close> interprets it.
\<close>

section \<open>DateOnly and the calendar interface\<close>

definition DateOnly :: "time \<Rightarrow> time" where
  "DateOnly t = Date (Year t) (Month t) (Day t)"

record business_calendar =
  IsBusinessDay :: "time \<Rightarrow> bool"
  NextBusinessDay :: "time \<Rightarrow> time"
  AddBusinessDays :: "time \<Rightarrow> int \<Rightarrow> time"

lemma DateOnly_eq: "DateOnly t = day_number t * nanos_per_day"
proof -
  have "(Month t - 1) mod 12 + 1 = Month t" "(Month t - 1) div 12 = 0"
    using Month_range [of t] by simp_all
  then show ?thesis by (simp add: DateOnly_def Date_def Date_of_parts)
qed

lemma midnight_DateOnly [simp]: "midnight (DateOnly t)"
  by (simp add: DateOnly_eq)

lemma DateOnly_midnight [simp]: "midnight t \<Longrightarrow> DateOnly t = t"
  using midnight_eq [of t] by (simp add: DateOnly_eq)

lemma DateOnly_idem [simp]: "DateOnly (DateOnly t) = DateOnly t"
  by simp

lemma day_number_DateOnly [simp]: "day_number (DateOnly t) = day_number t"
  by (simp add: DateOnly_eq)

section \<open>Easter and the national holidays\<close>

text \<open>Go's \<open>/\<close> and \<open>%\<close> truncate towards zero: \<open>sdiv\<close> and \<open>smod\<close>.\<close>

definition easterSunday :: "int \<Rightarrow> time" where
  "easterSunday year =
     (let a = year smod 19;
          b = year sdiv 100;
          c = year smod 100;
          d = b sdiv 4;
          e = b smod 4;
          f = (b + 8) sdiv 25;
          g = (b - f + 1) sdiv 3;
          h = (19 * a + b - d - g + 15) smod 30;
          i = c sdiv 4;
          k = c smod 4;
          l = (32 + 2 * e + 2 * i - h - k) smod 7;
          m = (a + 11 * h + 22 * l) sdiv 451;
          month = (h + l - 7 * m + 114) sdiv 31;
          day = (h + l - 7 * m + 114) smod 31 + 1
      in Date year month day)"

definition isNationalHoliday :: "time \<Rightarrow> bool" where
  "isNationalHoliday t =
     (let m = Month t; d = Day t
      in if m = 1 \<and> d = 1 \<or> m = 4 \<and> d = 21 \<or> m = 5 \<and> d = 1 \<or> m = 9 \<and> d = 7
            \<or> m = 10 \<and> d = 12 \<or> m = 11 \<and> d = 2 \<or> m = 11 \<and> d = 15 \<or> m = 11 \<and> d = 20
            \<or> m = 12 \<and> d = 25
         then True
         else let easter = easterSunday (Year t); day = DateOnly t
              in list_ex (\<lambda>offset. day = AddDate easter 0 0 offset) [-48, -47, -2, 60])"

definition brazil_is_business_day :: "time \<Rightarrow> bool" where
  "brazil_is_business_day t =
     (if Weekday t = 6 \<or> Weekday t = 0 then False else \<not> isNationalHoliday t)"

text \<open>Whether a day is a business day depends on its day number only.\<close>

definition bd_day :: "int \<Rightarrow> bool" where
  "bd_day n = brazil_is_business_day (n * nanos_per_day)"

lemma brazil_is_business_day_day: "brazil_is_business_day t = bd_day (day_number t)"
  by (simp add: bd_day_def brazil_is_business_day_def isNationalHoliday_def Weekday_def
      Year_def Month_def Day_def DateOnly_eq)

section \<open>There is always a next business day\<close>

lemma smod_bounds:
  fixes x :: int
  assumes "0 < n"
  shows "x smod n \<le> n - 1" "- (n - 1) \<le> x smod n"
  using smod_int_range [of n x] assms by auto

lemma sdiv_451_bounds:
  fixes x :: int
  assumes "\<bar>x\<bar> \<le> 469"
  shows "x sdiv 451 \<le> 1" "- 1 \<le> x sdiv 451"
proof -
  have "\<bar>x\<bar> div 451 \<le> 1" "0 \<le> \<bar>x\<bar> div 451" using assms by simp_all
  then show "x sdiv 451 \<le> 1" "- 1 \<le> x sdiv 451"
    by (auto simp: signed_divide_int_def sgn_if)
qed

lemma easter_month_day:
  obtains m d where "easterSunday y = Date y m d" "2 \<le> m" "m \<le> 5" "1 \<le> d" "d \<le> 31"
proof -
  define a where "a = y smod 19"
  define h where "h = (19 * a + y sdiv 100 - y sdiv 100 sdiv 4
      - (y sdiv 100 - (y sdiv 100 + 8) sdiv 25 + 1) sdiv 3 + 15) smod 30"
  define l where "l = (32 + 2 * (y sdiv 100 smod 4) + 2 * (y smod 100 sdiv 4) - h
      - y smod 100 smod 4) smod 7"
  define m where "m = (a + 11 * h + 22 * l) sdiv 451"
  define t where "t = h + l - 7 * m + 114"
  have a: "a \<le> 18" "- 18 \<le> a" using smod_bounds [of 19 y] by (simp_all add: a_def)
  have h: "h \<le> 29" "- 29 \<le> h" using smod_bounds [of 30] by (simp_all add: h_def)
  have l: "l \<le> 6" "- 6 \<le> l" using smod_bounds [of 7] by (simp_all add: l_def)
  have m: "m \<le> 1" "- 1 \<le> m"
    using a h l sdiv_451_bounds [of "a + 11 * h + 22 * l"] by (simp_all add: m_def)
  have t: "72 \<le> t" "t \<le> 156" using h l m by (simp_all add: t_def)
  have "easterSunday y = Date y (t sdiv 31) (t smod 31 + 1)"
    by (simp add: easterSunday_def Let_def t_def m_def l_def h_def a_def)
  moreover have "t sdiv 31 = t div 31" "t smod 31 = t mod 31"
    using t by (simp_all add: signed_divide_int_def smod_mod_positive)
  moreover have "2 \<le> t div 31" "t div 31 \<le> 5" "0 \<le> t mod 31" "t mod 31 \<le> 30"
    using t zdiv_mono1 [of t 156 31] zdiv_mono1 [of 72 t 31] pos_mod_bound [of 31 t]
    by simp_all
  ultimately show thesis using that [of "t div 31" "t mod 31 + 1"] by simp
qed

lemma year_days_step: "year_days (y - 1) + 364 \<le> year_days y"
proof -
  have "(y - 1) div 4 \<le> y div 4" "(y - 1) div 400 \<le> y div 400"
    by (simp_all add: zdiv_mono1)
  moreover have "y div 100 \<le> (y - 1) div 100 + 1"
    using zdiv_mono1 [of y "y - 1 + 100" 100] by simp
  ultimately show ?thesis by (simp add: year_days_def)
qed

lemma easter_before_august:
  "day_number (easterSunday y) + 60 < days_from_civil y 8 1"
proof -
  obtain m d where e: "easterSunday y = Date y m d" and md: "2 \<le> m" "m \<le> 5" "1 \<le> d" "d \<le> 31"
    by (rule easter_month_day)
  have m': "(m - 1) div 12 = 0" "(m - 1) mod 12 + 1 = m" using md by simp_all
  have m_cases: "m = 2 \<or> m = 3 \<or> m = 4 \<or> m = 5" using md by linarith
  have "days_from_civil y m d + 60 < days_from_civil y 8 1"
    using m_cases md year_days_step [of y]
    by (elim disjE) (simp_all add: days_from_civil_year_days month_start_def)
  then show ?thesis by (simp add: e Date_def m')
qed

lemma august_not_holiday:
  assumes "1 \<le> k" "k \<le> 31"
  shows "\<not> isNationalHoliday (days_from_civil y 8 k * nanos_per_day)"
proof -
  define n where "n = days_from_civil y 8 k"
  have civ: "civil_from_days n = (y, 8, k)"
    using assms unfolding n_def
    by (intro civil_from_days_days_from_civil) (simp add: valid_date_def days_in_month_def)
  have "days_from_civil y 8 1 \<le> n"
    using assms days_from_civil_add [of y 8 1 "k - 1"] by (simp add: n_def)
  with easter_before_august [of y] have "day_number (easterSunday y) + 60 < n" by simp
  moreover have "n * nanos_per_day = AddDate (easterSunday y) 0 0 off \<Longrightarrow>
      n = day_number (easterSunday y) + off" for off
    unfolding AddDate_days by (metis day_number_add day_number_mult)
  ultimately show ?thesis
    using civ unfolding n_def [symmetric]
    by (auto simp: isNationalHoliday_def Month_def Day_def Year_def DateOnly_eq Let_def)
qed

lemma next_august:
  assumes "civil_from_days n = (y, m, d)"
  shows "n < days_from_civil (y + 1) 8 1"
proof -
  have n: "n = days_from_civil y m d"
    using days_from_civil_civil_from_days [of n] assms by simp
  define doe where "doe = (n + 719468) mod 146097"
  have doe: "0 \<le> doe" "doe < 146097" by (simp_all add: doe_def)
  have m: "1 \<le> m" "m \<le> 12" using civil_month_range assms by auto
  have "month_start (if m \<le> 2 then m + 9 else m - 3) + (d - 1) \<le> 365"
    using assms cycle_bounds(7,8) [OF doe]
      march_month_bounds [OF cycle_bounds(7,8) [OF doe]]
    unfolding civil_from_days_def Let_def doe_def [symmetric]
    by (auto split: if_splits)
  then show ?thesis
    unfolding n using year_days_step [of y] year_days_step [of "y + 1"] m
    by (auto simp: days_from_civil_year_days month_start_def split: if_splits)
qed

lemma business_day_exists: "\<exists>k. bd_day (n + int k)"
proof -
  obtain y m d where civ: "civil_from_days n = (y, m, d)" by (metis prod_cases3)
  define a where "a = days_from_civil (y + 1) 8 1"
  define k where "k = (6 - a) mod 7"
  have na: "n < a" using next_august [OF civ] by (simp add: a_def)
  have k: "0 \<le> k" "k \<le> 6" using pos_mod_bound [of 7 "6 - a"] by (simp_all add: k_def)
  have "(a + k + 4) mod 7 = 3"
    unfolding k_def by presburger
  moreover have "\<not> isNationalHoliday ((a + k) * nanos_per_day)"
    using august_not_holiday [of "k + 1" "y + 1"] k days_from_civil_add [of "y + 1" 8 1 k]
    by (simp add: a_def add.commute)
  ultimately have "bd_day (a + k)"
    by (simp add: bd_day_def brazil_is_business_day_def Weekday_def)
  then have "bd_day (n + int (nat (a + k - n)))" using na k by simp
  then show ?thesis by blast
qed

text \<open>The number of days to wait for a business day, from a given day.\<close>

definition wait :: "int \<Rightarrow> nat" where
  "wait n = (LEAST k. bd_day (n + int k))"

lemma bd_day_wait: "bd_day (n + int (wait n))"
  unfolding wait_def using business_day_exists by (rule LeastI_ex)

lemma wait_Suc: "\<not> bd_day n \<Longrightarrow> wait n = Suc (wait (n + 1))"
proof -
  assume no: "\<not> bd_day n"
  have "wait n = Suc (LEAST k. bd_day (n + int (Suc k)))"
    unfolding wait_def
  proof (rule Least_Suc)
    show "bd_day (n + int (wait n))" by (rule bd_day_wait)
    show "\<not> bd_day (n + int 0)" using no by simp
  qed
  then show ?thesis by (simp add: wait_def add.assoc)
qed

lemma wait_0: "bd_day n \<Longrightarrow> wait n = 0"
  unfolding wait_def by (rule Least_eq_0) simp

section \<open>BrazilCalendar\<close>

function brazil_next_loop :: "time \<Rightarrow> time" where
  "brazil_next_loop d =
     (if \<not> brazil_is_business_day d then brazil_next_loop (AddDate d 0 0 1) else d)"
  by pat_completeness auto
termination
  by (relation "measure (\<lambda>d. wait (day_number d))")
    (use day_number_add [of _ 1] in \<open>auto simp: AddDate_days brazil_is_business_day_day wait_Suc\<close>)

declare brazil_next_loop.simps [simp del]

definition brazil_next_business_day :: "time \<Rightarrow> time" where
  "brazil_next_business_day t = brazil_next_loop (DateOnly t)"

function brazil_add_loop :: "time \<Rightarrow> int \<Rightarrow> time" where
  "brazil_add_loop d n =
     (if n > 0
      then let d' = AddDate d 0 0 1
           in brazil_add_loop d' (if brazil_is_business_day d' then n - 1 else n)
      else d)"
  by pat_completeness auto
termination
proof (relation "measures [\<lambda>(d, n). nat n, \<lambda>(d, n). wait (day_number d + 1)]", simp)
  fix d n :: int and d'
  assume n: "0 < n" and d': "d' = AddDate d 0 0 1"
  have "day_number d' = day_number d + 1"
    using day_number_add [of d 1] by (simp add: d' AddDate_days)
  then show "((d', if brazil_is_business_day d' then n - 1 else n), d, n)
      \<in> measures [\<lambda>(d, n). nat n, \<lambda>(d, n). wait (day_number d + 1)]"
    using n by (auto simp: brazil_is_business_day_day wait_Suc)
qed

declare brazil_add_loop.simps [simp del]

definition brazil_add_business_days :: "time \<Rightarrow> int \<Rightarrow> time" where
  "brazil_add_business_days t n = brazil_add_loop (DateOnly t) n"

definition BrazilCalendar :: business_calendar where
  "BrazilCalendar =
     \<lparr>IsBusinessDay = brazil_is_business_day,
      NextBusinessDay = brazil_next_business_day,
      AddBusinessDays = brazil_add_business_days\<rparr>"

lemma BrazilCalendar_simps [simp]:
  "IsBusinessDay BrazilCalendar = brazil_is_business_day"
  "NextBusinessDay BrazilCalendar = brazil_next_business_day"
  "AddBusinessDays BrazilCalendar = brazil_add_business_days"
  by (simp_all add: BrazilCalendar_def)

text \<open>The first loop returns the first business day not before the given day.\<close>

lemma next_loop_wait:
  "midnight d \<Longrightarrow> brazil_next_loop d = d + int (wait (day_number d)) * nanos_per_day"
proof (induction d rule: brazil_next_loop.induct)
  case (1 d)
  show ?case
  proof (cases "brazil_is_business_day d")
    case True
    then show ?thesis
      by (simp add: brazil_next_loop.simps [of d] brazil_is_business_day_day wait_0)
  next
    case False
    have day: "day_number (AddDate d 0 0 1) = day_number d + 1"
      using day_number_add [of d 1] by (simp add: AddDate_days)
    have "midnight (AddDate d 0 0 1)"
      using midnight_add [OF "1.prems", of 1] by (simp add: AddDate_days)
    with 1 False have "brazil_next_loop (AddDate d 0 0 1) =
        AddDate d 0 0 1 + int (wait (day_number d + 1)) * nanos_per_day"
      by (simp add: day)
    with False show ?thesis
      by (simp add: brazil_next_loop.simps [of d] brazil_is_business_day_day wait_Suc
          AddDate_days distrib_right)
  qed
qed

lemma brazil_next_eq:
  "brazil_next_business_day t = (day_number t + int (wait (day_number t))) * nanos_per_day"
  unfolding brazil_next_business_day_def
  by (simp add: next_loop_wait DateOnly_eq distrib_right)

text \<open>The second loop: business days strictly after \<open>d\<close>, counted.\<close>

lemma count_step:
  assumes "a + 1 \<le> r"
  shows "card {k \<in> {a<..r}. bd_day k} = card {k \<in> {a + 1<..r}. bd_day k} + (if bd_day (a + 1) then 1 else 0)"
proof -
  have "{a<..r} = insert (a + 1) {a + 1<..r}" using assms by auto
  then have split: "{k \<in> {a<..r}. bd_day k} = {k \<in> {a + 1<..r}. bd_day k} \<union> (if bd_day (a + 1) then {a + 1} else {})"
    by auto
  have "finite {k \<in> {a + 1<..r}. bd_day k}" by (rule finite_subset [of _ "{a + 1<..r}"]) auto
  then show ?thesis unfolding split by (auto simp: card_insert_if)
qed

lemma add_loop_spec:
  assumes "midnight d" "0 \<le> n"
  shows "midnight (brazil_add_loop d n) \<and>
    day_number d \<le> day_number (brazil_add_loop d n) \<and>
    card {k \<in> {day_number d<..day_number (brazil_add_loop d n)}. bd_day k} = nat n \<and>
    (0 < n \<longrightarrow> bd_day (day_number (brazil_add_loop d n)))"
  using assms
proof (induction d n rule: brazil_add_loop.induct)
  case (1 d n)
  show ?case
  proof (cases "0 < n")
    case False
    with "1.prems" show ?thesis by (auto simp: brazil_add_loop.simps [of d 0])
  next
    case True
    define d' where "d' = AddDate d 0 0 1"
    define n' where "n' = (if brazil_is_business_day d' then n - 1 else n)"
    define r where "r = day_number (brazil_add_loop d' n')"
    have day: "day_number d' = day_number d + 1"
      using day_number_add [of d 1] by (simp add: d'_def AddDate_days)
    have mid: "midnight d'"
      using midnight_add [OF "1.prems"(1), of 1] by (simp add: d'_def AddDate_days)
    have n': "0 \<le> n'" using True by (simp add: n'_def)
    have eq: "brazil_add_loop d n = brazil_add_loop d' n'"
      using True by (simp add: brazil_add_loop.simps [of d n] d'_def n'_def Let_def)
    note IH = "1.IH" [OF True d'_def, folded n'_def, OF mid n', folded r_def, unfolded day]
    have bd: "bd_day (day_number d + 1) = brazil_is_business_day d'"
      by (simp add: brazil_is_business_day_day day)
    have "card {k \<in> {day_number d<..r}. bd_day k} = nat n"
      using count_step [of "day_number d" r] IH True by (auto simp: bd n'_def split: if_splits)
    moreover have "bd_day r"
    proof (cases "0 < n'")
      case True
      then show ?thesis using IH by simp
    next
      case False
      then have "n' = 0" "brazil_is_business_day d'"
        using n' \<open>0 < n\<close> by (auto simp: n'_def split: if_splits)
      then show ?thesis
        by (simp add: r_def brazil_add_loop.simps [of d' 0] day bd)
    qed
    ultimately show ?thesis using IH by (simp add: eq r_def)
  qed
qed

section \<open>The calendar contract\<close>

text \<open>What the schedule of receivables relies on.\<close>

locale calendar_contract =
  fixes cal :: business_calendar
  assumes next_business: "IsBusinessDay cal (NextBusinessDay cal t)"
    and next_midnight: "midnight (NextBusinessDay cal t)"
    and next_not_before: "DateOnly t \<le> NextBusinessDay cal t"
    and next_first: "midnight s \<Longrightarrow> DateOnly t \<le> s \<Longrightarrow> IsBusinessDay cal s \<Longrightarrow> NextBusinessDay cal t \<le> s"
    and add_business: "0 < n \<Longrightarrow> IsBusinessDay cal (AddBusinessDays cal t n)"
    and add_midnight: "0 < n \<Longrightarrow> midnight (AddBusinessDays cal t n)"
    and add_after: "0 < n \<Longrightarrow> DateOnly t < AddBusinessDays cal t n"
begin

lemma next_of_business: "midnight t \<Longrightarrow> IsBusinessDay cal t \<Longrightarrow> NextBusinessDay cal t = t"
  using next_first [of t t] next_not_before [of t] by simp

lemma next_idem: "NextBusinessDay cal (NextBusinessDay cal t) = NextBusinessDay cal t"
  by (rule next_of_business [OF next_midnight next_business])

lemma next_mono: "DateOnly s \<le> DateOnly t \<Longrightarrow> NextBusinessDay cal s \<le> NextBusinessDay cal t"
  by (rule next_first) (use next_not_before [of t] next_midnight next_business in auto)

end

lemma wait_le: "bd_day (n + int k) \<Longrightarrow> wait n \<le> k"
  unfolding wait_def by (rule Least_le)

interpretation brazil: calendar_contract BrazilCalendar
proof
  fix t s :: time and n :: int
  show "IsBusinessDay BrazilCalendar (NextBusinessDay BrazilCalendar t)"
    using bd_day_wait by (simp add: brazil_is_business_day_day brazil_next_eq)
  show "midnight (NextBusinessDay BrazilCalendar t)"
    by (simp add: brazil_next_eq)
  show "DateOnly t \<le> NextBusinessDay BrazilCalendar t"
    by (simp add: brazil_next_eq DateOnly_eq)
  show "NextBusinessDay BrazilCalendar t \<le> s"
    if "midnight s" "DateOnly t \<le> s" "IsBusinessDay BrazilCalendar s"
  proof -
    have s: "s = day_number s * nanos_per_day" using that(1) by (rule midnight_eq)
    have le: "day_number t \<le> day_number s"
      using that(2) by (subst (asm) s) (simp add: DateOnly_eq)
    have "wait (day_number t) \<le> nat (day_number s - day_number t)"
      using that(3) le by (intro wait_le) (simp add: brazil_is_business_day_day)
    then have "day_number t + int (wait (day_number t)) \<le> day_number s"
      using le by linarith
    then have "(day_number t + int (wait (day_number t))) * nanos_per_day
        \<le> day_number s * nanos_per_day" by simp
    then show ?thesis using s by (simp add: brazil_next_eq)
  qed
  assume n: "0 < n"
  have spec: "midnight (brazil_add_loop (DateOnly t) n)"
    "card {k \<in> {day_number t<..day_number (brazil_add_loop (DateOnly t) n)}. bd_day k} = nat n"
    "bd_day (day_number (brazil_add_loop (DateOnly t) n))"
    using add_loop_spec [of "DateOnly t" n] n by simp_all
  show "IsBusinessDay BrazilCalendar (AddBusinessDays BrazilCalendar t n)"
    and "midnight (AddBusinessDays BrazilCalendar t n)"
    using spec by (simp_all add: brazil_add_business_days_def brazil_is_business_day_day)
  have "day_number t < day_number (brazil_add_loop (DateOnly t) n)"
    using spec(2) n by (cases "day_number t < day_number (brazil_add_loop (DateOnly t) n)") auto
  then show "DateOnly t < AddBusinessDays BrazilCalendar t n"
    using spec(1) by (simp add: midnight_less brazil_add_business_days_def)
qed

section \<open>Easter\<close>

text \<open>The last steps of the computation: the days after 22 March are between 0 and 34, and that many days
  after it the month and the day are what the code divides out.\<close>

lemma easter_range:
  fixes a h l :: int
  assumes "0 \<le> a" "a \<le> 18" "0 \<le> h" "h \<le> 29" "0 \<le> l" "l \<le> 6"
  defines "p \<equiv> h + l - 7 * ((a + 11 * h + 22 * l) div 451)"
  shows "0 \<le> p" "p \<le> 34"
proof -
  have "(a + 11 * h + 22 * l) div 451 = (if 451 \<le> a + 11 * h + 22 * l then 1 else 0)"
    using assms(1-6) by (simp add: div_between)
  then show "0 \<le> p" "p \<le> 34" using assms(1-6) by (auto simp: p_def split: if_splits)
qed

lemma march_or_april:
  assumes "0 \<le> p" "p \<le> 34"
  shows "Date year ((p + 114) sdiv 31) ((p + 114) smod 31 + 1) = Date year (if p \<le> 9 then 3 else 4) (if p \<le> 9 then 22 + p else p - 9)"
proof -
  have "(p + 114) div 31 = (if p \<le> 9 then 3 else 4)" using assms by (simp add: div_between)
  then show ?thesis using assms by (simp add: sdiv_nonneg smod_nonneg minus_mult_div_eq_mod [symmetric])
qed

text \<open>The day of the week: the days before the year and those after 22 March make a Sunday.\<close>

lemma easter_weekday:
  assumes year: "year = 100 * (4 * d + e) + (4 * i + k)" and "0 \<le> e" "e \<le> 3" "0 \<le> i" "0 \<le> k" "k \<le> 3" "4 * i + k \<le> 99"
    and "32 + 2 * e + 2 * i - h - k = 7 * v + l"
  shows "year_days year + (h + l - 7 * m) = 7 * (20871 * d + 5218 * e + 209 * i + 52 * k - v - m + 4) + 4"
proof -
  have "year div 4 = 25 * (4 * d + e) + i" "year div 100 = 4 * d + e" "year div 400 = d"
    using assms(2-7) unfolding year by (simp_all add: int_div_pos_eq)
  then show ?thesis using assms(8) by (simp add: year_days_def year)
qed

lemma easter_offset:
  assumes "0 \<le> year"
  obtains p w where
    "easterSunday year = Date year (if p \<le> 9 then 3 else 4) (if p \<le> 9 then 22 + p else p - 9)"
    "0 \<le> p" "p \<le> 34" "year_days year + p = 7 * w + 4"
proof -
  define a where "a = year mod 19"
  define b where "b = year div 100"
  define c where "c = year mod 100"
  define d where "d = b div 4"
  define e where "e = b mod 4"
  define f where "f = (b + 8) div 25"
  define g where "g = (b - f + 1) div 3"
  define h where "h = (19 * a + b - d - g + 15) mod 30"
  define i where "i = c div 4"
  define k where "k = c mod 4"
  define l where "l = (32 + 2 * e + 2 * i - h - k) mod 7"
  define m where "m = (a + 11 * h + 22 * l) div 451"
  define p where "p = h + l - 7 * m"
  define v where "v = (32 + 2 * e + 2 * i - h - k) div 7"
  have a: "0 \<le> a" "a \<le> 18" using pos_mod_bound [of 19 year] by (simp_all add: a_def)
  have b: "0 \<le> b" using assms by (simp add: b_def pos_imp_zdiv_nonneg_iff)
  have c: "0 \<le> c" "c \<le> 99" using pos_mod_bound [of 100 year] by (simp_all add: c_def)
  have d: "0 \<le> d" "4 * d + e = b" "0 \<le> e" "e \<le> 3"
    using b pos_mod_bound [of 4 b] by (simp_all add: d_def e_def pos_imp_zdiv_nonneg_iff)
  have f: "0 \<le> f" "25 * f \<le> b + 8" using b by (simp_all add: f_def pos_imp_zdiv_nonneg_iff)
  have bf: "0 \<le> b - f + 1" using f b by linarith
  have g: "0 \<le> g" "3 * g \<le> b - f + 1" using bf by (simp_all add: g_def pos_imp_zdiv_nonneg_iff)
  have hpos: "0 \<le> 19 * a + b - d - g + 15" using a b d f g by linarith
  have h: "0 \<le> h" "h \<le> 29"
    using pos_mod_bound [of 30 "19 * a + b - d - g + 15"] by (simp_all add: h_def)
  have i: "0 \<le> i" "4 * i + k = c" "0 \<le> k" "k \<le> 3"
    using c pos_mod_bound [of 4 c] by (simp_all add: i_def k_def pos_imp_zdiv_nonneg_iff)
  have lpos: "0 \<le> 32 + 2 * e + 2 * i - h - k" using d i h by linarith
  have l: "0 \<le> l" "l \<le> 6"
    using pos_mod_bound [of 7 "32 + 2 * e + 2 * i - h - k"] by (simp_all add: l_def)
  have p: "0 \<le> p" "p \<le> 34" using easter_range [OF a h l] by (simp_all add: p_def m_def)
  have "year smod 19 = a" "year sdiv 100 = b" "year smod 100 = c"
    using assms by (simp_all add: sdiv_nonneg smod_nonneg a_def b_def c_def)
  moreover have "b sdiv 4 = d" "b smod 4 = e" "(b + 8) sdiv 25 = f"
    using b by (simp_all add: sdiv_nonneg smod_nonneg d_def e_def f_def)
  moreover have "(b - f + 1) sdiv 3 = g" using bf by (simp add: sdiv_nonneg g_def)
  moreover have "(19 * a + b - d - g + 15) smod 30 = h"
    using hpos by (simp add: smod_nonneg h_def)
  moreover have "c sdiv 4 = i" "c smod 4 = k"
    using c by (simp_all add: sdiv_nonneg smod_nonneg i_def k_def)
  moreover have "(32 + 2 * e + 2 * i - h - k) smod 7 = l"
    using lpos by (simp add: smod_nonneg l_def)
  moreover have "(a + 11 * h + 22 * l) sdiv 451 = m"
    using a h l by (simp add: sdiv_nonneg m_def)
  moreover have "h + l - 7 * m + 114 = p + 114" by (simp add: p_def)
  ultimately have "easterSunday year = Date year ((p + 114) sdiv 31) ((p + 114) smod 31 + 1)"
    unfolding easterSunday_def Let_def by simp
  then have ep: "easterSunday year = Date year (if p \<le> 9 then 3 else 4) (if p \<le> 9 then 22 + p else p - 9)"
    using march_or_april [OF p] by simp
  have "year = 100 * (4 * d + e) + (4 * i + k)" unfolding d(2) i(2) by (simp add: b_def c_def)
  moreover have "32 + 2 * e + 2 * i - h - k = 7 * v + l" unfolding v_def l_def by (simp only: mult_div_mod_eq)
  ultimately have "year_days year + p = 7 * (20871 * d + 5218 * e + 209 * i + 52 * k - v - m + 4) + 4"
    unfolding p_def using d i c by (intro easter_weekday) simp_all
  with ep p show thesis by (rule that)
qed

text \<open>For every year from 0 on, \<open>easterSunday\<close> returns a Sunday at midnight between
  the 22nd of March and the 25th of April, so the Carnival, Good Friday and Corpus Christi
  offsets land on a Monday, a Tuesday, a Friday and a Thursday.\<close>

theorem easter_is_sunday:
  assumes "0 \<le> year"
  shows "Weekday (easterSunday year) = 0 \<and> midnight (easterSunday year)
    \<and> Date year 3 22 \<le> easterSunday year \<and> easterSunday year \<le> Date year 4 25
    \<and> map (\<lambda>off. Weekday (AddDate (easterSunday year) 0 0 off)) [-48, -47, -2, 60] = [1, 2, 5, 4]"
proof -
  obtain p w where
    e: "easterSunday year = Date year (if p \<le> 9 then 3 else 4) (if p \<le> 9 then 22 + p else p - 9)"
    and p: "0 \<le> p" "p \<le> 34" and w: "year_days year + p = 7 * w + 4"
    using easter_offset [OF assms] .
  have D: "easterSunday year = (year_days year + p + 21 - 719468) * nanos_per_day"
    by (simp add: e Date_def days_from_civil_year_days month_start_def)
  have "Date year 3 22 = (year_days year + 21 - 719468) * nanos_per_day"
    "Date year 4 25 = (year_days year + 34 + 21 - 719468) * nanos_per_day"
    by (simp_all add: Date_def days_from_civil_year_days month_start_def)
  then have range: "Date year 3 22 \<le> easterSunday year" "easterSunday year \<le> Date year 4 25"
    using p by (simp_all add: D)
  have "day_number (easterSunday year) = 7 * w + 4 + 21 - 719468"
    unfolding D day_number_mult w by simp
  then have n: "day_number (easterSunday year) + 4 = 7 * (w - 102777)" by simp
  have "Weekday (easterSunday year + off * nanos_per_day) = off mod 7" for off
  proof -
    have "day_number (easterSunday year) + off + 4 = off + 7 * (w - 102777)" using n by simp
    then show ?thesis unfolding Weekday_def day_number_add by (simp only: mod_mult_self2)
  qed
  from this [of 0] this have "Weekday (easterSunday year) = 0"
    "map (\<lambda>off. Weekday (AddDate (easterSunday year) 0 0 off)) [-48, -47, -2, 60] = [1, 2, 5, 4]"
    by (simp_all add: AddDate_days)
  with range show ?thesis by (simp add: D)
qed

theorem easter_is_sunday_witness: "Weekday (easterSunday 2026) = 0 \<and> easterSunday 2026 = Date 2026 4 5"
  using easter_is_sunday [of 2026] by (simp add: easterSunday_def Let_def)

text \<open>C31: \<open>NextBusinessDay\<close> and \<open>AddBusinessDays\<close> of the Brazilian calendar return for
  every argument (their loops stop): the first is the earliest business day not before the
  given day; the second, for \<open>n > 0\<close>, is a business day with exactly \<open>n\<close> business days
  after the given day up to it.\<close>

theorem business_days_correct:
  "bd_day (day_number (brazil_next_business_day t)) \<and> midnight (brazil_next_business_day t)
    \<and> day_number t \<le> day_number (brazil_next_business_day t)
    \<and> (\<forall>k. day_number t \<le> k \<and> bd_day k \<longrightarrow> day_number (brazil_next_business_day t) \<le> k)
    \<and> (0 < n \<longrightarrow> bd_day (day_number (brazil_add_business_days t n)))
    \<and> card {k \<in> {day_number t<..day_number (brazil_add_business_days t n)}. bd_day k} = nat n"
proof -
  have "day_number (brazil_next_business_day t) \<le> k" if "day_number t \<le> k" "bd_day k" for k
  proof -
    have "wait (day_number t) \<le> nat (k - day_number t)"
      using that by (intro wait_le) simp
    then show ?thesis using that by (simp add: brazil_next_eq)
  qed
  moreover have "brazil_add_business_days t n = DateOnly t" if "n \<le> 0"
    using that by (simp add: brazil_add_business_days_def brazil_add_loop.simps [of "DateOnly t" n])
  ultimately show ?thesis
    using add_loop_spec [of "DateOnly t" n] bd_day_wait [of "day_number t"]
    by (cases "0 \<le> n") (auto simp: brazil_next_eq brazil_add_business_days_def)
qed

theorem business_days_correct_witness:
  "bd_day (day_number (brazil_next_business_day 0)) \<and>
   card {k \<in> {0<..day_number (brazil_add_business_days 0 3)}. bd_day k} = 3"
  using business_days_correct [of 0 3] by (simp add: day_number_def)

text \<open>The test suite's dates: 4 September 2026 plus one business day is the 8th.\<close>

lemma calendar_example:
  "brazil_add_business_days (Date 2026 9 4) 1 = Date 2026 9 8"
  "brazil_next_business_day (Date 2026 9 12) = Date 2026 9 14"
  by (code_simp)+

end
