(* ===== verification/Shared.thy ===== *)
theory Shared
  imports Calendar
begin

text \<open>
  \<open>internal/domain/shared\<close>: the error values, \<open>NewID\<close>, the base event, products and
  money. \<open>uuid.NewString\<close> is third-party code: wherever the program calls \<open>NewID\<close>,
  the model takes the UUID strings as an argument (one string, or a supply \<open>nat \<Rightarrow> string\<close>
  where an operation draws several). Error values are one datatype: \<open>Sentinel\<close> is a
  package-level \<open>errors.New\<close> variable, \<open>Errorf args e\<close> is \<open>fmt.Errorf("... %w ...")\<close>
  around \<open>e\<close> with the other arguments of the format, \<open>ErrorString\<close> an error that
  wraps nothing, and \<open>PermanentError\<close> the wrapper of \<open>internal/application/errors.go\<close>.
\<close>

section \<open>Errors\<close>

datatype sentinel =
    ErrNotFound | ErrInvalidAmount | ErrInvalidTransition | ErrConcurrentUpdate
  | ErrInvalidProduct
  | ErrInvalidDocument | ErrInvalidBankAccount | ErrInstallmentsNotAllowed | ErrInvalidFeePlan
  | ErrInvalidLegalName | ErrInvalidMCC | ErrMerchantInactive | ErrInvalidWebhook
  | ErrInvalidPAN | ErrInvalidToken | ErrDebitInstallments | ErrMaxInstallments
  | ErrNotCaptured
  | ErrNoReceivables | ErrNotAnticipable | ErrAntWrongMerchant | ErrAlreadyDone
  | ErrNothingToSettle | ErrWrongDay | ErrStlWrongMerchant | ErrWrongStatus
  | ErrCbInvalidAmount | ErrTransactionStatus
  | ErrReceivableLiened | ErrAlreadyRunning | ErrIssuerUnavailable | ErrLimitExceeded
  | DeadlineExceeded

datatype go_error =
    Sentinel sentinel
  | Errorf "string list" go_error
  | ErrorString string
  | PermanentError go_error

type_synonym 'a result = "go_error + 'a"

text \<open>\<open>errors.Is(err, target)\<close> for a sentinel, and \<open>application.IsPermanent\<close>.\<close>

fun errors_Is :: "go_error \<Rightarrow> sentinel \<Rightarrow> bool" where
  "errors_Is (Sentinel s) t = (s = t)"
| "errors_Is (Errorf args e) t = errors_Is e t"
| "errors_Is (ErrorString msg) t = False"
| "errors_Is (PermanentError e) t = errors_Is e t"

definition Permanent :: "go_error \<Rightarrow> go_error" where
  "Permanent e = PermanentError e"

fun IsPermanent :: "go_error \<Rightarrow> bool" where
  "IsPermanent (PermanentError e) = True"
| "IsPermanent (Errorf args e) = IsPermanent e"
| "IsPermanent (Sentinel s) = False"
| "IsPermanent (ErrorString msg) = False"

section \<open>Identifiers\<close>

definition NewID :: "string \<Rightarrow> string \<Rightarrow> string" where
  "NewID uuid prefix = prefix @ ''_'' @ filter (\<lambda>c. c \<noteq> CHR ''-'') uuid"

text \<open>Two identifiers with the same prefix differ where their UUIDs differ beyond hyphens.\<close>

definition uuid_distinct :: "(nat \<Rightarrow> string) \<Rightarrow> bool" where
  "uuid_distinct uu \<longleftrightarrow> inj (\<lambda>i. filter (\<lambda>c. c \<noteq> CHR ''-'') (uu i))"

lemma NewID_inj: "uuid_distinct uu \<Longrightarrow> NewID (uu i) p = NewID (uu j) p \<longleftrightarrow> i = j"
  by (auto simp: NewID_def uuid_distinct_def inj_def)

lemma NewID_nonempty [simp]: "NewID u p \<noteq> []"
  by (simp add: NewID_def)

section \<open>Base event\<close>

record base_event =
  ev_ID :: string
  ev_Type :: string
  ev_At :: time
  ev_Aggregate :: string
  ev_Version :: int

definition NewBaseEvent :: "string \<Rightarrow> string \<Rightarrow> string \<Rightarrow> time \<Rightarrow> base_event" where
  "NewBaseEvent uuid eventType aggregateID at' =
     \<lparr>ev_ID = NewID uuid ''evt'', ev_Type = eventType, ev_At = at',
      ev_Aggregate = aggregateID, ev_Version = 1\<rparr>"

section \<open>Products\<close>

datatype product = Debit | Credit

definition product_string :: "product \<Rightarrow> string" where
  "product_string p = (case p of Debit \<Rightarrow> ''DEBIT'' | Credit \<Rightarrow> ''CREDIT'')"

definition ParseProduct :: "string \<Rightarrow> product result" where
  "ParseProduct s =
     (if s = ''DEBIT'' then Inr Debit
      else if s = ''CREDIT'' then Inr Credit
      else Inl (Sentinel ErrInvalidProduct))"

lemma ParseProduct_string [simp]: "ParseProduct (product_string p) = Inr p"
  by (cases p) (simp_all add: ParseProduct_def product_string_def)

lemma ParseProduct_Inr: "ParseProduct s = Inr p \<Longrightarrow> s = product_string p"
  by (auto simp: ParseProduct_def product_string_def split: if_splits)

end
