(* ===== verification/Card.thy ===== *)
theory Card
  imports Shared
begin

text \<open>
  \<open>internal/domain/transaction/card.go\<close>: what the program keeps of a card, the Luhn
  check, the brand of a card number and its masked form. A slice or an index past the
  end of a string panics in Go; here it only follows a length check.
\<close>

record card_info =
  Token :: string
  Brand :: string
  BIN :: string
  Last4 :: string

text \<open>The loop runs over the digits from the last to the first; None is the early return.\<close>

fun luhn_loop :: "string \<Rightarrow> bool \<Rightarrow> int \<Rightarrow> int option" where
  "luhn_loop [] dbl acc = Some acc"
| "luhn_loop (c # cs) dbl acc =
     (if \<not> is_digit c then None
      else let d = int (byte c) - 48;
               d' = (if dbl then (if d * 2 > 9 then d * 2 - 9 else d * 2) else d)
           in luhn_loop cs (\<not> dbl) (acc + d'))"

definition Luhn :: "string \<Rightarrow> bool" where
  "Luhn pan =
     (if length pan < 13 \<or> length pan > 19 then False
      else case luhn_loop (rev pan) False 0 of None \<Rightarrow> False | Some s \<Rightarrow> s smod 10 = 0)"

definition brandOf :: "string \<Rightarrow> string" where
  "brandOf pan =
     (if has_prefix pan ''4'' then ''VISA''
      else if pan ! 0 = CHR ''5'' \<and> 49 \<le> byte (pan ! 1) \<and> byte (pan ! 1) \<le> 53 \<or> has_prefix pan ''2''
      then ''MASTERCARD''
      else if has_prefix pan ''6362'' \<or> has_prefix pan ''5067'' \<or> has_prefix pan ''4576'' then ''ELO''
      else if has_prefix pan ''34'' \<or> has_prefix pan ''37'' then ''AMEX''
      else ''UNKNOWN'')"

definition CardInfoFromPAN :: "string \<Rightarrow> string \<Rightarrow> card_info result" where
  "CardInfoFromPAN token pan =
     (if token = [] then Inl (Sentinel ErrInvalidToken)
      else if \<not> Luhn pan then Inl (Sentinel ErrInvalidPAN)
      else Inr \<lparr>Token = token, Brand = brandOf pan, BIN = take 6 pan,
                Last4 = drop (length pan - 4) pan\<rparr>)"

definition MaskPAN :: "string \<Rightarrow> string" where
  "MaskPAN pan =
     (if length pan < 10 then replicate (length pan) (CHR ''*'')
      else take 6 pan @ replicate (length pan - 10) (CHR ''*'') @ drop (length pan - 4) pan)"

section \<open>The Luhn check against the usual definition\<close>

definition luhn_weight :: "nat \<Rightarrow> nat \<Rightarrow> nat" where
  "luhn_weight i d = (if even i then d else if 9 < 2 * d then 2 * d - 9 else 2 * d)"

definition digit :: "char \<Rightarrow> nat" where
  "digit c = byte c - 48"

definition luhn_sum :: "string \<Rightarrow> nat" where
  "luhn_sum pan = (\<Sum>i < length pan. luhn_weight i (digit (rev pan ! i)))"

lemma luhn_weight_Suc_Suc: "luhn_weight (Suc (Suc i)) d = luhn_weight i d"
  by (simp add: luhn_weight_def)

lemma luhn_loop_Some:
  assumes "\<forall>c \<in> set cs. is_digit c"
  shows "luhn_loop cs dbl acc =
    Some (acc + int (\<Sum>i < length cs. luhn_weight (if dbl then Suc i else i) (digit (cs ! i))))"
  using assms
proof (induction cs arbitrary: dbl acc)
  case (Cons c cs)
  have d: "int (byte c) - 48 = int (digit c)"
    using Cons.prems by (simp add: digit_def is_digit_def)
  have head: "(if dbl then (if int (digit c) * 2 > 9 then int (digit c) * 2 - 9 else int (digit c) * 2)
      else int (digit c)) = int (luhn_weight (if dbl then 1 else 0) (digit c))"
    by (simp add: luhn_weight_def of_nat_diff)
  have digits: "\<forall>c \<in> set cs. is_digit c" using Cons.prems by simp
  show ?case
    using Cons.prems unfolding luhn_loop.simps d Let_def head Cons.IH [OF digits]
    by (cases dbl) (simp_all add: sum.lessThan_Suc_shift luhn_weight_Suc_Suc del: sum.lessThan_Suc)
qed simp

lemma luhn_loop_None: "\<exists>c \<in> set cs. \<not> is_digit c \<Longrightarrow> luhn_loop cs dbl acc = None"
  by (induction cs arbitrary: dbl acc) (auto simp: Let_def)

lemma luhn_iff:
  "Luhn pan \<longleftrightarrow> 13 \<le> length pan \<and> length pan \<le> 19 \<and> list_all is_digit pan
     \<and> 10 dvd luhn_sum pan"
proof (cases "\<forall>c \<in> set pan. is_digit c")
  case True
  then have eq: "luhn_loop (rev pan) False 0 = Some (int (luhn_sum pan))"
    by (simp add: luhn_loop_Some luhn_sum_def)
  have "int (luhn_sum pan) smod 10 = int (luhn_sum pan mod 10)"
    by (simp add: smod_nonneg of_nat_mod)
  then have "int (luhn_sum pan) smod 10 = 0 \<longleftrightarrow> 10 dvd luhn_sum pan"
    by (simp only: of_nat_eq_0_iff dvd_eq_mod_eq_0)
  then show ?thesis using True by (auto simp: Luhn_def eq list_all_iff)
next
  case False
  then show ?thesis using luhn_loop_None [of "rev pan" False 0] by (auto simp: Luhn_def list_all_iff)
qed

text \<open>C39: \<open>Luhn\<close> accepts exactly the strings of 13 to 19 digits whose Luhn sum (digits from
  the right, every second one doubled, nine subtracted above nine) is a multiple of ten.\<close>

theorem luhn_correct:
  "Luhn pan \<longleftrightarrow> 13 \<le> length pan \<and> length pan \<le> 19 \<and> list_all is_digit pan
     \<and> 10 dvd luhn_sum pan"
  by (rule luhn_iff)

text \<open>A single wrong digit is always detected: each position maps digits injectively mod 10.\<close>

lemma doubled_inj:
  fixes a b :: nat
  assumes "a < 10" "b < 10"
    and "(if 9 < 2 * a then 2 * a - 9 else 2 * a) mod 10 = (if 9 < 2 * b then 2 * b - 9 else 2 * b) mod 10"
  shows "a = b"
proof -
  have "\<forall>a \<in> set [0..<10]. \<forall>b \<in> set [0..<10].
      (if 9 < 2 * a then 2 * a - 9 else 2 * a) mod 10 = (if 9 < 2 * b then 2 * b - 9 else 2 * b) mod (10::nat)
      \<longrightarrow> a = b" by code_simp
  moreover have "a \<in> set [0..<10]" "b \<in> set [0..<10]" using assms by (simp_all only: set_upt atLeastLessThan_iff) simp_all
  ultimately show ?thesis using assms(3) by blast
qed

lemma luhn_weight_inj:
  assumes "a < 10" "b < 10" "luhn_weight i a mod 10 = luhn_weight i b mod 10"
  shows "a = b"
proof (cases "even i")
  case True
  then show ?thesis using assms by (simp add: luhn_weight_def)
next
  case False
  then show ?thesis using assms(3) by (intro doubled_inj [OF assms(1,2)]) (simp only: luhn_weight_def if_False)
qed

lemma digit_inj: "is_digit c \<Longrightarrow> is_digit d \<Longrightarrow> digit c = digit d \<Longrightarrow> c = d"
proof -
  assume "is_digit c" "is_digit d" "digit c = digit d"
  then have "byte c = byte d" by (auto simp: is_digit_def digit_def)
  then show "c = d" by (metis char_of_byte)
qed

lemma digit_less: "is_digit c \<Longrightarrow> digit c < 10"
  by (auto simp: is_digit_def digit_def)

lemma dvd10_cancel: "10 dvd a + r \<Longrightarrow> 10 dvd b + r \<Longrightarrow> a mod 10 = b mod (10 :: nat)"
proof -
  assume "10 dvd a + r" "10 dvd b + r"
  then have "10 dvd (int a + int r) - (int b + int r)"
    by (intro dvd_diff) (simp_all flip: of_nat_add add: int_dvd_int_iff [of 10, simplified])
  then have "int a mod 10 = int b mod 10" by (simp add: mod_eq_dvd_iff)
  then have "int (a mod 10) = int (b mod 10)" by (simp add: zmod_int)
  then show ?thesis by (simp only: of_nat_eq_iff)
qed

lemma sum_change_one:
  fixes f g :: "nat \<Rightarrow> nat"
  assumes "k < n" "\<And>i. i \<noteq> k \<Longrightarrow> f i = g i" "10 dvd (\<Sum>i < n. f i)" "10 dvd (\<Sum>i < n. g i)"
  shows "f k mod 10 = g k mod 10"
proof -
  have k: "k \<in> {..<n}" using assms(1) by simp
  define r where "r = (\<Sum>i \<in> {..<n} - {k}. f i)"
  have "(\<Sum>i \<in> {..<n} - {k}. g i) = r" unfolding r_def using assms(2) by (intro sum.cong) auto
  then have "(\<Sum>i < n. f i) = f k + r" "(\<Sum>i < n. g i) = g k + r"
    using sum.remove [OF finite_lessThan k, of f] sum.remove [OF finite_lessThan k, of g]
    unfolding r_def by simp_all
  then have "10 dvd f k + r" "10 dvd g k + r" using assms(3,4) by simp_all
  then show ?thesis by (rule dvd10_cancel)
qed

text \<open>A card number with one digit mistyped is never accepted: of two accepted numbers
  that differ in at most one position, both are the same.\<close>

theorem luhn_detects_single_error:
  assumes "Luhn pan" "Luhn (pan[k := c])" "k < length pan"
  shows "pan[k := c] = pan"
proof -
  define j where "j = length pan - 1 - k"
  have j: "j < length pan" "rev (pan[k := c]) = (rev pan)[j := c]" "rev pan ! j = pan ! k"
    using assms(3) by (simp_all add: j_def rev_update rev_nth)
  have dc: "is_digit c" and dk: "is_digit (pan ! k)"
    using assms by (auto simp: luhn_iff list_all_iff set_update_memI)
  have "luhn_weight j (digit (rev pan ! j)) mod 10 = luhn_weight j (digit ((rev pan)[j := c] ! j)) mod 10"
  proof (rule sum_change_one [OF j(1), where f = "\<lambda>i. luhn_weight i (digit (rev pan ! i))"
        and g = "\<lambda>i. luhn_weight i (digit ((rev pan)[j := c] ! i))"])
    show "10 dvd (\<Sum>i < length pan. luhn_weight i (digit (rev pan ! i)))"
      using assms(1) by (simp add: luhn_iff luhn_sum_def)
    show "10 dvd (\<Sum>i < length pan. luhn_weight i (digit ((rev pan)[j := c] ! i)))"
      using assms(2) by (simp add: luhn_iff luhn_sum_def j(2))
  qed simp
  then have "digit (pan ! k) = digit c"
    using luhn_weight_inj [OF digit_less [OF dk] digit_less [OF dc], of j] j
    by (simp only: nth_list_update_eq length_rev)
  then have "pan ! k = c" by (rule digit_inj [OF dk dc])
  then show ?thesis by (metis list_update_id)
qed

theorem luhn_detects_single_error_witness:
  "Luhn ''4539578763621486'' \<and> \<not> Luhn (''4539578763621486''[2 := CHR ''4''])"
proof -
  have ok: "Luhn ''4539578763621486''" by code_simp
  show ?thesis using luhn_detects_single_error [OF ok, of 2 "CHR ''4''"] ok by auto
qed

section \<open>Masking\<close>

lemma Luhn_length: "Luhn pan \<Longrightarrow> 13 \<le> length pan \<and> length pan \<le> 19"
  by (simp add: luhn_iff)

text \<open>What the program keeps and prints of an accepted card number: the token, six
  leading and four trailing digits; the masked form has the number's length and stars in
  all the positions between, three at least. A rejected number or an empty token gives
  the corresponding error.\<close>

theorem card_info_correct:
  "(CardInfoFromPAN token pan = Inr ci \<longleftrightarrow> token \<noteq> [] \<and> Luhn pan
      \<and> ci = \<lparr>Token = token, Brand = brandOf pan, BIN = take 6 pan, Last4 = drop (length pan - 4) pan\<rparr>)
   \<and> (CardInfoFromPAN token pan = Inr ci \<longrightarrow>
        length (BIN ci) = 6 \<and> length (Last4 ci) = 4 \<and> length (MaskPAN pan) = length pan
        \<and> MaskPAN pan = BIN ci @ replicate (length pan - 10) (CHR ''*'') @ Last4 ci
        \<and> 3 \<le> length pan - 10)"
  by (auto simp: CardInfoFromPAN_def MaskPAN_def dest!: Luhn_length)

theorem card_info_correct_witness:
  "CardInfoFromPAN ''tok_1'' ''4539578763621486'' =
     Inr \<lparr>Token = ''tok_1'', Brand = ''VISA'', BIN = ''453957'', Last4 = ''1486''\<rparr>
   \<and> MaskPAN ''4539578763621486'' = ''453957******1486''"
proof -
  define ci where "ci = \<lparr>Token = ''tok_1'', Brand = ''VISA'', BIN = ''453957'', Last4 = ''1486''\<rparr>"
  have "Luhn ''4539578763621486''" "brandOf ''4539578763621486'' = ''VISA''" by code_simp+
  then have "CardInfoFromPAN ''tok_1'' ''4539578763621486'' = Inr ci"
    by (simp add: CardInfoFromPAN_def ci_def)
  then show ?thesis
    using card_info_correct [of "''tok_1''" "''4539578763621486''" ci]
    by (simp add: ci_def numeral_eq_Suc)
qed

text \<open>The ELO prefix 4576 never applies: every number with it is a VISA number first.\<close>

lemma elo_4576_unreachable: "has_prefix pan ''4576'' \<Longrightarrow> brandOf pan = ''VISA''"
  by (auto simp: brandOf_def has_prefix_append)

end
