(* ===== verification/Money.thy ===== *)
theory Money
  imports Shared
begin

text \<open>
  \<open>internal/domain/shared/money.go\<close>: amounts in centavos as 64-bit integers, the fee of
  a rate in basis points, the split of an amount into installments and its printed form.
  The laws of \<open>Split\<close> and \<open>Sum\<close> hold for every 64-bit value, wrap-around included;
  the bounds are stated on the signed reading under the range hypotheses they need.
\<close>

type_synonym money = int64

definition IsPositive :: "money \<Rightarrow> bool" where
  "IsPositive m \<longleftrightarrow> 0 <s m"

definition IsZero :: "money \<Rightarrow> bool" where
  "IsZero m \<longleftrightarrow> m = 0"

text \<open>
  \<open>%d\<close> of a possibly negative number, and \<open>%02d\<close> of a possibly negative number: Go
  counts the sign in the width.
\<close>

definition fmt_d :: "int \<Rightarrow> string" where
  "fmt_d x = (if x < 0 then ''-'' @ dec (nat (- x)) else dec (nat x))"

definition fmt_02d :: "int \<Rightarrow> string" where
  "fmt_02d x = (if x < 0 then ''-'' @ dec_pad 1 (nat (- x)) else dec_pad 2 (nat x))"

definition money_String :: "money \<Rightarrow> string" where
  "money_String m =
     (let sign = (if m <s 0 then ''-'' else '''');
          v = (if m <s 0 then - m else m)
      in sign @ ''R$ '' @ fmt_d (sint (div64 v 100)) @ '','' @ fmt_02d (sint (mod64 v 100)))"

definition ApplyBps :: "money \<Rightarrow> int \<Rightarrow> money" where
  "ApplyBps gross rate = div64 (gross * word_of_int rate) 10000"

definition Split :: "money \<Rightarrow> int \<Rightarrow> money list" where
  "Split amt n =
     (if n \<le> 0 then []
      else let base = div64 amt (word_of_int n);
               rest = amt - base * word_of_int n;
               parts = replicate (nat n) base
           in parts[0 := parts ! 0 + rest])"

definition Sum :: "money list \<Rightarrow> money" where
  "Sum values = foldl (\<lambda>t v. t + v) 0 values"

section \<open>Sums\<close>

lemma foldl_plus_sum_list: "foldl (\<lambda>t v. t + v) a xs = a + sum_list (xs :: int64 list)"
  by (induction xs arbitrary: a) (simp_all add: add.assoc)

lemma Sum_eq_sum_list: "Sum xs = sum_list xs"
  by (simp add: Sum_def foldl_plus_sum_list)

lemma sum_list_sint:
  fixes f :: "'a \<Rightarrow> int64"
  assumes "\<And>x. x \<in> set xs \<Longrightarrow> 0 \<le> sint (f x)" and "(\<Sum>x\<leftarrow>xs. sint (f x)) < 2 ^ 63"
  shows "sint (\<Sum>x\<leftarrow>xs. f x) = (\<Sum>x\<leftarrow>xs. sint (f x))"
  using assms
proof (induction xs)
  case (Cons x xs)
  have nn: "0 \<le> (\<Sum>x\<leftarrow>xs. sint (f x))" using Cons.prems(1) by (intro sum_list_nonneg) auto
  moreover have "0 \<le> sint (f x)" using Cons.prems(1) by simp
  ultimately have "(\<Sum>x\<leftarrow>xs. sint (f x)) < 2 ^ 63" using Cons.prems(2) by simp
  with Cons have IH: "sint (\<Sum>x\<leftarrow>xs. f x) = (\<Sum>x\<leftarrow>xs. sint (f x))" by simp
  have "0 \<le> sint (f x)" using Cons.prems(1) by simp
  then have "in_range64 (sint (f x) + sint (\<Sum>x\<leftarrow>xs. f x))"
    using Cons.prems(2) nn by (simp add: IH in_range64_def)
  then show ?case by (simp add: sint_add64 IH)
qed simp

section \<open>Split\<close>

lemma length_Split: "length (Split amt n) = nat n"
  by (simp add: Split_def Let_def)

lemma Split_eq:
  assumes "0 < n"
  shows "Split amt n =
    (div64 amt (word_of_int n) + (amt - div64 amt (word_of_int n) * word_of_int n))
      # replicate (nat n - 1) (div64 amt (word_of_int n))"
proof -
  obtain k where k: "nat n = Suc k" using assms by (metis gr0_implies_Suc zero_less_nat_eq)
  show ?thesis using assms by (simp add: Split_def Let_def k)
qed

lemma Sum_Split: "0 < n \<Longrightarrow> Sum (Split amt n) = amt"
proof -
  assume n: "0 < n"
  define b where "b = div64 amt (word_of_int n)"
  have "of_nat (nat n - 1) = (word_of_int n :: int64) - 1"
    using n by (simp add: of_nat_diff)
  then have "sum_list (replicate (nat n - 1) b) = (word_of_int n - 1) * b"
    by (simp add: sum_list_replicate)
  then show ?thesis
    unfolding Sum_eq_sum_list Split_eq [OF n] b_def [symmetric]
    by (simp add: algebra_simps)
qed

lemma Split_parts_nonneg:
  assumes n: "0 < n" "n < 2 ^ 63" and amt: "0 \<le> sint amt"
  shows "0 < k \<Longrightarrow> k < nat n \<Longrightarrow> sint (Split amt n ! k) = sint amt div n"
    and "sint (Split amt n ! 0) = sint amt div n + sint amt mod n"
proof -
  have sn: "sint (word_of_int n :: int64) = n"
    using n by (intro sint_word_of_int64) (simp add: in_range64_def)
  have b: "sint (div64 amt (word_of_int n)) = sint amt div n"
    using sint_div64 [of amt "word_of_int n"] amt n by (simp add: sn)
  show "0 < k \<Longrightarrow> k < nat n \<Longrightarrow> sint (Split amt n ! k) = sint amt div n"
    using n by (simp add: Split_eq nth_Cons' b)
  have r: "0 \<le> sint amt" "sint amt < 2 ^ 63"
    using amt sint_in_range64 [of amt] by (simp_all add: in_range64_def)
  have dm: "sint amt div n * n + sint amt mod n = sint amt" by simp
  have pos: "0 \<le> sint amt div n" "0 \<le> sint amt mod n" "sint amt mod n \<le> sint amt"
    using n amt by (simp_all add: pos_imp_zdiv_nonneg_iff zmod_le_nonneg_dividend)
  have le: "sint amt div n * 1 \<le> sint amt div n * n"
    using n pos by (intro mult_left_mono) simp_all
  have mm: "sint amt div n * n = sint amt - sint amt mod n"
    by (simp add: minus_mod_eq_div_mult)
  have lt: "sint amt div n * n < 2 ^ 63" "0 \<le> sint amt div n * n" using mm pos r by linarith+
  have m: "sint (div64 amt (word_of_int n) * word_of_int n) = sint amt div n * n"
    using lt by (subst sint_mult64) (simp_all add: b sn in_range64_def)
  have s: "sint (amt - div64 amt (word_of_int n) * word_of_int n) = sint amt mod n"
    using dm pos r by (subst sint_sub64) (simp_all add: m in_range64_def minus_div_mult_eq_mod)
  show "sint (Split amt n ! 0) = sint amt div n + sint amt mod n"
    using n mm pos r le lt
    by (simp add: Split_eq, subst sint_add64) (simp_all add: b s in_range64_def)
qed

section \<open>Printed amounts\<close>

text \<open>
  Reading a printed amount back: the sign in front and the digits. The most negative
  amount is the one \<open>String\<close> cannot print, because its negation overflows.
\<close>

definition read_money :: "string \<Rightarrow> int" where
  "read_money s =
     (if has_prefix s ''-'' then - int (undec (filter is_digit s))
      else int (undec (filter is_digit s)))"

lemma sint_neg64: "sint m \<noteq> - (2 ^ 63) \<Longrightarrow> sint (- m :: int64) = - sint m"
proof -
  assume "sint m \<noteq> - (2 ^ 63)"
  then have "in_range64 (sint (0 :: int64) - sint m)"
    using sint_in_range64 [of m] by (auto simp: in_range64_def)
  then show ?thesis using sint_sub64 [of 0 m] by simp
qed

lemma money_String_eq:
  assumes "sint m \<noteq> - (2 ^ 63)"
  shows "money_String m = (if sint m < 0 then ''-'' else '''') @ ''R$ '' @
    dec (nat \<bar>sint m\<bar> div 100) @ '','' @ dec_pad 2 (nat \<bar>sint m\<bar> mod 100)"
proof -
  define v where "v = (if m <s 0 then - m else m)"
  have v: "sint v = \<bar>sint m\<bar>" using sint_neg64 [OF assms] by (auto simp: v_def sless64)
  have q: "sint (div64 v 100) = \<bar>sint m\<bar> div 100" "sint (mod64 v 100) = \<bar>sint m\<bar> mod 100"
    using sint_div64 [of v 100] sint_mod64 [of v 100] by (simp_all add: v)
  have "fmt_d (\<bar>sint m\<bar> div 100) = dec (nat \<bar>sint m\<bar> div 100)"
    "fmt_02d (\<bar>sint m\<bar> mod 100) = dec_pad 2 (nat \<bar>sint m\<bar> mod 100)"
    by (simp_all add: fmt_d_def fmt_02d_def nat_div_distrib nat_mod_distrib
        pos_imp_zdiv_nonneg_iff flip: not_le)
  then show ?thesis
    unfolding money_String_def Let_def v_def [symmetric] q by (simp add: sless64)
qed

text \<open>An amount printed by \<open>String\<close> reads back as the same number of centavos, for
  every 64-bit amount but the most negative one.\<close>

theorem money_string_roundtrip:
  assumes "sint m \<noteq> - (2 ^ 63)"
  shows "read_money (money_String m) = sint m"
proof -
  define n where "n = nat \<bar>sint m\<bar>"
  have digits: "filter is_digit (money_String m) = dec (n div 100) @ dec_pad 2 (n mod 100)"
    by (simp add: money_String_eq [OF assms] n_def is_digit_def byte_def)
  have len: "length (dec_pad 2 (n mod 100)) = 2" by (rule length_dec_pad) simp_all
  have "undec (filter is_digit (money_String m)) = n"
    unfolding digits by (simp add: undec_append len)
  moreover have "has_prefix (money_String m) ''-'' \<longleftrightarrow> sint m < 0"
    by (simp add: money_String_eq [OF assms] has_prefix_def)
  ultimately show ?thesis by (auto simp: read_money_def n_def)
qed

theorem money_string_roundtrip_witness:
  "money_String (- 1050) = ''-R$ 10,50'' \<and> read_money ''-R$ 10,50'' = - 1050"
proof -
  have s: "sint (- 1050 :: int64) = - 1050" by simp
  have "money_String (- 1050) = ''-R$ 10,50''"
    by (subst money_String_eq) (simp_all add: s, code_simp)
  then show ?thesis using money_string_roundtrip [of "- 1050"] by (simp add: s)
qed

lemma money_string_min:
  "money_String (word_of_int (- (2 ^ 63))) = ''-R$ -92233720368547758,-8''"
proof -
  define m :: int64 where "m = word_of_int (- (2 ^ 63))"
  have sm: "sint m = - (2 ^ 63)" by (simp add: m_def sint_word_of_int64 in_range64_def)
  have neg: "- m = m" by (simp add: m_def)
  have q: "sint (div64 m 100) = - 92233720368547758" "sint (mod64 m 100) = - 8"
    by (simp_all add: div64_def mod64_def sm sint_word_of_int64 in_range64_def)
  show ?thesis
    unfolding m_def [symmetric]
    by (simp add: money_String_def sless64 sm neg q fmt_d_def fmt_02d_def dec_pad_def
        dec.simps digit_char_def char_of_def bit_Suc_0_iff)
qed

section \<open>Fees\<close>

lemma sint_ApplyBps:
  assumes "0 \<le> sint gross" "0 \<le> rate" "sint gross * rate < 2 ^ 63" "rate < 2 ^ 63"
  shows "sint (ApplyBps gross rate) = sint gross * rate div 10000"
proof -
  have r: "sint (word_of_int rate :: int64) = rate"
    using assms by (intro sint_word_of_int64) (simp add: in_range64_def)
  have "sint (gross * word_of_int rate) = sint gross * rate"
  proof (subst sint_mult64)
    have "0 \<le> sint gross * rate" using assms by simp
    then show "in_range64 (sint gross * sint (word_of_int rate :: int64))"
      using assms(3) unfolding r in_range64_def by linarith
  qed (simp add: r)
  then show ?thesis
    using assms sint_div64 [of "gross * word_of_int rate" 10000]
    by (simp add: ApplyBps_def)
qed

lemma ApplyBps_bounds:
  assumes "0 \<le> sint gross" "0 \<le> rate" "rate \<le> 10000" "sint gross < 2 ^ 63 div 10000"
  shows "sint (ApplyBps gross rate) = sint gross * rate div 10000
    \<and> 0 \<le> sint (ApplyBps gross rate) \<and> sint (ApplyBps gross rate) \<le> sint gross"
proof -
  have le: "sint gross * rate \<le> sint gross * 10000" using assms by (intro mult_left_mono) simp_all
  then have lt: "sint gross * rate < 2 ^ 63" using assms(4) by simp
  have "sint gross * rate div 10000 \<le> sint gross * 10000 div 10000"
    using le by (rule zdiv_mono1) simp
  then show ?thesis
    using assms lt by (simp add: sint_ApplyBps pos_imp_zdiv_nonneg_iff)
qed

text \<open>Below the overflow bound, the fee of a rate between 0 and 100\% is the exact
  floor of the product, is never negative, and never exceeds the amount.\<close>

theorem apply_bps_bounds:
  assumes "0 \<le> sint gross" "0 \<le> rate" "rate \<le> 10000" "sint gross < 2 ^ 63 div 10000"
  shows "sint (ApplyBps gross rate) = sint gross * rate div 10000
    \<and> 0 \<le> sint (ApplyBps gross rate) \<and> sint (ApplyBps gross rate) \<le> sint gross"
  by (rule ApplyBps_bounds [OF assms])

theorem apply_bps_bounds_witness: "sint (ApplyBps 1001 250) = 25"
  using apply_bps_bounds [of 1001 250] by simp

text \<open>\<open>Split\<close> loses nothing: for every 64-bit amount and every positive number of
  parts, there are that many parts and they sum to the amount, also where the arithmetic
  wraps; for a non-negative amount every part after the first is the quotient and the
  first carries the whole remainder.\<close>

theorem split_conserves:
  assumes "0 < n" "n < 2 ^ 63"
  shows "length (Split amt n) = nat n \<and> Sum (Split amt n) = amt
    \<and> (0 \<le> sint amt \<longrightarrow> sint (Split amt n ! 0) = sint amt div n + sint amt mod n
         \<and> (\<forall>k. 0 < k \<and> k < nat n \<longrightarrow> sint (Split amt n ! k) = sint amt div n))"
  using assms Split_parts_nonneg [of n amt] by (simp add: length_Split Sum_Split)

theorem split_conserves_witness:
  "sint (Split 1000 3 ! 0) = 334 \<and> sint (Split 1000 3 ! 2) = 333 \<and> Sum (Split 1000 3) = 1000"
  using split_conserves [of 3 1000] by simp

section \<open>When every installment covers its fee\<close>

lemma split_net_nonneg:
  assumes amt: "0 \<le> sint amt" "sint amt < 2 ^ 63 div 10000"
    and n: "0 < n" "n < 2 ^ 63" and rate: "0 \<le> rate" "rate * n \<le> 10000" and k: "k < nat n"
  shows "0 \<le> sint (Split (ApplyBps amt rate) n ! k)"
    and "sint (Split (ApplyBps amt rate) n ! k) \<le> sint (Split amt n ! k)"
proof -
  have rate1: "rate \<le> 10000" using rate n mult_left_mono [of 1 n rate] by simp
  define fee where "fee = sint amt * rate div 10000"
  have fee: "sint (ApplyBps amt rate) = fee" "0 \<le> fee"
    using ApplyBps_bounds [OF amt(1) rate(1) rate1 amt(2)] by (simp_all add: fee_def)
  have "fee * n \<le> sint amt"
  proof -
    have "fee * 10000 \<le> sint amt * rate" unfolding fee_def
      using pos_mod_sign [of 10000 "sint amt * rate"] div_mult_mod_eq [of "sint amt * rate" 10000]
      by linarith
    then have "fee * 10000 * n \<le> sint amt * rate * n" using n by (intro mult_right_mono) simp_all
    also have "\<dots> \<le> sint amt * 10000" using rate amt by (simp add: mult.assoc mult_left_mono)
    finally show ?thesis by simp
  qed
  then have "fee * n div n \<le> sint amt div n" using n by (intro zdiv_mono1) simp_all
  then have le: "fee \<le> sint amt div n" using n by simp
  have parts: "sint (Split amt n ! k) \<ge> sint amt div n"
    using Split_parts_nonneg [OF n amt(1)] k n by (cases "k = 0") simp_all
  have f: "0 \<le> sint (ApplyBps amt rate)" using fee by simp
  have "fee div n + fee mod n \<le> fee"
  proof -
    have "0 \<le> fee div n" using fee n by (simp add: pos_imp_zdiv_nonneg_iff)
    then have "fee div n * 1 \<le> fee div n * n" using n by (intro mult_left_mono) simp_all
    then show ?thesis using div_mult_mod_eq [of fee n] by linarith
  qed
  moreover have dm: "0 \<le> fee div n" "0 \<le> fee mod n"
    using fee n by (simp_all add: pos_imp_zdiv_nonneg_iff)
  moreover have part: "sint (Split (ApplyBps amt rate) n ! k) =
      (if k = 0 then fee div n + fee mod n else fee div n)"
    using Split_parts_nonneg [OF n f] k by (simp add: fee(1))
  ultimately have "sint (Split (ApplyBps amt rate) n ! k) \<le> fee"
    and nn: "0 \<le> sint (Split (ApplyBps amt rate) n ! k)"
    by (cases "k = 0"; simp)+
  with le parts show "sint (Split (ApplyBps amt rate) n ! k) \<le> sint (Split amt n ! k)"
    by linarith
  show "0 \<le> sint (Split (ApplyBps amt rate) n ! k)" by (rule nn)
qed

end
