(* ===== verification/Merchant.thy ===== *)
theory Merchant
  imports Money "HOL-Library.Finite_Map"
begin

text \<open>
  \<open>internal/domain/merchant\<close>: the CNPJ document with its check digits, the bank
  account, the fee plan and the merchant aggregate. Package \<open>strings\<close> is modelled on
  bytes. \<open>go_to_upper\<close> and \<open>go_to_lower\<close> map ASCII letters and the non-ASCII letters
  whose upper or lower case is an ASCII letter; every other non-ASCII letter keeps a
  non-ASCII image in Go, which no check of the program distinguishes.
  \<open>url.Parse\<close> is an argument of \<open>SetWebhook\<close>: a function that gives the scheme, the
  host and the host name without port of a URL it accepts.
\<close>

section \<open>Package strings\<close>

fun go_to_upper :: "string \<Rightarrow> string" where
  "go_to_upper [] = []"
| "go_to_upper [a] = [upper_char a]"
| "go_to_upper (a # b # s) =
     (if a = CHR 0xC4 \<and> b = CHR 0xB1 then CHR ''I'' # go_to_upper s
      else if a = CHR 0xC5 \<and> b = CHR 0xBF then CHR ''S'' # go_to_upper s
      else upper_char a # go_to_upper (b # s))"

fun go_to_lower :: "string \<Rightarrow> string" where
  "go_to_lower (a # b # c # s) =
     (if a = CHR 0xC4 \<and> b = CHR 0xB0 then CHR ''i'' # go_to_lower (c # s)
      else if a = CHR 0xE2 \<and> b = CHR 0x84 \<and> c = CHR 0xAA then CHR ''k'' # go_to_lower s
      else lower_char a # go_to_lower (b # c # s))"
| "go_to_lower [a, b] =
     (if a = CHR 0xC4 \<and> b = CHR 0xB0 then ''i'' else [lower_char a, lower_char b])"
| "go_to_lower s = map lower_char s"

text \<open>The UTF-8 encodings of the code points of \<open>unicode.IsSpace\<close>.\<close>

definition space_runes :: "string list" where
  "space_runes =
     [[CHR 0x09], [CHR 0x0A], [CHR 0x0B], [CHR 0x0C], [CHR 0x0D], [CHR 0x20],
      [CHR 0xC2, CHR 0x85], [CHR 0xC2, CHR 0xA0], [CHR 0xE1, CHR 0x9A, CHR 0x80]]
     @ map (\<lambda>b. [CHR 0xE2, CHR 0x80, char_of (b :: nat)])
         [0x80, 0x81, 0x82, 0x83, 0x84, 0x85, 0x86, 0x87, 0x88, 0x89, 0x8A, 0xA8, 0xA9, 0xAF]
     @ [[CHR 0xE2, CHR 0x81, CHR 0x9F], [CHR 0xE3, CHR 0x80, CHR 0x80]]"

lemma space_runes_nonempty: "[] \<notin> set space_runes"
  by (simp add: space_runes_def)

lemma find_SomeD: "find P xs = Some x \<Longrightarrow> x \<in> set xs \<and> P x"
  by (auto simp: find_Some_iff in_set_conv_nth)

function trim_left :: "string \<Rightarrow> string" where
  "trim_left s =
     (case find (\<lambda>r. has_prefix s r) space_runes of
        None \<Rightarrow> s
      | Some r \<Rightarrow> trim_left (drop (length r) s))"
  by pat_completeness auto
termination
proof (relation "measure length", simp)
  fix s r
  assume "find (has_prefix s) space_runes = Some r"
  then have "r \<noteq> []" "has_prefix s r"
    using space_runes_nonempty by (auto dest!: find_SomeD)
  then have "0 < length r" "length r \<le> length s"
    by (auto simp: has_prefix_append)
  then have "length s - length r < length s" by linarith
  then show "(drop (length r) s, s) \<in> measure length" using \<open>length r \<le> length s\<close> by simp
qed

function trim_right :: "string \<Rightarrow> string" where
  "trim_right s =
     (case find (\<lambda>r. has_suffix s r) space_runes of
        None \<Rightarrow> s
      | Some r \<Rightarrow> trim_right (take (length s - length r) s))"
  by pat_completeness auto
termination
proof (relation "measure length", simp)
  fix s r
  assume "find (has_suffix s) space_runes = Some r"
  then have "r \<noteq> []" "has_suffix s r"
    using space_runes_nonempty by (auto dest!: find_SomeD)
  then have "0 < length r" "length r \<le> length s"
    by (auto simp: has_suffix_def)
  then have "length s - length r < length s" by linarith
  then show "(take (length s - length r) s, s) \<in> measure length" using \<open>length r \<le> length s\<close> by simp
qed

declare trim_left.simps [simp del] trim_right.simps [simp del]

definition TrimSpace :: "string \<Rightarrow> string" where
  "TrimSpace s = trim_right (trim_left s)"

section \<open>Document\<close>

type_synonym document = string

text \<open>\<open>int(c - '0')\<close> on a byte: the subtraction wraps at 8 bits.\<close>

definition digit_value :: "char \<Rightarrow> int" where
  "digit_value c = int ((byte c + 208) mod 256)"

fun check_digit_loop :: "string \<Rightarrow> int \<Rightarrow> int \<Rightarrow> int" where
  "check_digit_loop [] weight acc = acc"
| "check_digit_loop (c # cs) weight acc =
     check_digit_loop cs (if weight + 1 > 9 then 2 else weight + 1)
       (acc + digit_value c * weight)"

definition checkDigit :: "string \<Rightarrow> int" where
  "checkDigit base =
     (let rest = check_digit_loop (rev base) 2 0 smod 11
      in if rest < 2 then 0 else 11 - rest)"

text \<open>The character loop: from index 12 on only digits, before it digits and capitals.\<close>

fun document_chars :: "nat \<Rightarrow> string \<Rightarrow> bool" where
  "document_chars i [] = True"
| "document_chars i (ch # cs) =
     (if 12 \<le> i \<and> \<not> is_digit ch then False
      else if \<not> is_digit ch \<and> \<not> is_upper ch then False
      else document_chars (Suc i) cs)"

definition clean_document :: "string \<Rightarrow> string" where
  "clean_document raw = go_to_upper (filter (\<lambda>c. c \<notin> {CHR ''.'', CHR ''/'', CHR ''-'', CHR '' ''}) raw)"

definition NewDocument :: "string \<Rightarrow> document result" where
  "NewDocument raw =
     (let clean = clean_document raw
      in if length clean \<noteq> 14 then Inl (Sentinel ErrInvalidDocument)
         else if \<not> document_chars 0 clean then Inl (Sentinel ErrInvalidDocument)
         else if count_list clean (clean ! 0) = 14 then Inl (Sentinel ErrInvalidDocument)
         else if checkDigit (take 12 clean) \<noteq> digit_value (clean ! 12)
               \<or> checkDigit (take 13 clean) \<noteq> digit_value (clean ! 13)
         then Inl (Sentinel ErrInvalidDocument)
         else Inr clean)"

definition Masked :: "document \<Rightarrow> string" where
  "Masked d =
     (if length d \<noteq> 14 then ''**************''
      else ''**.***.***/'' @ take 4 (drop 8 d) @ ''-'' @ drop 12 d)"

section \<open>Bank account\<close>

record bank_account =
  BankCode :: string
  Branch :: string
  Number :: string
  Kind :: string

definition NewBankAccount :: "string \<Rightarrow> string \<Rightarrow> string \<Rightarrow> string \<Rightarrow> bank_account result" where
  "NewBankAccount bankCode branch number kind =
     (if length bankCode \<noteq> 3 \<or> branch = [] \<or> number = [] then Inl (Sentinel ErrInvalidBankAccount)
      else if kind = ''CHECKING'' \<or> kind = ''SAVINGS'' \<or> kind = ''PAYMENT''
      then Inr \<lparr>BankCode = bankCode, Branch = branch, Number = number, Kind = kind\<rparr>
      else Inl (Sentinel ErrInvalidBankAccount))"

definition bank_IsZero :: "bank_account \<Rightarrow> bool" where
  "bank_IsZero b \<longleftrightarrow> BankCode b = []"

section \<open>Fee plan\<close>

text \<open>Rates are in basis points; the installment rates are a finite map from 2..12.\<close>

record fee_plan =
  fp_debit :: int
  fp_creditOneShot :: int
  fp_creditInstallments :: "(int, int) fmap"
  fp_anticipationRateMonth :: int

definition NewFeePlan :: "int \<Rightarrow> int \<Rightarrow> (int, int) fmap \<Rightarrow> int \<Rightarrow> fee_plan result" where
  "NewFeePlan debit creditOneShot creditInstallments anticipationRateMonth =
     (if debit < 0 \<or> creditOneShot < 0 \<or> anticipationRateMonth < 0 \<or> debit > 10000 \<or> creditOneShot > 10000
      then Inl (Sentinel ErrInvalidFeePlan)
      else if \<not> fmpred (\<lambda>n bps. \<not> (n < 2 \<or> n > 12 \<or> bps < 0 \<or> bps > 10000)) creditInstallments
      then Inl (Sentinel ErrInvalidFeePlan)
      else Inr \<lparr>fp_debit = debit, fp_creditOneShot = creditOneShot,
                fp_creditInstallments = creditInstallments,
                fp_anticipationRateMonth = anticipationRateMonth\<rparr>)"

definition MDR :: "fee_plan \<Rightarrow> product \<Rightarrow> int \<Rightarrow> int result" where
  "MDR p product installments =
     (if product = Debit \<and> installments = 1 then Inr (fp_debit p)
      else if product = Credit \<and> installments = 1 then Inr (fp_creditOneShot p)
      else if product = Credit \<and> installments > 1
      then (case fmlookup (fp_creditInstallments p) installments of
              None \<Rightarrow> Inl (Sentinel ErrInstallmentsNotAllowed)
            | Some bps \<Rightarrow> Inr bps)
      else Inl (Sentinel ErrInstallmentsNotAllowed))"

definition wf_plan :: "fee_plan \<Rightarrow> bool" where
  "wf_plan p \<longleftrightarrow> 0 \<le> fp_debit p \<and> fp_debit p \<le> 10000
     \<and> 0 \<le> fp_creditOneShot p \<and> fp_creditOneShot p \<le> 10000
     \<and> 0 \<le> fp_anticipationRateMonth p
     \<and> fmpred (\<lambda>n bps. 2 \<le> n \<and> n \<le> 12 \<and> 0 \<le> bps \<and> bps \<le> 10000) (fp_creditInstallments p)"

section \<open>Merchant\<close>

datatype merchant_status = UnderReview | Active | Blocked

definition merchant_status_string :: "merchant_status \<Rightarrow> string" where
  "merchant_status_string s =
     (case s of UnderReview \<Rightarrow> ''UNDER_REVIEW'' | Active \<Rightarrow> ''ACTIVE'' | Blocked \<Rightarrow> ''BLOCKED'')"

record merchant =
  m_id :: string
  m_document :: document
  m_legalName :: string
  m_mcc :: string
  m_status :: merchant_status
  m_bankAccount :: bank_account
  m_feePlan :: fee_plan
  m_webhookURL :: string
  m_autoAnticipation :: bool
  m_version :: int
  m_createdAt :: time
  m_updatedAt :: time

definition merchant_New ::
  "string \<Rightarrow> document \<Rightarrow> string \<Rightarrow> string \<Rightarrow> bank_account \<Rightarrow> fee_plan \<Rightarrow> time \<Rightarrow> merchant result" where
  "merchant_New uuid document legalName0 mcc bank plan now =
     (let legalName = TrimSpace legalName0
      in if legalName = [] then Inl (Sentinel ErrInvalidLegalName)
         else if length mcc \<noteq> 4 then Inl (Sentinel ErrInvalidMCC)
         else if bank_IsZero bank then Inl (Sentinel ErrInvalidBankAccount)
         else Inr \<lparr>m_id = NewID uuid ''m'', m_document = document, m_legalName = legalName,
                   m_mcc = mcc, m_status = UnderReview, m_bankAccount = bank, m_feePlan = plan,
                   m_webhookURL = '''', m_autoAnticipation = False, m_version = 1,
                   m_createdAt = now, m_updatedAt = now\<rparr>)"

definition merchant_Restore ::
  "string \<Rightarrow> document \<Rightarrow> string \<Rightarrow> string \<Rightarrow> merchant_status \<Rightarrow> bank_account \<Rightarrow> fee_plan \<Rightarrow> string
   \<Rightarrow> bool \<Rightarrow> int \<Rightarrow> time \<Rightarrow> time \<Rightarrow> merchant" where
  "merchant_Restore i document legalName mcc status bank plan webhookURL autoAnticipation version
     createdAt updatedAt =
     \<lparr>m_id = i, m_document = document, m_legalName = legalName, m_mcc = mcc, m_status = status,
      m_bankAccount = bank, m_feePlan = plan, m_webhookURL = webhookURL,
      m_autoAnticipation = autoAnticipation, m_version = version, m_createdAt = createdAt,
      m_updatedAt = updatedAt\<rparr>"

definition touch :: "time \<Rightarrow> merchant \<Rightarrow> merchant" where
  "touch now m = m\<lparr>m_updatedAt := now, m_version := m_version m + 1\<rparr>"

definition merchant_Approve :: "time \<Rightarrow> merchant \<Rightarrow> merchant result" where
  "merchant_Approve now m =
     (if m_status m \<noteq> UnderReview
      then Inl (Errorf [merchant_status_string (m_status m), merchant_status_string Active]
             (Sentinel ErrInvalidTransition))
      else Inr (touch now (m\<lparr>m_status := Active\<rparr>)))"

definition merchant_Block :: "time \<Rightarrow> merchant \<Rightarrow> merchant result" where
  "merchant_Block now m =
     (if m_status m \<noteq> Active
      then Inl (Errorf [merchant_status_string (m_status m), merchant_status_string Blocked]
             (Sentinel ErrInvalidTransition))
      else Inr (touch now (m\<lparr>m_status := Blocked\<rparr>)))"

definition merchant_SetFeePlan :: "fee_plan \<Rightarrow> time \<Rightarrow> merchant \<Rightarrow> merchant" where
  "merchant_SetFeePlan plan now m = touch now (m\<lparr>m_feePlan := plan\<rparr>)"

definition private_host :: "string \<Rightarrow> bool" where
  "private_host host \<longleftrightarrow>
     host = ''localhost'' \<or> has_suffix host ''.local'' \<or> has_suffix host ''.internal''
     \<or> has_prefix host ''10.'' \<or> has_prefix host ''192.168.'' \<or> has_prefix host ''127.''
     \<or> has_prefix host ''169.254.'' \<or> has_prefix host ''172.''"

definition merchant_SetWebhook ::
  "(string \<Rightarrow> (string \<times> string \<times> string) option) \<Rightarrow> string \<Rightarrow> time \<Rightarrow> merchant \<Rightarrow> merchant result" where
  "merchant_SetWebhook url_Parse raw now m =
     (case url_Parse raw of
        None \<Rightarrow> Inl (Sentinel ErrInvalidWebhook)
      | Some (scheme, host, hostname) \<Rightarrow>
          if scheme \<noteq> ''https'' \<or> host = [] then Inl (Sentinel ErrInvalidWebhook)
          else if private_host (go_to_lower hostname) then Inl (Sentinel ErrInvalidWebhook)
          else Inr (touch now (m\<lparr>m_webhookURL := raw\<rparr>)))"

definition merchant_EnableAutoAnticipation :: "bool \<Rightarrow> time \<Rightarrow> merchant \<Rightarrow> merchant" where
  "merchant_EnableAutoAnticipation on now m = touch now (m\<lparr>m_autoAnticipation := on\<rparr>)"

definition merchant_IsActive :: "merchant \<Rightarrow> bool" where
  "merchant_IsActive m \<longleftrightarrow> m_status m = Active"

section \<open>Documents: what an accepted document is\<close>

lemma document_chars_iff:
  "document_chars i s \<longleftrightarrow>
     (\<forall>k < length s. (is_digit (s ! k) \<or> is_upper (s ! k)) \<and> (12 \<le> i + k \<longrightarrow> is_digit (s ! k)))"
proof (induction s arbitrary: i)
  case (Cons c s)
  have "(\<forall>k < length (c # s). Q k) \<longleftrightarrow> Q 0 \<and> (\<forall>k < length s. Q (Suc k))" for Q
    by (auto simp: less_Suc_eq_0_disj)
  then show ?case using Cons by auto
qed simp

lemma upper_char_id: "is_digit c \<or> is_upper c \<Longrightarrow> upper_char c = c"
  by (auto simp: upper_char_def is_digit_def is_upper_def is_lower_def)

lemma document_char_not_multibyte:
  "is_digit c \<or> is_upper c \<Longrightarrow> c \<noteq> CHR 0xC4 \<and> c \<noteq> CHR 0xC5"
  by (auto simp: is_digit_def is_upper_def byte_def)

lemma go_to_upper_id: "(\<forall>c \<in> set s. is_digit c \<or> is_upper c) \<Longrightarrow> go_to_upper s = s"
proof (induction s rule: go_to_upper.induct)
  case (3 a b s)
  then have "a \<noteq> CHR 0xC4" "a \<noteq> CHR 0xC5" "upper_char a = a"
    using document_char_not_multibyte [of a] upper_char_id [of a] by simp_all
  with 3 show ?case by simp
qed (simp_all add: upper_char_id)

lemma not_separator: "is_digit c \<or> is_upper c \<Longrightarrow> c \<notin> {CHR ''.'', CHR ''/'', CHR ''-'', CHR '' ''}"
  by (auto simp: is_digit_def is_upper_def byte_def)

definition valid_document :: "document \<Rightarrow> bool" where
  "valid_document d \<longleftrightarrow> length d = 14
     \<and> (\<forall>k < 12. is_digit (d ! k) \<or> is_upper (d ! k)) \<and> is_digit (d ! 12) \<and> is_digit (d ! 13)
     \<and> (\<exists>k < 14. d ! k \<noteq> d ! 0)
     \<and> checkDigit (take 12 d) = digit_value (d ! 12) \<and> checkDigit (take 13 d) = digit_value (d ! 13)"

lemma count_list_full: "count_list s c = length s \<longleftrightarrow> (\<forall>x \<in> set s. x = c)"
proof (induction s)
  case (Cons x s)
  have "count_list s c \<noteq> Suc (length s)" using count_le_length [of s c] by linarith
  with Cons show ?case by auto
qed simp

lemma less_14_cases: "k < (14 :: nat) \<longleftrightarrow> k < 12 \<or> k = 12 \<or> k = 13"
  by linarith

lemma all_less_14: "(\<forall>k < (14 :: nat). Q k) \<longleftrightarrow> (\<forall>k < 12. Q k) \<and> Q 12 \<and> Q 13"
  unfolding less_14_cases by blast

lemma NewDocument_clean:
  assumes "clean_document raw = d"
  shows "NewDocument raw = (if valid_document d then Inr d else Inl (Sentinel ErrInvalidDocument))"
proof (cases "length d = 14")
  case True
  have chars: "document_chars 0 d \<longleftrightarrow>
      (\<forall>k < 12. is_digit (d ! k) \<or> is_upper (d ! k)) \<and> is_digit (d ! 12) \<and> is_digit (d ! 13)"
    unfolding document_chars_iff True all_less_14 by simp blast
  have eq: "count_list d (d ! 0) = 14 \<longleftrightarrow> \<not> (\<exists>k < 14. d ! k \<noteq> d ! 0)"
    using count_list_full [of d "d ! 0"] by (simp add: True all_set_conv_all_nth)
  show ?thesis
    unfolding NewDocument_def Let_def assms valid_document_def chars eq
    by (simp only: True if_splits) argo
next
  case False
  then show ?thesis using assms by (simp add: NewDocument_def valid_document_def)
qed

lemma clean_document_valid: "valid_document d \<Longrightarrow> clean_document d = d"
proof -
  assume d: "valid_document d"
  have "is_digit c \<or> is_upper c" if "c \<in> set d" for c
  proof -
    have "length d = 14" using d by (simp add: valid_document_def)
    with that obtain k where k: "k < 14" "c = d ! k"
      unfolding in_set_conv_nth by auto
    have "k < 12 \<or> k = 12 \<or> k = 13" using k(1) by (simp only: less_14_cases)
    moreover have "is_digit (d ! 12)" "is_digit (d ! 13)"
      and low: "\<And>j. j < 12 \<Longrightarrow> is_digit (d ! j) \<or> is_upper (d ! j)"
      using d unfolding valid_document_def by blast+
    ultimately show ?thesis unfolding k(2) by (metis (no_types))
  qed
  then have chars: "\<forall>c \<in> set d. is_digit c \<or> is_upper c" by blast
  then have "filter (\<lambda>c. c \<notin> {CHR ''.'', CHR ''/'', CHR ''-'', CHR '' ''}) d = d"
    using not_separator by (intro filter_True) blast
  then show ?thesis unfolding clean_document_def by (simp only: go_to_upper_id [OF chars])
qed



section \<open>Fee plans\<close>

lemma NewFeePlan_wf:
  "NewFeePlan d c i a = Inr p \<longleftrightarrow>
     p = \<lparr>fp_debit = d, fp_creditOneShot = c, fp_creditInstallments = i, fp_anticipationRateMonth = a\<rparr>
     \<and> wf_plan p"
  by (auto simp: NewFeePlan_def wf_plan_def fmpred_def not_less)

lemma MDR_cases:
  "MDR p pr n = Inr r \<longleftrightarrow>
     pr = Debit \<and> n = 1 \<and> r = fp_debit p \<or> pr = Credit \<and> n = 1 \<and> r = fp_creditOneShot p
     \<or> pr = Credit \<and> 1 < n \<and> fmlookup (fp_creditInstallments p) n = Some r"
  by (auto simp: MDR_def split: option.splits)

lemma MDR_error: "MDR p pr n = Inl e \<Longrightarrow> e = Sentinel ErrInstallmentsNotAllowed"
  by (auto simp: MDR_def split: if_splits option.splits)

lemma MDR_bounds:
  assumes "wf_plan p" "MDR p pr n = Inr r"
  shows "0 \<le> r" "r \<le> 10000" "1 \<le> n" "n \<le> 12" "pr = Debit \<Longrightarrow> n = 1"
  using assms by (auto simp: MDR_cases wf_plan_def fmpred_iff)

text \<open>\<open>NewFeePlan\<close> succeeds exactly on rates between 0 and 100\% (with no upper bound
  on the anticipation rate) and installment counts 2 to 12, and on such a plan \<open>MDR\<close>
  gives a rate between 0 and 100\% for 1 to 12 installments, never more than one on debit,
  and otherwise \<open>ErrInstallmentsNotAllowed\<close>.\<close>

theorem fee_plan_correct:
  "(NewFeePlan d c i a = Inr p \<longleftrightarrow>
      p = \<lparr>fp_debit = d, fp_creditOneShot = c, fp_creditInstallments = i, fp_anticipationRateMonth = a\<rparr>
      \<and> wf_plan p)
   \<and> (NewFeePlan d c i a = Inr p \<longrightarrow>
        (case MDR p pr n of
           Inr r \<Rightarrow> 0 \<le> r \<and> r \<le> 10000 \<and> 1 \<le> n \<and> n \<le> 12 \<and> (pr = Debit \<longrightarrow> n = 1)
         | Inl e \<Rightarrow> e = Sentinel ErrInstallmentsNotAllowed))"
  using MDR_bounds [of p pr n] MDR_error [of p pr n]
  by (auto simp: NewFeePlan_wf split: sum.splits)

definition sample_rates :: "(int, int) fmap" where
  "sample_rates = fmap_of_list [(2, 350), (3, 350), (12, 450)]"

definition sample_plan :: fee_plan where
  "sample_plan = \<lparr>fp_debit = 150, fp_creditOneShot = 250,
     fp_creditInstallments = sample_rates, fp_anticipationRateMonth = 200\<rparr>"

lemma sample_plan_new: "NewFeePlan 150 250 sample_rates 200 = Inr sample_plan"
  by (auto simp: NewFeePlan_wf sample_plan_def wf_plan_def sample_rates_def fmpred_iff
      fmlookup_of_list split: if_splits)

theorem fee_plan_correct_witness:
  "wf_plan sample_plan \<and> MDR sample_plan Credit 12 = Inr 450"
  using fee_plan_correct [of 150 250 sample_rates 200 sample_plan] sample_plan_new
  by (simp add: MDR_def sample_plan_def sample_rates_def fmlookup_of_list)

section \<open>The merchant aggregate\<close>

definition wf_merchant :: "merchant \<Rightarrow> bool" where
  "wf_merchant m \<longleftrightarrow> valid_document (m_document m) \<and> m_legalName m \<noteq> [] \<and> length (m_mcc m) = 4
     \<and> BankCode (m_bankAccount m) \<noteq> [] \<and> wf_plan (m_feePlan m) \<and> 1 \<le> m_version m"

lemmas merchant_op_defs = merchant_Approve_def merchant_Block_def merchant_SetFeePlan_def
  merchant_SetWebhook_def merchant_EnableAutoAnticipation_def touch_def

text \<open>Every way the code changes a merchant.\<close>

inductive merchant_step ::
  "(string \<Rightarrow> (string \<times> string \<times> string) option) \<Rightarrow> merchant \<Rightarrow> merchant \<Rightarrow> bool"
  for url_Parse where
  approve: "merchant_Approve now m = Inr m' \<Longrightarrow> merchant_step url_Parse m m'"
| block: "merchant_Block now m = Inr m' \<Longrightarrow> merchant_step url_Parse m m'"
| fee_plan: "NewFeePlan d c i a = Inr p \<Longrightarrow>
    merchant_step url_Parse m (merchant_SetFeePlan p now m)"
| webhook: "merchant_SetWebhook url_Parse raw now m = Inr m' \<Longrightarrow> merchant_step url_Parse m m'"
| auto: "merchant_step url_Parse m (merchant_EnableAutoAnticipation on now m)"

inductive merchant_reach ::
  "(string \<Rightarrow> (string \<times> string \<times> string) option) \<Rightarrow> merchant \<Rightarrow> merchant \<Rightarrow> bool"
  for url_Parse where
  reach_start: "merchant_reach url_Parse m m"
| reach_step: "merchant_reach url_Parse m m' \<Longrightarrow> merchant_step url_Parse m' m'' \<Longrightarrow> merchant_reach url_Parse m m''"

lemma merchant_step_effect:
  "merchant_step url_Parse m m' \<Longrightarrow>
     m_id m' = m_id m \<and> m_document m' = m_document m \<and> m_legalName m' = m_legalName m
     \<and> m_mcc m' = m_mcc m \<and> m_bankAccount m' = m_bankAccount m
     \<and> m_version m' = m_version m + 1
     \<and> (wf_plan (m_feePlan m) \<longrightarrow> wf_plan (m_feePlan m'))
     \<and> (m_status m = m_status m' \<or> m_status m = UnderReview \<and> m_status m' = Active
          \<or> m_status m = Active \<and> m_status m' = Blocked)"
  by (erule merchant_step.cases)
    (auto simp: merchant_op_defs NewFeePlan_wf split: if_splits option.splits)

text \<open>From a well-formed merchant, every sequence of operations keeps it well formed and
  keeps its id, document, name, MCC and bank account; its version grows with every step;
  a blocked merchant stays blocked and an active one never returns to review.\<close>

theorem merchant_lifecycle:
  assumes "merchant_reach url_Parse m m'" "wf_merchant m"
  shows "wf_merchant m' \<and> m_id m' = m_id m \<and> m_document m' = m_document m
    \<and> m_bankAccount m' = m_bankAccount m \<and> m_version m \<le> m_version m'
    \<and> (m_version m = m_version m' \<longrightarrow> m = m')
    \<and> (m_status m = Blocked \<longrightarrow> m_status m' = Blocked)
    \<and> (m_status m = Active \<longrightarrow> m_status m' \<noteq> UnderReview)"
  using assms
proof (induction rule: merchant_reach.induct)
  case (reach_step m m' m'')
  then show ?case using merchant_step_effect [OF reach_step.hyps(2)] by (auto simp: wf_merchant_def)
qed simp

definition sample_merchant :: merchant where
  "sample_merchant = \<lparr>m_id = ''m_1'', m_document = ''11222333000181'', m_legalName = ''Padaria'',
     m_mcc = ''5462'', m_status = UnderReview,
     m_bankAccount = \<lparr>BankCode = ''341'', Branch = ''0001'', Number = ''12345-6'', Kind = ''CHECKING''\<rparr>,
     m_feePlan = sample_plan, m_webhookURL = '''', m_autoAnticipation = False, m_version = 1,
     m_createdAt = 0, m_updatedAt = 0\<rparr>"

lemma wf_sample_merchant: "wf_merchant sample_merchant"
proof -
  have "NewDocument ''11222333000181'' = Inr ''11222333000181''" by code_simp
  then have "valid_document ''11222333000181''"
    using NewDocument_clean [OF refl, of "''11222333000181''"] by (simp split: if_splits)
  then show ?thesis
    using sample_plan_new by (simp add: wf_merchant_def sample_merchant_def NewFeePlan_wf)
qed

definition sample_active :: merchant where
  "sample_active = touch 1 (sample_merchant\<lparr>m_status := Active\<rparr>)"

lemma sample_approved: "merchant_Approve 1 sample_merchant = Inr sample_active"
  by (simp add: merchant_Approve_def sample_active_def sample_merchant_def)

theorem merchant_lifecycle_witness:
  "wf_merchant sample_active \<and> m_version sample_active = 2"
  using merchant_lifecycle [OF merchant_reach.reach_step [OF merchant_reach.reach_start
        merchant_step.approve [OF sample_approved]] wf_sample_merchant]
  by (simp add: sample_active_def sample_merchant_def touch_def)

end
