(* ===== verification/State_Machine.thy ===== *)
theory State_Machine
  imports Shared
begin

text \<open>
  The contract the transaction, the receivable, the chargeback and the settlement share: a
  status that only changes along the edges of a transition table, and a version that
  every change increments. The table's edges descend in a rank, so that the number of
  changes an object can undergo is bounded. Each component interprets the contract on
  its own table and operations.
\<close>

lemma steps_induct [consumes 1, case_names 0 Suc]:
  assumes "(R ^^ n) x y" "P 0 x"
    and "\<And>k u v. (R ^^ k) x u \<Longrightarrow> R u v \<Longrightarrow> P k u \<Longrightarrow> P (Suc k) v"
  shows "P n y"
  using assms(1)
proof (induction n arbitrary: y)
  case 0
  then show ?case using assms(2) by simp
next
  case (Suc n)
  from Suc.prems obtain z where "(R ^^ n) x z" "R z y" by (rule relpowp_Suc_E)
  then show ?case using Suc.IH assms(3) by blast
qed

lemma steps_invariant:
  assumes "(R ^^ n) x y" "P x" "\<And>u v. R u v \<Longrightarrow> P u \<Longrightarrow> P v"
  shows "P y"
  using assms(1) by (induction rule: steps_induct) (use assms in blast)+

locale transition_table =
  fixes table :: "'s \<Rightarrow> 's list" and rank :: "'s \<Rightarrow> nat"
  assumes descending: "to \<in> set (table s) \<Longrightarrow> rank to < rank s"
begin

lemma no_self_edge: "s \<notin> set (table s)"
  using descending by blast

lemma terminal_of_rank_0: "rank s = 0 \<Longrightarrow> table s = []"
  by (cases "table s") (use descending [of _ s] in auto)

end

locale transition_machine = transition_table table rank
  for table :: "'s \<Rightarrow> 's list" and rank :: "'s \<Rightarrow> nat" +
  fixes status :: "'o \<Rightarrow> 's" and version :: "'o \<Rightarrow> int" and step :: "'o \<Rightarrow> 'o \<Rightarrow> bool"
  assumes step_edge: "step x y \<Longrightarrow> status y \<in> set (table (status x))"
    and step_version: "step x y \<Longrightarrow> version y = version x + 1"
begin

lemma steps_version: "(step ^^ n) x y \<Longrightarrow> version y = version x + int n"
  by (induction rule: steps_induct) (simp_all add: step_version)

lemma steps_rank: "(step ^^ n) x y \<Longrightarrow> rank (status y) + n \<le> rank (status x)"
proof (induction rule: steps_induct)
  case (Suc k u v)
  then show ?case using descending [OF step_edge [OF Suc(2)]] by simp
qed simp

lemma terminal_stays:
  assumes "table (status x) = []" "(step ^^ n) x y"
  shows "y = x \<and> n = 0"
proof (cases n)
  case (Suc k)
  then obtain z where "step x z" using assms(2) relpowp_Suc_D2 by metis
  then show ?thesis using step_edge assms(1) by fastforce
qed (use assms in simp)

lemma same_version_same_object:
  "(step ^^ n) x y \<Longrightarrow> version y = version x \<Longrightarrow> y = x"
proof -
  assume steps: "(step ^^ n) x y" and "version y = version x"
  then have "n = 0" using steps_version [OF steps] by simp
  then show "y = x" using steps by simp
qed

end

end
