(* ===== verification/Transaction.thy ===== *)
theory Transaction
  imports Card Merchant State_Machine
begin

text \<open>
  \<open>internal/domain/transaction\<close>: \<open>transaction.go\<close> and \<open>events.go\<close>. An operation that
  returns an error has changed nothing: \<open>transition\<close> checks before it assigns, and every
  operation returns on its error at once. The UUID an event draws is an argument.
\<close>

datatype tx_status = Pending | Authorized | Denied | Captured | Canceled | Settled | Chargebacked

definition tx_status_string :: "tx_status \<Rightarrow> string" where
  "tx_status_string s = (case s of
       Pending \<Rightarrow> ''PENDING'' | Authorized \<Rightarrow> ''AUTHORIZED'' | Denied \<Rightarrow> ''DENIED''
     | Captured \<Rightarrow> ''CAPTURED'' | Canceled \<Rightarrow> ''CANCELED'' | Settled \<Rightarrow> ''SETTLED''
     | Chargebacked \<Rightarrow> ''CHARGEBACKED'')"

definition tx_transitions :: "tx_status \<Rightarrow> tx_status list" where
  "tx_transitions s = (case s of
       Pending \<Rightarrow> [Authorized, Denied]
     | Authorized \<Rightarrow> [Captured, Canceled]
     | Captured \<Rightarrow> [Canceled, Settled, Chargebacked]
     | Settled \<Rightarrow> [Chargebacked]
     | _ \<Rightarrow> [])"

datatype tx_event =
    TransactionAuthorized (te_base: base_event) (te_merchant: string) (te_amount: money)
      (te_product: product) (te_installments: int) (te_authorizationCode: string) (te_nsu: string)
      (te_cardBrand: string) (te_cardLast4: string)
  | TransactionDenied (te_base: base_event) (te_merchant: string) (te_amount: money)
      (te_responseCode: string)
  | TransactionCaptured (te_base: base_event) (te_merchant: string) (te_amount: money)
      (te_product: product) (te_installments: int) (te_cardBrand: string) (te_capturedAt: time)
  | TransactionCanceled (te_base: base_event) (te_merchant: string) (te_amount: money)
  | TransactionChargebacked (te_base: base_event) (te_merchant: string) (te_amount: money)
      (te_reasonCode: string)

record transaction =
  tx_id :: string
  tx_merchantID :: string
  tx_amount :: money
  tx_product :: product
  tx_installments :: int
  tx_card :: card_info
  tx_status :: tx_status
  tx_authorizationCode :: string
  tx_nsu :: string
  tx_responseCode :: string
  tx_createdAt :: time
  tx_authorizedAt :: "time option"
  tx_capturedAt :: "time option"
  tx_canceledAt :: "time option"
  tx_version :: int
  tx_events :: "tx_event list"

definition tx_New ::
  "string \<Rightarrow> merchant \<Rightarrow> money \<Rightarrow> product \<Rightarrow> int \<Rightarrow> card_info \<Rightarrow> time \<Rightarrow> transaction result" where
  "tx_New uuid m amount product installments ci now =
     (if \<not> merchant_IsActive m then Inl (Sentinel ErrMerchantInactive)
      else if \<not> IsPositive amount then Inl (Sentinel ErrInvalidAmount)
      else if installments < 1 \<or> installments > 12 then Inl (Sentinel ErrMaxInstallments)
      else if product = Debit \<and> installments \<noteq> 1 then Inl (Sentinel ErrDebitInstallments)
      else case MDR (m_feePlan m) product installments of
        Inl err \<Rightarrow> Inl err
      | Inr _ \<Rightarrow>
          if Token ci = [] \<or> Last4 ci = [] then Inl (Sentinel ErrInvalidToken)
          else Inr \<lparr>tx_id = NewID uuid ''tx'', tx_merchantID = m_id m, tx_amount = amount,
                    tx_product = product, tx_installments = installments, tx_card = ci,
                    tx_status = Pending, tx_authorizationCode = '''', tx_nsu = '''',
                    tx_responseCode = '''', tx_createdAt = now, tx_authorizedAt = None,
                    tx_capturedAt = None, tx_canceledAt = None, tx_version = 1, tx_events = []\<rparr>)"

text \<open>\<open>Restore\<close> rebuilds a stored transaction: every field but the pending events.\<close>

definition tx_Restore ::
  "string \<Rightarrow> string \<Rightarrow> money \<Rightarrow> product \<Rightarrow> int \<Rightarrow> card_info \<Rightarrow> tx_status \<Rightarrow> string \<Rightarrow> string \<Rightarrow> string
   \<Rightarrow> time \<Rightarrow> time option \<Rightarrow> time option \<Rightarrow> time option \<Rightarrow> int \<Rightarrow> transaction" where
  "tx_Restore i merchantID amount product installments ci status authorizationCode nsu
     responseCode createdAt authorizedAt capturedAt canceledAt version =
     \<lparr>tx_id = i, tx_merchantID = merchantID, tx_amount = amount, tx_product = product,
      tx_installments = installments, tx_card = ci, tx_status = status,
      tx_authorizationCode = authorizationCode, tx_nsu = nsu, tx_responseCode = responseCode,
      tx_createdAt = createdAt, tx_authorizedAt = authorizedAt, tx_capturedAt = capturedAt,
      tx_canceledAt = canceledAt, tx_version = version, tx_events = []\<rparr>"

definition tx_transition :: "tx_status \<Rightarrow> transaction \<Rightarrow> transaction result" where
  "tx_transition to t =
     (if to \<in> set (tx_transitions (tx_status t))
      then Inr (t\<lparr>tx_status := to, tx_version := tx_version t + 1\<rparr>)
      else Inl (Errorf [tx_status_string (tx_status t), tx_status_string to]
             (Sentinel ErrInvalidTransition)))"

definition tx_Authorize ::
  "string \<Rightarrow> string \<Rightarrow> string \<Rightarrow> time \<Rightarrow> transaction \<Rightarrow> transaction result" where
  "tx_Authorize uuid authorizationCode nsu now t =
     (case tx_transition Authorized t of
        Inl err \<Rightarrow> Inl err
      | Inr t1 \<Rightarrow> Inr (t1\<lparr>tx_authorizationCode := authorizationCode, tx_nsu := nsu,
          tx_responseCode := ''00'', tx_authorizedAt := Some now,
          tx_events := tx_events t1 @ [TransactionAuthorized
            (NewBaseEvent uuid ''transaction.authorized'' (tx_id t1) now) (tx_merchantID t1)
            (tx_amount t1) (tx_product t1) (tx_installments t1) authorizationCode nsu
            (Brand (tx_card t1)) (Last4 (tx_card t1))]\<rparr>))"

definition tx_Deny :: "string \<Rightarrow> string \<Rightarrow> time \<Rightarrow> transaction \<Rightarrow> transaction result" where
  "tx_Deny uuid responseCode now t =
     (case tx_transition Denied t of
        Inl err \<Rightarrow> Inl err
      | Inr t1 \<Rightarrow> Inr (t1\<lparr>tx_responseCode := responseCode,
          tx_events := tx_events t1 @ [TransactionDenied
            (NewBaseEvent uuid ''transaction.denied'' (tx_id t1) now) (tx_merchantID t1)
            (tx_amount t1) responseCode]\<rparr>))"

definition tx_Capture :: "string \<Rightarrow> time \<Rightarrow> transaction \<Rightarrow> transaction result" where
  "tx_Capture uuid now t =
     (case tx_transition Captured t of
        Inl err \<Rightarrow> Inl err
      | Inr t1 \<Rightarrow> Inr (t1\<lparr>tx_capturedAt := Some now,
          tx_events := tx_events t1 @ [TransactionCaptured
            (NewBaseEvent uuid ''transaction.captured'' (tx_id t1) now) (tx_merchantID t1)
            (tx_amount t1) (tx_product t1) (tx_installments t1) (Brand (tx_card t1)) now]\<rparr>))"

definition tx_Cancel :: "string \<Rightarrow> time \<Rightarrow> transaction \<Rightarrow> transaction result" where
  "tx_Cancel uuid now t =
     (case tx_transition Canceled t of
        Inl err \<Rightarrow> Inl err
      | Inr t1 \<Rightarrow> Inr (t1\<lparr>tx_canceledAt := Some now,
          tx_events := tx_events t1 @ [TransactionCanceled
            (NewBaseEvent uuid ''transaction.canceled'' (tx_id t1) now) (tx_merchantID t1)
            (tx_amount t1)]\<rparr>))"

definition tx_MarkSettled :: "transaction \<Rightarrow> transaction result" where
  "tx_MarkSettled t = tx_transition Settled t"

definition tx_Chargeback :: "string \<Rightarrow> string \<Rightarrow> time \<Rightarrow> transaction \<Rightarrow> transaction result" where
  "tx_Chargeback uuid reasonCode now t =
     (case tx_transition Chargebacked t of
        Inl err \<Rightarrow> Inl err
      | Inr t1 \<Rightarrow> Inr (t1\<lparr>tx_events := tx_events t1 @ [TransactionChargebacked
            (NewBaseEvent uuid ''transaction.chargebacked'' (tx_id t1) now) (tx_merchantID t1)
            (tx_amount t1) reasonCode]\<rparr>))"

definition tx_PullEvents :: "transaction \<Rightarrow> tx_event list \<times> transaction" where
  "tx_PullEvents t = (tx_events t, t\<lparr>tx_events := []\<rparr>)"

lemmas tx_op_defs = tx_Authorize_def tx_Deny_def tx_Capture_def tx_Cancel_def tx_MarkSettled_def
  tx_Chargeback_def

section \<open>The transition system of a transaction\<close>

inductive tx_step :: "transaction \<Rightarrow> transaction \<Rightarrow> bool" where
  tx_authorize: "tx_Authorize u code nsu now t = Inr t' \<Longrightarrow> tx_step t t'"
| tx_deny: "tx_Deny u code now t = Inr t' \<Longrightarrow> tx_step t t'"
| tx_capture: "tx_Capture u now t = Inr t' \<Longrightarrow> tx_step t t'"
| tx_cancel: "tx_Cancel u now t = Inr t' \<Longrightarrow> tx_step t t'"
| tx_settle: "tx_MarkSettled t = Inr t' \<Longrightarrow> tx_step t t'"
| tx_chargeback: "tx_Chargeback u reason now t = Inr t' \<Longrightarrow> tx_step t t'"

inductive_cases tx_stepE: "tx_step t t'"

lemma tx_transition_Inr [simp]:
  "tx_transition to t = Inr t' \<longleftrightarrow> to \<in> set (tx_transitions (tx_status t))
     \<and> t' = t\<lparr>tx_status := to, tx_version := tx_version t + 1\<rparr>"
  by (auto simp: tx_transition_def)

lemma tx_step_edge: "tx_step t t' \<Longrightarrow> tx_status t' \<in> set (tx_transitions (tx_status t))"
  by (erule tx_stepE) (auto simp: tx_op_defs)

lemma tx_step_version: "tx_step t t' \<Longrightarrow> tx_version t' = tx_version t + 1"
  by (erule tx_stepE) (auto simp: tx_op_defs)

definition tx_rank :: "tx_status \<Rightarrow> nat" where
  "tx_rank s = (case s of Pending \<Rightarrow> 4 | Authorized \<Rightarrow> 3 | Captured \<Rightarrow> 2 | Settled \<Rightarrow> 1 | _ \<Rightarrow> 0)"

lemma tx_rank_descends: "to \<in> set (tx_transitions s) \<Longrightarrow> tx_rank to < tx_rank s"
  by (cases s) (auto simp: tx_transitions_def tx_rank_def)

interpretation txm: transition_machine tx_transitions tx_rank tx_status tx_version tx_step
  by unfold_locales (simp_all add: tx_rank_descends tx_step_edge tx_step_version)

text \<open>What no operation changes.\<close>

definition tx_identity :: "transaction \<Rightarrow> string \<times> string \<times> money \<times> product \<times> int \<times> card_info \<times> time" where
  "tx_identity t = (tx_id t, tx_merchantID t, tx_amount t, tx_product t, tx_installments t,
     tx_card t, tx_createdAt t)"

lemma tx_step_identity: "tx_step t t' \<Longrightarrow> tx_identity t' = tx_identity t"
  by (erule tx_stepE) (auto simp: tx_op_defs tx_identity_def)

lemma tx_steps_identity: "(tx_step ^^ n) t t' \<Longrightarrow> tx_identity t' = tx_identity t"
  by (erule steps_invariant) (simp_all add: tx_step_identity)

text \<open>The timestamps and codes a status carries.\<close>

definition wf_tx :: "transaction \<Rightarrow> bool" where
  "wf_tx t \<longleftrightarrow> 0 <s tx_amount t \<and> 1 \<le> tx_installments t \<and> tx_installments t \<le> 12
     \<and> (tx_product t = Debit \<longrightarrow> tx_installments t = 1)
     \<and> Token (tx_card t) \<noteq> [] \<and> Last4 (tx_card t) \<noteq> []
     \<and> (tx_status t \<in> {Authorized, Captured, Settled, Chargebacked} \<longrightarrow>
          tx_authorizedAt t \<noteq> None \<and> tx_responseCode t = ''00'')
     \<and> (tx_capturedAt t \<noteq> None \<longrightarrow> tx_authorizedAt t \<noteq> None)
     \<and> (tx_status t \<in> {Captured, Settled, Chargebacked} \<longrightarrow> tx_capturedAt t \<noteq> None)
     \<and> (tx_status t = Canceled \<longleftrightarrow> tx_canceledAt t \<noteq> None)
     \<and> (tx_status t \<in> {Pending, Denied} \<longrightarrow> tx_authorizedAt t = None)
     \<and> (tx_status t \<in> {Pending, Authorized, Denied} \<longrightarrow> tx_capturedAt t = None)"

lemma tx_New_wf: "tx_New u m amt p n c now = Inr t \<Longrightarrow> wf_tx t"
  by (auto simp: tx_New_def wf_tx_def IsPositive_def split: if_splits)

lemma tx_edges:
  "Authorized \<in> set (tx_transitions s) \<longleftrightarrow> s = Pending"
  "Denied \<in> set (tx_transitions s) \<longleftrightarrow> s = Pending"
  "Captured \<in> set (tx_transitions s) \<longleftrightarrow> s = Authorized"
  "Canceled \<in> set (tx_transitions s) \<longleftrightarrow> s = Authorized \<or> s = Captured"
  "Settled \<in> set (tx_transitions s) \<longleftrightarrow> s = Captured"
  "Chargebacked \<in> set (tx_transitions s) \<longleftrightarrow> s = Captured \<or> s = Settled"
  "Pending \<notin> set (tx_transitions s)"
  by (cases s; simp add: tx_transitions_def)+

lemma tx_step_wf: "tx_step t t' \<Longrightarrow> wf_tx t \<Longrightarrow> wf_tx t'"
  by (cases "tx_status t"; erule tx_stepE; clarsimp simp: tx_op_defs tx_edges; simp add: wf_tx_def)

lemma tx_steps_wf: "(tx_step ^^ n) t t' \<Longrightarrow> wf_tx t \<Longrightarrow> wf_tx t'"
  by (erule steps_invariant) (simp_all add: tx_step_wf)

text \<open>C17: a transaction made by \<open>New\<close> and changed by any sequence of its operations keeps the
  facts its status promises (a captured one has its capture time, a canceled one its
  cancellation time, an approved one the response code 00), keeps its id, merchant,
  amount, product, installments and card, has a version of one plus the number of
  changes, and cannot be changed more than four times.\<close>

theorem tx_lifecycle:
  assumes "tx_New u m amt p n c now = Inr t0" "(tx_step ^^ k) t0 t"
  shows "wf_tx t \<and> tx_identity t = tx_identity t0 \<and> tx_version t = 1 + int k \<and> k \<le> 4"
proof -
  have "tx_version t0 = 1" "tx_rank (tx_status t0) = 4"
    using assms(1) by (auto simp: tx_New_def tx_rank_def split: if_splits)
  then show ?thesis
    using tx_steps_wf [OF assms(2) tx_New_wf [OF assms(1)]] tx_steps_identity [OF assms(2)]
      txm.steps_version [OF assms(2)] txm.steps_rank [OF assms(2)] by simp
qed

definition sample_card :: card_info where
  "sample_card = \<lparr>Token = ''tok_1'', Brand = ''VISA'', BIN = ''453957'', Last4 = ''1486''\<rparr>"

definition sample_pending :: transaction where
  "sample_pending = tx_Restore (NewID ''7'' ''tx'') ''m_1'' 100000 Credit 3 sample_card Pending
     '''' '''' '''' 5 None None None 1"

definition sample_authorized :: transaction where
  "sample_authorized = tx_Restore (NewID ''7'' ''tx'') ''m_1'' 100000 Credit 3 sample_card Authorized
     ''123456'' ''000000000001'' ''00'' 5 (Some 6) None None 2"

definition sample_captured :: transaction where
  "sample_captured = tx_Restore (NewID ''7'' ''tx'') ''m_1'' 100000 Credit 3 sample_card Captured
     ''123456'' ''000000000001'' ''00'' 5 (Some 6) (Some 7) None 3"

lemmas sample_tx_defs = sample_pending_def sample_authorized_def sample_captured_def tx_Restore_def

lemma sample_tx_New: "tx_New ''7'' sample_active 100000 Credit 3 sample_card 5 = Inr sample_pending"
  by (simp add: tx_New_def merchant_IsActive_def sample_active_def sample_merchant_def touch_def
      IsPositive_def sless64 MDR_def sample_plan_def sample_rates_def fmlookup_of_list
      sample_card_def sample_tx_defs)

lemma sample_tx_step: "\<exists>t. tx_step sample_pending t \<and> tx_status t = Authorized"
proof -
  have "tx_status sample_pending = Pending" by (simp add: sample_tx_defs)
  then obtain t where t: "tx_Authorize ''8'' ''123456'' ''000000000001'' 6 sample_pending = Inr t"
    by (simp add: tx_Authorize_def tx_edges tx_transition_def)
  then have "tx_status t = Authorized" by (auto simp: tx_Authorize_def)
  then show ?thesis using tx_authorize [OF t] by blast
qed

theorem tx_lifecycle_witness:
  "\<exists>t. tx_step sample_pending t \<and> wf_tx t \<and> tx_version t = 2"
proof -
  obtain t where t: "(tx_step ^^ 1) sample_pending t" using sample_tx_step by auto
  then show ?thesis using tx_lifecycle [OF sample_tx_New t] by auto
qed

text \<open>The status an event announces.\<close>

definition tx_event_status :: "tx_event \<Rightarrow> tx_status" where
  "tx_event_status e = (case e of
       TransactionAuthorized _ _ _ _ _ _ _ _ _ \<Rightarrow> Authorized | TransactionDenied _ _ _ _ \<Rightarrow> Denied
     | TransactionCaptured _ _ _ _ _ _ _ \<Rightarrow> Captured | TransactionCanceled _ _ _ \<Rightarrow> Canceled
     | TransactionChargebacked _ _ _ _ \<Rightarrow> Chargebacked)"

text \<open>Every successful operation follows an edge of the transition table and records
  exactly one event, last in the list, that announces the new status with the transaction's id,
  merchant and amount; settling records none. From a denied, canceled or charged-back
  transaction there is no such operation.\<close>

theorem tx_step_events:
  assumes "tx_step t t'"
  shows "tx_status t' \<in> set (tx_transitions (tx_status t))
    \<and> tx_status t \<notin> {Denied, Canceled, Chargebacked}
    \<and> (if tx_status t' = Settled then tx_events t' = tx_events t
       else \<exists>e. tx_events t' = tx_events t @ [e] \<and> tx_event_status e = tx_status t'
              \<and> ev_Aggregate (te_base e) = tx_id t \<and> te_merchant e = tx_merchantID t
              \<and> te_amount e = tx_amount t)"
  using assms
  by (cases rule: tx_stepE)
    (auto simp: tx_op_defs tx_edges tx_event_status_def NewBaseEvent_def)

theorem tx_step_events_witness:
  "\<exists>t e. tx_step sample_pending t \<and> tx_events t = [e] \<and> te_amount e = 100000"
proof -
  obtain t where t: "tx_step sample_pending t" "tx_status t = Authorized"
    using sample_tx_step by auto
  then show ?thesis using tx_step_events [OF t(1)] by (auto simp: sample_tx_defs)
qed

text \<open>Each operation succeeds exactly from the states the table allows and otherwise
  returns an \<open>ErrInvalidTransition\<close>.\<close>

theorem tx_refusals:
  "(if tx_status t = Pending then \<exists>t'. tx_Authorize u code nsu now t = Inr t'
    else \<exists>e. tx_Authorize u code nsu now t = Inl e \<and> errors_Is e ErrInvalidTransition)
   \<and> (if tx_status t = Pending then \<exists>t'. tx_Deny u code now t = Inr t'
      else \<exists>e. tx_Deny u code now t = Inl e \<and> errors_Is e ErrInvalidTransition)
   \<and> (if tx_status t = Authorized then \<exists>t'. tx_Capture u now t = Inr t'
      else \<exists>e. tx_Capture u now t = Inl e \<and> errors_Is e ErrInvalidTransition)
   \<and> (if tx_status t \<in> {Authorized, Captured} then \<exists>t'. tx_Cancel u now t = Inr t'
      else \<exists>e. tx_Cancel u now t = Inl e \<and> errors_Is e ErrInvalidTransition)
   \<and> (if tx_status t = Captured then \<exists>t'. tx_MarkSettled t = Inr t'
      else \<exists>e. tx_MarkSettled t = Inl e \<and> errors_Is e ErrInvalidTransition)
   \<and> (if tx_status t \<in> {Captured, Settled} then \<exists>t'. tx_Chargeback u reason now t = Inr t'
      else \<exists>e. tx_Chargeback u reason now t = Inl e \<and> errors_Is e ErrInvalidTransition)"
  by (simp add: tx_op_defs tx_transition_def tx_edges)

text \<open>\<open>New\<close> accepts exactly a positive amount of an active merchant in 1 to 12
  installments the fee plan prices (one on debit) with a complete card; the transaction it
  makes is pending, with the given fields, version 1, no time stamps and no events.\<close>

theorem new_transaction_correct:
  "tx_New u m amt p n ci now = Inr t \<longleftrightarrow>
     m_status m = Active \<and> 0 < sint amt \<and> 1 \<le> n \<and> n \<le> 12 \<and> (p = Debit \<longrightarrow> n = 1)
     \<and> (\<exists>r. MDR (m_feePlan m) p n = Inr r) \<and> Token ci \<noteq> [] \<and> Last4 ci \<noteq> []
     \<and> t = tx_Restore (NewID u ''tx'') (m_id m) amt p n ci Pending '''' '''' '''' now None None None 1"
  by (auto simp: tx_New_def merchant_IsActive_def IsPositive_def sless64 tx_Restore_def
      split: sum.splits if_splits)

theorem new_transaction_correct_witness:
  "tx_New ''7'' sample_active 100000 Credit 3 sample_card 5 = Inr sample_pending"
proof -
  have "m_status sample_active = Active" "m_id sample_active = ''m_1''"
    "MDR (m_feePlan sample_active) Credit 3 = Inr 350"
    by (simp_all add: sample_active_def sample_merchant_def touch_def MDR_def sample_plan_def
        sample_rates_def fmlookup_of_list)
  then show ?thesis
    using new_transaction_correct [of "''7''" sample_active 100000 Credit 3 sample_card 5 sample_pending]
    by (simp add: sample_pending_def sample_card_def)
qed

end
