(* ===== verification/Receivable.thy ===== *)
theory Receivable
  imports Transaction
begin

text \<open>
  \<open>internal/domain/receivable\<close>: the receivable and its state machine
  (\<open>receivable.go\<close>), the schedule of a captured transaction and the grouping of
  receivables into units (\<open>schedule.go\<close>), the filter, the lien and the scheduling event
  (\<open>ports.go\<close>). Statuses carry the prefix \<open>R\<close>. Due dates are instants; the program keeps
  them at midnight.
\<close>

datatype rcv_status = RScheduled | RAnticipated | RSettled | RCanceled | RChargebacked

definition rcv_status_string :: "rcv_status \<Rightarrow> string" where
  "rcv_status_string s = (case s of
       RScheduled \<Rightarrow> ''SCHEDULED'' | RAnticipated \<Rightarrow> ''ANTICIPATED'' | RSettled \<Rightarrow> ''SETTLED''
     | RCanceled \<Rightarrow> ''CANCELED'' | RChargebacked \<Rightarrow> ''CHARGEBACKED'')"

definition rcv_transitions :: "rcv_status \<Rightarrow> rcv_status list" where
  "rcv_transitions s = (case s of
       RScheduled \<Rightarrow> [RAnticipated, RSettled, RCanceled, RChargebacked]
     | RAnticipated \<Rightarrow> [RSettled, RChargebacked]
     | _ \<Rightarrow> [])"

record receivable =
  rcv_id :: string
  rcv_transactionID :: string
  rcv_merchantID :: string
  rcv_installmentNo :: int
  rcv_installments :: int
  rcv_product :: product
  rcv_brand :: string
  rcv_gross :: money
  rcv_fee :: money
  rcv_net :: money
  rcv_dueDate :: time
  rcv_status :: rcv_status
  rcv_settlementID :: string
  rcv_anticipationID :: string
  rcv_version :: int
  rcv_createdAt :: time
  rcv_updatedAt :: time

definition newReceivable ::
  "string \<Rightarrow> string \<Rightarrow> string \<Rightarrow> int \<Rightarrow> int \<Rightarrow> product \<Rightarrow> string \<Rightarrow> money \<Rightarrow> money \<Rightarrow> time \<Rightarrow> time \<Rightarrow> receivable" where
  "newReceivable uuid transactionID merchantID installmentNo installments product brand gross fee dueDate now =
     \<lparr>rcv_id = NewID uuid ''rcv'', rcv_transactionID = transactionID, rcv_merchantID = merchantID,
      rcv_installmentNo = installmentNo, rcv_installments = installments, rcv_product = product,
      rcv_brand = brand, rcv_gross = gross, rcv_fee = fee, rcv_net = gross - fee,
      rcv_dueDate = DateOnly dueDate, rcv_status = RScheduled, rcv_settlementID = '''',
      rcv_anticipationID = '''', rcv_version = 1, rcv_createdAt = now, rcv_updatedAt = now\<rparr>"

definition rcv_Restore ::
  "string \<Rightarrow> string \<Rightarrow> string \<Rightarrow> int \<Rightarrow> int \<Rightarrow> product \<Rightarrow> string \<Rightarrow> money \<Rightarrow> money \<Rightarrow> money \<Rightarrow> time
   \<Rightarrow> rcv_status \<Rightarrow> string \<Rightarrow> string \<Rightarrow> int \<Rightarrow> time \<Rightarrow> time \<Rightarrow> receivable" where
  "rcv_Restore i transactionID merchantID installmentNo installments product brand gross fee net
     dueDate status settlementID anticipationID version createdAt updatedAt =
     \<lparr>rcv_id = i, rcv_transactionID = transactionID, rcv_merchantID = merchantID,
      rcv_installmentNo = installmentNo, rcv_installments = installments, rcv_product = product,
      rcv_brand = brand, rcv_gross = gross, rcv_fee = fee, rcv_net = net, rcv_dueDate = dueDate,
      rcv_status = status, rcv_settlementID = settlementID, rcv_anticipationID = anticipationID,
      rcv_version = version, rcv_createdAt = createdAt, rcv_updatedAt = updatedAt\<rparr>"

definition rcv_transition :: "rcv_status \<Rightarrow> time \<Rightarrow> receivable \<Rightarrow> receivable result" where
  "rcv_transition to now r =
     (if to \<in> set (rcv_transitions (rcv_status r))
      then Inr (r\<lparr>rcv_status := to, rcv_version := rcv_version r + 1, rcv_updatedAt := now\<rparr>)
      else Inl (Errorf [rcv_id r, rcv_status_string (rcv_status r), rcv_status_string to]
             (Sentinel ErrInvalidTransition)))"

definition IsAnticipable :: "time \<Rightarrow> receivable \<Rightarrow> bool" where
  "IsAnticipable today r \<longleftrightarrow> rcv_status r = RScheduled \<and> rcv_dueDate r > DateOnly today"

text \<open>
  \<open>Sub\<close> saturates at the 64-bit nanosecond range (about 292 years). \<open>Hours() / 24\<close> is
  computed in floating point, exactly so for the whole days between two midnights.
\<close>

definition time_Sub :: "time \<Rightarrow> time \<Rightarrow> int" where
  "time_Sub t u = (if t - u > 2 ^ 63 - 1 then 2 ^ 63 - 1 else if t - u < - (2 ^ 63) then - (2 ^ 63) else t - u)"

definition DaysUntilDue :: "time \<Rightarrow> receivable \<Rightarrow> int" where
  "DaysUntilDue today r = time_Sub (rcv_dueDate r) (DateOnly today) sdiv nanos_per_day"

definition rcv_Anticipate :: "string \<Rightarrow> time \<Rightarrow> receivable \<Rightarrow> receivable result" where
  "rcv_Anticipate anticipationID now r =
     (case rcv_transition RAnticipated now r of
        Inl err \<Rightarrow> Inl err
      | Inr r1 \<Rightarrow> Inr (r1\<lparr>rcv_anticipationID := anticipationID\<rparr>))"

definition rcv_Settle :: "string \<Rightarrow> time \<Rightarrow> receivable \<Rightarrow> receivable result" where
  "rcv_Settle settlementID now r =
     (case rcv_transition RSettled now r of
        Inl err \<Rightarrow> Inl err
      | Inr r1 \<Rightarrow> Inr (r1\<lparr>rcv_settlementID := settlementID\<rparr>))"

definition rcv_Cancel :: "time \<Rightarrow> receivable \<Rightarrow> receivable result" where
  "rcv_Cancel now r = rcv_transition RCanceled now r"

definition rcv_Chargeback :: "time \<Rightarrow> receivable \<Rightarrow> receivable result" where
  "rcv_Chargeback now r = rcv_transition RChargebacked now r"

lemmas rcv_op_defs = rcv_Anticipate_def rcv_Settle_def rcv_Cancel_def rcv_Chargeback_def

section \<open>The schedule\<close>

definition due_date :: "business_calendar \<Rightarrow> product \<Rightarrow> time \<Rightarrow> int \<Rightarrow> time" where
  "due_date cal product captured k =
     (if product = Debit then AddBusinessDays cal captured 1
      else NextBusinessDay cal (AddDate captured 0 0 (30 * k)))"

definition Schedule ::
  "(nat \<Rightarrow> string) \<Rightarrow> transaction \<Rightarrow> fee_plan \<Rightarrow> business_calendar \<Rightarrow> time \<Rightarrow> receivable list result" where
  "Schedule uu tx plan cal now =
     (case (tx_status tx, tx_capturedAt tx) of
        (Captured, Some capturedAt) \<Rightarrow>
          (case MDR plan (tx_product tx) (tx_installments tx) of
             Inl err \<Rightarrow> Inl err
           | Inr mdr \<Rightarrow>
               (let n = tx_installments tx;
                    fee = ApplyBps (tx_amount tx) mdr;
                    grossParts = Split (tx_amount tx) n;
                    feeParts = Split fee n;
                    captured = DateOnly capturedAt
                in Inr (map (\<lambda>i. newReceivable (uu i) (tx_id tx) (tx_merchantID tx) (int i + 1) n
                            (tx_product tx) (Brand (tx_card tx)) (grossParts ! i) (feeParts ! i)
                            (due_date cal (tx_product tx) captured (int i + 1)) now)
                         [0..<nat n])))
      | _ \<Rightarrow> Inl (Sentinel ErrNotCaptured))"

section \<open>Units\<close>

record unit_key =
  key_merchant :: string
  key_brand :: string
  key_product :: product
  key_due :: time

record unit_total = unit_key +
  u_Total :: money
  u_Count :: int

definition rcv_key :: "receivable \<Rightarrow> unit_key" where
  "rcv_key r = \<lparr>key_merchant = rcv_merchantID r, key_brand = rcv_brand r,
                key_product = rcv_product r, key_due = rcv_dueDate r\<rparr>"

definition new_unit :: "receivable \<Rightarrow> unit_total" where
  "new_unit r = \<lparr>key_merchant = rcv_merchantID r, key_brand = rcv_brand r,
     key_product = rcv_product r, key_due = rcv_dueDate r, u_Total = rcv_net r, u_Count = 1\<rparr>"

fun group_loop :: "(unit_key \<rightharpoonup> nat) \<Rightarrow> unit_total list \<Rightarrow> receivable list \<Rightarrow> unit_total list" where
  "group_loop index units [] = units"
| "group_loop index units (r # rs) =
     (case index (rcv_key r) of
        Some i \<Rightarrow>
          (let u = units ! i
           in group_loop index
                (units[i := u\<lparr>u_Total := u_Total u + rcv_net r, u_Count := u_Count u + 1\<rparr>]) rs)
      | None \<Rightarrow> group_loop (index(rcv_key r \<mapsto> length units)) (units @ [new_unit r]) rs)"

definition GroupUnits :: "receivable list \<Rightarrow> unit_total list" where
  "GroupUnits rs = group_loop Map.empty [] rs"

section \<open>Filters, liens and the scheduling event\<close>

record list_filter =
  f_Status :: string
  f_From :: time
  f_To :: time
  f_Limit :: int

record lien =
  l_MerchantID :: string
  l_DueDate :: time
  l_Amount :: money
  l_CreditorName :: string
  l_Creditor :: bank_account

record receivables_scheduled =
  rs_base :: base_event
  rs_TransactionID :: string
  rs_MerchantID :: string
  rs_Count :: int
  rs_GrossTotal :: money
  rs_NetTotal :: money
  rs_FirstDueDate :: time
  rs_LastDueDate :: time

fun scheduled_loop :: "receivables_scheduled \<Rightarrow> receivable list \<Rightarrow> receivables_scheduled" where
  "scheduled_loop ev [] = ev"
| "scheduled_loop ev (r # rs) = scheduled_loop
     (ev\<lparr>rs_GrossTotal := rs_GrossTotal ev + rcv_gross r,
         rs_NetTotal := rs_NetTotal ev + rcv_net r,
         rs_FirstDueDate := (if rcv_dueDate r < rs_FirstDueDate ev then rcv_dueDate r else rs_FirstDueDate ev),
         rs_LastDueDate := (if rcv_dueDate r > rs_LastDueDate ev then rcv_dueDate r else rs_LastDueDate ev)\<rparr>) rs"

text \<open>The empty list panics (index out of range): None.\<close>

definition NewReceivablesScheduled :: "string \<Rightarrow> receivable list \<Rightarrow> time \<Rightarrow> receivables_scheduled option" where
  "NewReceivablesScheduled uuid rs now =
     (case rs of
        [] \<Rightarrow> None
      | r # _ \<Rightarrow> Some (scheduled_loop
          \<lparr>rs_base = NewBaseEvent uuid ''receivable.scheduled'' (rcv_transactionID r) now,
           rs_TransactionID = rcv_transactionID r, rs_MerchantID = rcv_merchantID r,
           rs_Count = int (length rs), rs_GrossTotal = 0, rs_NetTotal = 0,
           rs_FirstDueDate = rcv_dueDate r, rs_LastDueDate = rcv_dueDate r\<rparr> rs))"

section \<open>The state machine\<close>

inductive rcv_step :: "receivable \<Rightarrow> receivable \<Rightarrow> bool" where
  rcv_anticipate: "rcv_Anticipate i now r = Inr r' \<Longrightarrow> rcv_step r r'"
| rcv_settle: "rcv_Settle i now r = Inr r' \<Longrightarrow> rcv_step r r'"
| rcv_cancel: "rcv_Cancel now r = Inr r' \<Longrightarrow> rcv_step r r'"
| rcv_chargeback: "rcv_Chargeback now r = Inr r' \<Longrightarrow> rcv_step r r'"

inductive_cases rcv_stepE: "rcv_step r r'"

lemma rcv_transition_Inr [simp]:
  "rcv_transition to now r = Inr r' \<longleftrightarrow> to \<in> set (rcv_transitions (rcv_status r))
     \<and> r' = r\<lparr>rcv_status := to, rcv_version := rcv_version r + 1, rcv_updatedAt := now\<rparr>"
  by (auto simp: rcv_transition_def)

lemma rcv_edges:
  "RScheduled \<notin> set (rcv_transitions s)"
  "RAnticipated \<in> set (rcv_transitions s) \<longleftrightarrow> s = RScheduled"
  "RSettled \<in> set (rcv_transitions s) \<longleftrightarrow> s = RScheduled \<or> s = RAnticipated"
  "RCanceled \<in> set (rcv_transitions s) \<longleftrightarrow> s = RScheduled"
  "RChargebacked \<in> set (rcv_transitions s) \<longleftrightarrow> s = RScheduled \<or> s = RAnticipated"
  by (cases s; simp add: rcv_transitions_def)+

definition rcv_rank :: "rcv_status \<Rightarrow> nat" where
  "rcv_rank s = (case s of RScheduled \<Rightarrow> 2 | RAnticipated \<Rightarrow> 1 | _ \<Rightarrow> 0)"

lemma rcv_rank_descends: "to \<in> set (rcv_transitions s) \<Longrightarrow> rcv_rank to < rcv_rank s"
  by (cases s) (auto simp: rcv_transitions_def rcv_rank_def)

lemma rcv_step_edge: "rcv_step r r' \<Longrightarrow> rcv_status r' \<in> set (rcv_transitions (rcv_status r))"
  by (erule rcv_stepE) (auto simp: rcv_op_defs)

lemma rcv_step_version: "rcv_step r r' \<Longrightarrow> rcv_version r' = rcv_version r + 1"
  by (erule rcv_stepE) (auto simp: rcv_op_defs)

interpretation rcvm: transition_machine rcv_transitions rcv_rank rcv_status rcv_version rcv_step
  by unfold_locales (simp_all add: rcv_rank_descends rcv_step_edge rcv_step_version)

text \<open>What no operation changes: everything but status, references, version, update time.\<close>

definition rcv_identity :: "receivable \<Rightarrow> receivable" where
  "rcv_identity r = r\<lparr>rcv_status := RScheduled, rcv_settlementID := '''', rcv_anticipationID := '''',
     rcv_version := 0, rcv_updatedAt := 0\<rparr>"

lemma rcv_step_identity: "rcv_step r r' \<Longrightarrow> rcv_identity r' = rcv_identity r"
  by (erule rcv_stepE) (auto simp: rcv_op_defs rcv_identity_def)

text \<open>The references a status carries.\<close>

definition rcv_refs_ok :: "receivable \<Rightarrow> bool" where
  "rcv_refs_ok r \<longleftrightarrow> (rcv_anticipationID r \<noteq> [] \<longrightarrow> rcv_status r \<in> {RAnticipated, RSettled, RChargebacked})
     \<and> (rcv_settlementID r \<noteq> [] \<longrightarrow> rcv_status r = RSettled)"

lemma rcv_step_refs: "rcv_step r r' \<Longrightarrow> rcv_refs_ok r \<Longrightarrow> rcv_refs_ok r'"
  by (cases "rcv_status r"; erule rcv_stepE; clarsimp simp: rcv_op_defs rcv_edges; simp add: rcv_refs_ok_def)

text \<open>C26: a receivable changes at most twice: every sequence of its operations keeps its
  amounts, due date, transaction and merchant, counts the changes in its version, and
  leaves a settled, canceled or charged-back receivable alone; only an anticipated,
  settled or charged-back one refers to an anticipation, only a settled one to a
  settlement.\<close>

theorem rcv_lifecycle:
  assumes "(rcv_step ^^ k) r r'" "rcv_refs_ok r"
  shows "k \<le> 2 \<and> rcv_version r' = rcv_version r + int k \<and> rcv_identity r' = rcv_identity r
    \<and> rcv_refs_ok r' \<and> (rcv_status r \<in> {RSettled, RCanceled, RChargebacked} \<longrightarrow> r' = r)"
proof -
  have "rcv_rank (rcv_status r) \<le> 2" by (simp add: rcv_rank_def split: rcv_status.split)
  moreover have "rcv_identity r' = rcv_identity r"
    using assms(1) by (rule steps_invariant) (simp_all add: rcv_step_identity)
  moreover have "rcv_refs_ok r'"
    using assms by (rule steps_invariant) (simp add: rcv_step_refs)
  moreover have "r' = r" if "rcv_transitions (rcv_status r) = []"
    using rcvm.terminal_stays [OF that assms(1)] by simp
  ultimately show ?thesis
    using rcvm.steps_version [OF assms(1)] rcvm.steps_rank [OF assms(1)]
    by (auto simp: rcv_transitions_def)
qed

section \<open>The schedule: amounts\<close>

lemma Schedule_Inr:
  "Schedule uu tx plan cal now = Inr rs \<longleftrightarrow>
     (\<exists>c mdr. tx_status tx = Captured \<and> tx_capturedAt tx = Some c
        \<and> MDR plan (tx_product tx) (tx_installments tx) = Inr mdr
        \<and> rs = map (\<lambda>i. newReceivable (uu i) (tx_id tx) (tx_merchantID tx) (int i + 1) (tx_installments tx)
               (tx_product tx) (Brand (tx_card tx))
               (Split (tx_amount tx) (tx_installments tx) ! i)
               (Split (ApplyBps (tx_amount tx) mdr) (tx_installments tx) ! i)
               (due_date cal (tx_product tx) (DateOnly c) (int i + 1)) now)
             [0..<nat (tx_installments tx)])"
  by (auto simp: Schedule_def Let_def split: tx_status.splits option.splits)

lemma sum_list_Split: "0 < n \<Longrightarrow> (\<Sum>i\<leftarrow>[0..<nat n]. Split amt n ! i) = amt"
  using Sum_Split [of n amt] map_nth [of "Split amt n"]
  by (simp add: Sum_eq_sum_list length_Split)

text \<open>C18: the schedule of a captured transaction has one receivable per installment,
  numbered from one, each worth its gross part less its fee part; the gross amounts sum to
  the amount sold, the fees to the fee of the plan's rate and the nets to the difference,
  for every 64-bit amount. A transaction that is not captured gives \<open>ErrNotCaptured\<close>, one the
  plan does not price the plan's error.\<close>

theorem schedule_conserves:
  "(case Schedule uu tx plan cal now of
      Inl e \<Rightarrow> tx_status tx = Captured \<and> tx_capturedAt tx \<noteq> None
          \<and> MDR plan (tx_product tx) (tx_installments tx) = Inl e
        \<or> \<not> (tx_status tx = Captured \<and> tx_capturedAt tx \<noteq> None) \<and> e = Sentinel ErrNotCaptured
    | Inr rs \<Rightarrow> tx_status tx = Captured
        \<and> length rs = nat (tx_installments tx)
        \<and> map rcv_installmentNo rs = [1..tx_installments tx]
        \<and> list_all (\<lambda>r. rcv_net r = rcv_gross r - rcv_fee r \<and> rcv_status r = RScheduled
             \<and> rcv_transactionID r = tx_id tx \<and> rcv_merchantID r = tx_merchantID tx) rs
        \<and> (\<exists>mdr. MDR plan (tx_product tx) (tx_installments tx) = Inr mdr \<and>
            Sum (map rcv_gross rs) = tx_amount tx
            \<and> Sum (map rcv_fee rs) = ApplyBps (tx_amount tx) mdr
            \<and> Sum (map rcv_net rs) = tx_amount tx - ApplyBps (tx_amount tx) mdr))"
proof (cases "Schedule uu tx plan cal now")
  case (Inl e)
  then show ?thesis
    by (auto simp: Schedule_def Let_def split: tx_status.splits option.splits sum.splits)
next
  case (Inr rs)
  then obtain mdr where rs: "tx_status tx = Captured" "MDR plan (tx_product tx) (tx_installments tx) = Inr mdr"
    and eqs: "map rcv_gross rs = map (\<lambda>i. Split (tx_amount tx) (tx_installments tx) ! i) [0..<nat (tx_installments tx)]"
      "map rcv_fee rs = map (\<lambda>i. Split (ApplyBps (tx_amount tx) mdr) (tx_installments tx) ! i) [0..<nat (tx_installments tx)]"
      "map rcv_net rs = map (\<lambda>i. Split (tx_amount tx) (tx_installments tx) ! i
          - Split (ApplyBps (tx_amount tx) mdr) (tx_installments tx) ! i) [0..<nat (tx_installments tx)]"
      "map rcv_installmentNo rs = map (\<lambda>i. int i + 1) [0..<nat (tx_installments tx)]"
      "list_all (\<lambda>r. rcv_net r = rcv_gross r - rcv_fee r \<and> rcv_status r = RScheduled
             \<and> rcv_transactionID r = tx_id tx \<and> rcv_merchantID r = tx_merchantID tx) rs"
      "length rs = nat (tx_installments tx)"
    unfolding Schedule_Inr by (auto simp: newReceivable_def o_def list_all_iff)
  have "map (\<lambda>i. int i + 1) [0..<nat (tx_installments tx)] = [1..tx_installments tx]"
    by (rule nth_equalityI) auto
  moreover have "0 < tx_installments tx" using rs(2) by (auto simp: MDR_cases)
  ultimately show ?thesis
    using rs eqs by (simp add: Inr Sum_eq_sum_list sum_list_Split sum_list_subtractf)
qed

section \<open>The schedule: due dates\<close>

context calendar_contract
begin

lemma due_business: "IsBusinessDay cal (due_date cal p c k) \<and> midnight (due_date cal p c k)"
  by (simp add: due_date_def next_business next_midnight add_business add_midnight)

lemma due_after: "midnight c \<Longrightarrow> 0 < k \<Longrightarrow> c < due_date cal p c k"
proof (cases p)
  case Debit
  assume "midnight c"
  then show ?thesis using add_after [of 1 c] by (simp add: due_date_def Debit)
next
  case Credit
  assume c: "midnight c" and k: "0 < k"
  have "c < c + 30 * k * nanos_per_day" using k nanos_per_day_pos by simp
  also have "\<dots> \<le> NextBusinessDay cal (c + 30 * k * nanos_per_day)"
    using next_not_before [of "c + 30 * k * nanos_per_day"] c by simp
  finally show ?thesis by (simp add: due_date_def Credit AddDate_days)
qed

lemma due_mono: "midnight c \<Longrightarrow> k \<le> l \<Longrightarrow> due_date cal p c k \<le> due_date cal p c l"
proof (cases p)
  case Credit
  assume "midnight c" "k \<le> l"
  then have "DateOnly (c + 30 * k * nanos_per_day) \<le> DateOnly (c + 30 * l * nanos_per_day)"
    by (simp add: mult_right_mono)
  then show ?thesis by (simp add: due_date_def Credit AddDate_days next_mono)
qed (simp add: due_date_def)

lemma schedule_due:
  assumes "Schedule uu tx plan cal now = Inr rs" "tx_capturedAt tx = Some c"
  shows "\<forall>r \<in> set rs. IsBusinessDay cal (rcv_dueDate r) \<and> midnight (rcv_dueDate r)
           \<and> DateOnly c < rcv_dueDate r"
    and "sorted (map rcv_dueDate rs)"
proof -
  obtain mdr where rs: "rs = map (\<lambda>i. newReceivable (uu i) (tx_id tx) (tx_merchantID tx) (int i + 1)
      (tx_installments tx) (tx_product tx) (Brand (tx_card tx))
      (Split (tx_amount tx) (tx_installments tx) ! i)
      (Split (ApplyBps (tx_amount tx) mdr) (tx_installments tx) ! i)
      (due_date cal (tx_product tx) (DateOnly c) (int i + 1)) now) [0..<nat (tx_installments tx)]"
    using assms unfolding Schedule_Inr by auto
  have due: "map rcv_dueDate rs =
      map (\<lambda>i. due_date cal (tx_product tx) (DateOnly c) (int i + 1)) [0..<nat (tx_installments tx)]"
    by (simp add: rs newReceivable_def due_business o_def)
  show "sorted (map rcv_dueDate rs)"
    unfolding due by (simp add: sorted_iff_nth_mono due_mono)
  have "\<forall>d \<in> set (map rcv_dueDate rs). IsBusinessDay cal d \<and> midnight d \<and> DateOnly c < d"
    unfolding due by (simp add: due_business due_after)
  then show "\<forall>r \<in> set rs. IsBusinessDay cal (rcv_dueDate r) \<and> midnight (rcv_dueDate r)
           \<and> DateOnly c < rcv_dueDate r" by simp
qed

end

text \<open>C29: the receivables of a transaction captured at \<open>c\<close> fall due, in the Brazilian
  calendar, on business days after the day of capture, in the order of the
  installments; a debit sale is due exactly one business day after its capture.\<close>

theorem schedule_due_dates:
  assumes "Schedule uu tx plan BrazilCalendar now = Inr rs" "tx_capturedAt tx = Some c"
  shows "(\<forall>r \<in> set rs. bd_day (day_number (rcv_dueDate r)) \<and> midnight (rcv_dueDate r)
            \<and> DateOnly c < rcv_dueDate r)
    \<and> sorted (map rcv_dueDate rs)
    \<and> (tx_product tx = Debit \<longrightarrow> (\<forall>r \<in> set rs.
         {k \<in> {day_number c<..day_number (rcv_dueDate r)}. bd_day k} = {day_number (rcv_dueDate r)}))"
proof -
  have debit: "{k \<in> {day_number c<..day_number (rcv_dueDate r)}. bd_day k} = {day_number (rcv_dueDate r)}"
    if p: "tx_product tx = Debit" and r: "r \<in> set rs" for r
  proof -
    have due: "rcv_dueDate r = brazil_add_business_days (DateOnly c) 1"
      using assms r brazil.add_midnight [of 1 "DateOnly c"] unfolding Schedule_Inr
      by (auto simp: newReceivable_def due_date_def p)
    obtain k where k: "{k \<in> {day_number c<..day_number (rcv_dueDate r)}. bd_day k} = {k}"
      using add_loop_spec [of "DateOnly c" 1]
      by (auto simp: due brazil_add_business_days_def card_1_singleton_iff)
    have "bd_day (day_number (rcv_dueDate r))" "midnight (rcv_dueDate r)" "DateOnly c < rcv_dueDate r"
      using brazil.schedule_due(1) [OF assms] r by (simp_all add: brazil_is_business_day_day)
    then have "day_number (rcv_dueDate r) \<in> {k \<in> {day_number c<..day_number (rcv_dueDate r)}. bd_day k}"
      using midnight_less [of "DateOnly c" "rcv_dueDate r"] by simp
    then have "day_number (rcv_dueDate r) = k" unfolding k by simp
    with k show ?thesis by simp
  qed
  then show ?thesis
    using brazil.schedule_due [OF assms] by (simp add: brazil_is_business_day_day)
qed

section \<open>A captured sample sale\<close>

definition sample_uuids :: "nat \<Rightarrow> string" where
  "sample_uuids i = dec i"

lemma sample_uuids_distinct: "uuid_distinct sample_uuids"
proof -
  have "filter (\<lambda>c. c \<noteq> CHR ''-'') (dec i) = dec i" for i
    using dec_digits [of "CHR ''-''" i] by (intro filter_True) (auto simp: is_digit_def byte_def)
  moreover have "inj dec" by (rule injI) (metis undec_dec)
  ultimately show ?thesis by (simp add: uuid_distinct_def sample_uuids_def)
qed

definition sample_debit :: transaction where
  "sample_debit = sample_captured\<lparr>tx_product := Debit, tx_installments := 1\<rparr>"

definition sample_schedule :: "receivable list" where
  "sample_schedule = projr (Schedule sample_uuids sample_captured sample_plan BrazilCalendar 8)"

lemma sample_MDR: "MDR sample_plan Credit 3 = Inr 350" "MDR sample_plan Debit 1 = Inr 150"
  by (simp_all add: MDR_def sample_plan_def sample_rates_def fmlookup_of_list)

lemma sample_schedule: "Schedule sample_uuids sample_captured sample_plan BrazilCalendar 8 = Inr sample_schedule"
  by (simp add: sample_schedule_def Schedule_def sample_tx_defs sample_MDR)

theorem schedule_conserves_witness:
  "length sample_schedule = 3 \<and> Sum (map rcv_gross sample_schedule) = 100000
   \<and> Sum (map rcv_fee sample_schedule) = 3500"
  using schedule_conserves [where uu = sample_uuids and tx = sample_captured and plan = sample_plan
      and cal = BrazilCalendar and now = 8]
  by (simp add: sample_schedule, simp add: sample_tx_defs sample_MDR ApplyBps_def div64_def)

theorem schedule_due_dates_witness:
  "\<exists>rs. Schedule sample_uuids sample_debit sample_plan BrazilCalendar 8 = Inr rs
     \<and> sorted (map rcv_dueDate rs)"
proof -
  obtain rs where rs: "Schedule sample_uuids sample_debit sample_plan BrazilCalendar 8 = Inr rs"
    by (simp add: Schedule_def sample_debit_def sample_tx_defs sample_MDR)
  then show ?thesis
    using schedule_due_dates [OF rs, of 7] by (simp add: sample_debit_def sample_tx_defs)
qed

theorem rcv_lifecycle_witness:
  "\<exists>r. rcv_Cancel 9 (sample_schedule ! 0) = Inr r \<and> rcv_version r = 2"
proof -
  have new: "rcv_status (sample_schedule ! 0) = RScheduled" "rcv_version (sample_schedule ! 0) = 1"
    "rcv_refs_ok (sample_schedule ! 0)"
    by (simp_all add: sample_schedule_def Schedule_def sample_tx_defs sample_MDR newReceivable_def
        rcv_refs_ok_def Let_def)
  then obtain r where r: "rcv_Cancel 9 (sample_schedule ! 0) = Inr r"
    by (simp add: rcv_Cancel_def rcv_transition_def rcv_edges)
  then have "(rcv_step ^^ 1) (sample_schedule ! 0) r" using rcv_cancel by auto
  then show ?thesis using rcv_lifecycle [of 1] new r by fastforce
qed

section \<open>Fees below the installments\<close>

text \<open>Where the rate times the number of installments is at most 100\% (and the amount is
  below the overflow bound), every receivable is worth something between zero and its
  gross part: no installment is smaller than its fee.\<close>

theorem schedule_nets_nonneg:
  assumes "Schedule uu tx plan cal now = Inr rs" "r \<in> set rs"
    and "MDR plan (tx_product tx) (tx_installments tx) = Inr mdr"
    and "0 < sint (tx_amount tx)" "sint (tx_amount tx) < 2 ^ 63 div 10000"
    and "0 \<le> mdr" "mdr * tx_installments tx \<le> 10000" "tx_installments tx \<le> 12"
  shows "0 \<le> sint (rcv_fee r) \<and> sint (rcv_fee r) \<le> sint (rcv_gross r)
    \<and> sint (rcv_net r) = sint (rcv_gross r) - sint (rcv_fee r)
    \<and> 0 \<le> sint (rcv_net r) \<and> sint (rcv_net r) \<le> sint (rcv_gross r)"
proof -
  let ?n = "tx_installments tx"
  obtain i where i: "i < nat ?n" "rcv_gross r = Split (tx_amount tx) ?n ! i"
    "rcv_fee r = Split (ApplyBps (tx_amount tx) mdr) ?n ! i" "rcv_net r = rcv_gross r - rcv_fee r"
    using assms(1-3) unfolding Schedule_Inr by (auto simp: newReceivable_def)
  have n: "0 < ?n" using assms(3) by (auto simp: MDR_cases)
  have b: "0 \<le> sint (rcv_fee r)" "sint (rcv_fee r) \<le> sint (rcv_gross r)"
    using split_net_nonneg [of "tx_amount tx" ?n mdr i] assms(4-8) n i by simp_all
  then have "sint (rcv_net r) = sint (rcv_gross r) - sint (rcv_fee r)"
    using sint_in_range64 [of "rcv_gross r"] unfolding i(4) by (subst sint_sub64) (simp_all add: in_range64_def)
  with b show ?thesis by simp
qed

theorem schedule_nets_nonneg_witness:
  "0 \<le> sint (rcv_net (sample_schedule ! 1))"
proof -
  have "sample_schedule ! 1 \<in> set sample_schedule"
    using sample_schedule by (intro nth_mem) (auto simp: sample_schedule_def Schedule_def sample_tx_defs sample_MDR Let_def)
  then show ?thesis
    using schedule_nets_nonneg [OF sample_schedule, of "sample_schedule ! 1" 350]
    by (simp add: sample_tx_defs sample_MDR)
qed

text \<open>
  Without that bound it fails: the first part of the fee carries its whole remainder. A
  sale of 1.20 in 12 installments at 9.2\% has a fee of 11 centavos; the first installment is
  worth 10 centavos and its fee part 11.
\<close>

lemma schedule_negative_net:
  "Split 120 12 ! 0 - Split (ApplyBps 120 920) 12 ! 0 = (-1 :: money)"
  by (simp add: Split_eq ApplyBps_def div64_def)

section \<open>Units and the scheduling event against their specification\<close>

definition unit_key_of :: "unit_total \<Rightarrow> unit_key" where
  "unit_key_of u = unit_key.truncate u"

lemma unit_key_of_simps [simp]:
  "unit_key_of (new_unit r) = rcv_key r"
  "unit_key_of (u\<lparr>u_Total := x, u_Count := n\<rparr>) = unit_key_of u"
  by (simp_all add: unit_key_of_def new_unit_def rcv_key_def unit_key.truncate_def)

text \<open>A unit sums up the receivables with its key.\<close>

definition unit_of :: "receivable list \<Rightarrow> unit_total \<Rightarrow> bool" where
  "unit_of ps u \<longleftrightarrow>
     u_Total u = (\<Sum>r\<leftarrow>filter (\<lambda>r. rcv_key r = unit_key_of u) ps. rcv_net r)
     \<and> u_Count u = int (length (filter (\<lambda>r. rcv_key r = unit_key_of u) ps))"

definition group_inv :: "receivable list \<Rightarrow> (unit_key \<rightharpoonup> nat) \<Rightarrow> unit_total list \<Rightarrow> bool" where
  "group_inv ps index units \<longleftrightarrow>
     (\<forall>k i. index k = Some i \<longleftrightarrow> i < length units \<and> unit_key_of (units ! i) = k)
     \<and> (\<forall>u \<in> set units. unit_of ps u)
     \<and> (\<forall>k. (\<exists>i. index k = Some i) \<longleftrightarrow> k \<in> rcv_key ` set ps)"

lemma group_inv_old:
  assumes inv: "group_inv ps index units" and idx: "index (rcv_key r) = Some i"
  shows "group_inv (ps @ [r]) index
    (units[i := (units ! i)\<lparr>u_Total := u_Total (units ! i) + rcv_net r, u_Count := u_Count (units ! i) + 1\<rparr>])"
proof -
  let ?u = "(units ! i)\<lparr>u_Total := u_Total (units ! i) + rcv_net r, u_Count := u_Count (units ! i) + 1\<rparr>"
  have index: "\<And>k i. index k = Some i \<longleftrightarrow> i < length units \<and> unit_key_of (units ! i) = k"
    and old: "\<And>u. u \<in> set units \<Longrightarrow> unit_of ps u"
    and dom: "\<And>k. (\<exists>i. index k = Some i) \<longleftrightarrow> k \<in> rcv_key ` set ps"
    using inv unfolding group_inv_def by blast+
  have i: "i < length units" "unit_key_of (units ! i) = rcv_key r" using index idx by blast+
  have key: "unit_key_of (units[i := ?u] ! j) = unit_key_of (units ! j)" for j
    using i by (cases "j = i") simp_all
  have "unit_of (ps @ [r]) (units[i := ?u] ! j)" if "j < length units" for j
  proof (cases "j = i")
    case True
    then show ?thesis using old [of "units ! i"] i by (simp add: unit_of_def)
  next
    case False
    have "unit_key_of (units ! j) \<noteq> rcv_key r"
      using index [of "rcv_key r" j] idx that False by auto
    then show ?thesis using old [of "units ! j"] that False by (simp add: unit_of_def)
  qed
  then have "\<forall>u \<in> set (units[i := ?u]). unit_of (ps @ [r]) u"
    by (metis in_set_conv_nth length_list_update)
  moreover have "(\<exists>i. index k = Some i) \<longleftrightarrow> k \<in> rcv_key ` set (ps @ [r])" for k
    using dom [of k] idx by auto
  ultimately show ?thesis
    unfolding group_inv_def key length_list_update using index by blast
qed

lemma group_inv_new:
  assumes inv: "group_inv ps index units" and idx: "index (rcv_key r) = None"
  shows "group_inv (ps @ [r]) (index(rcv_key r \<mapsto> length units)) (units @ [new_unit r])"
proof -
  have index: "\<And>k i. index k = Some i \<longleftrightarrow> i < length units \<and> unit_key_of (units ! i) = k"
    and old: "\<And>u. u \<in> set units \<Longrightarrow> unit_of ps u"
    and dom: "\<And>k. (\<exists>i. index k = Some i) \<longleftrightarrow> k \<in> rcv_key ` set ps"
    using inv unfolding group_inv_def by blast+
  have fresh: "rcv_key r \<notin> rcv_key ` set ps" using dom [of "rcv_key r"] idx by auto
  then have none: "filter (\<lambda>r'. rcv_key r' = rcv_key r) ps = []"
    unfolding filter_empty_conv by (metis imageI)
  have "unit_of (ps @ [r]) (new_unit r)"
    by (simp add: unit_of_def none) (simp add: new_unit_def)
  moreover have "unit_of (ps @ [r]) u" if "u \<in> set units" for u
  proof -
    have "unit_key_of u \<noteq> rcv_key r"
      using index idx that by (metis in_set_conv_nth not_Some_eq)
    then show ?thesis using old [OF that] by (simp add: unit_of_def)
  qed
  moreover have "(index(rcv_key r \<mapsto> length units)) k = Some i \<longleftrightarrow>
      i < length (units @ [new_unit r]) \<and> unit_key_of ((units @ [new_unit r]) ! i) = k" for k i
    using index [of k i] idx by (auto simp: nth_append less_Suc_eq)
  moreover have "(\<exists>i. (index(rcv_key r \<mapsto> length units)) k = Some i) \<longleftrightarrow> k \<in> rcv_key ` set (ps @ [r])" for k
    using dom [of k] by auto
  ultimately show ?thesis unfolding group_inv_def by (simp add: ball_Un)
qed

lemma group_loop_inv:
  "group_inv ps index units \<Longrightarrow> \<exists>index'. group_inv (ps @ rs) index' (group_loop index units rs)"
proof (induction rs arbitrary: ps index units)
  case (Cons r rs)
  show ?case
  proof (cases "index (rcv_key r)")
    case None
    then show ?thesis using Cons.IH [OF group_inv_new [OF Cons.prems None]] by (simp add: fun_upd_def)
  next
    case (Some i)
    then show ?thesis using Cons.IH [OF group_inv_old [OF Cons.prems Some]] by (simp add: Let_def)
  qed
qed auto

lemma group_inv_distinct:
  assumes "group_inv ps index units"
  shows "distinct (map unit_key_of units)" and "set (map unit_key_of units) = rcv_key ` set ps"
proof -
  have index: "\<And>k i. index k = Some i \<longleftrightarrow> i < length units \<and> unit_key_of (units ! i) = k"
    and dom: "\<And>k. (\<exists>i. index k = Some i) \<longleftrightarrow> k \<in> rcv_key ` set ps"
    using assms unfolding group_inv_def by blast+
  show "distinct (map unit_key_of units)"
    unfolding distinct_conv_nth length_map using index by (metis nth_map option.inject)
  have "k \<in> set (map unit_key_of units) \<longleftrightarrow> (\<exists>i. index k = Some i)" for k
    unfolding index in_set_conv_nth by (metis length_map nth_map)
  then show "set (map unit_key_of units) = rcv_key ` set ps" using dom by blast
qed

lemma sum_by_keys:
  fixes f :: "'a \<Rightarrow> 'b :: comm_monoid_add"
  assumes "distinct ks" "key ` set xs \<subseteq> set ks"
  shows "(\<Sum>k\<leftarrow>ks. \<Sum>x\<leftarrow>filter (\<lambda>x. key x = k) xs. f x) = (\<Sum>x\<leftarrow>xs. f x)"
  using assms(2)
proof (induction xs)
  case (Cons x xs)
  have "(\<Sum>k\<leftarrow>ks. \<Sum>y\<leftarrow>filter (\<lambda>y. key y = k) (x # xs). f y)
      = (\<Sum>k\<leftarrow>ks. (if k = key x then f x else 0) + (\<Sum>y\<leftarrow>filter (\<lambda>y. key y = k) xs. f y))"
    by (rule arg_cong [where f = sum_list]) (auto intro: map_cong)
  also have "\<dots> = (\<Sum>k\<leftarrow>ks. if k = key x then f x else 0) + (\<Sum>y\<leftarrow>xs. f y)"
    using Cons by (simp add: sum_list_addf)
  also have "(\<Sum>k\<leftarrow>ks. if k = key x then f x else 0) = f x"
    using Cons.prems assms(1) by (simp add: sum_list_distinct_conv_sum_set)
  finally show ?case by simp
qed simp

text \<open>\<open>GroupUnits\<close> makes one unit per merchant, brand, product and due date that occurs;
  each holds the number and the net total of exactly the receivables with its key, and the
  units' totals sum to the net total of the list.\<close>

theorem group_units_correct:
  "distinct (map unit_key_of (GroupUnits rs))
   \<and> set (map unit_key_of (GroupUnits rs)) = rcv_key ` set rs
   \<and> list_all (unit_of rs) (GroupUnits rs)
   \<and> Sum (map u_Total (GroupUnits rs)) = Sum (map rcv_net rs)"
proof -
  have "group_inv [] Map.empty []" by (simp add: group_inv_def)
  then obtain index where inv: "group_inv rs index (GroupUnits rs)"
    using group_loop_inv [of "[]" Map.empty "[]" rs] by (auto simp: GroupUnits_def)
  have all: "list_all (unit_of rs) (GroupUnits rs)" using inv by (simp add: group_inv_def list_all_iff)
  have "map u_Total (GroupUnits rs) =
      map (\<lambda>u. \<Sum>r\<leftarrow>filter (\<lambda>r. rcv_key r = unit_key_of u) rs. rcv_net r) (GroupUnits rs)"
    using all by (simp add: unit_of_def list_all_iff)
  also have "sum_list \<dots> = (\<Sum>r\<leftarrow>rs. rcv_net r)"
    using sum_by_keys [of "map unit_key_of (GroupUnits rs)" rcv_key rs rcv_net]
      group_inv_distinct [OF inv] by (simp add: o_def)
  finally have tot: "(\<Sum>u\<leftarrow>GroupUnits rs. u_Total u) = (\<Sum>r\<leftarrow>rs. rcv_net r)" .
  show ?thesis using group_inv_distinct [OF inv] all tot by (simp add: Sum_eq_sum_list)
qed

lemma scheduled_loop_eq:
  "scheduled_loop ev rs = ev\<lparr>
     rs_GrossTotal := rs_GrossTotal ev + (\<Sum>r\<leftarrow>rs. rcv_gross r),
     rs_NetTotal := rs_NetTotal ev + (\<Sum>r\<leftarrow>rs. rcv_net r),
     rs_FirstDueDate := Min (insert (rs_FirstDueDate ev) (rcv_dueDate ` set rs)),
     rs_LastDueDate := Max (insert (rs_LastDueDate ev) (rcv_dueDate ` set rs))\<rparr>"
proof (induction rs arbitrary: ev)
  case (Cons r rs)
  have mn: "(if rcv_dueDate r < d then rcv_dueDate r else d) = min (rcv_dueDate r) d" for d by auto
  have mx: "(if rcv_dueDate r > d then rcv_dueDate r else d) = max (rcv_dueDate r) d" for d by auto
  have "Min (insert (min a b) A) = Min (insert b (insert a A))"
    "Max (insert (max a b) A) = Max (insert b (insert a A))" if "finite A" for a b :: int and A
    using that by (cases "A = {}"; simp add: min.left_commute min.commute min.assoc
        max.left_commute max.commute max.assoc)+
  then show ?case by (simp add: Cons mn mx add.assoc)
qed simp

text \<open>The scheduling event of a non-empty list carries its length, its gross and net totals
  and its first and last due date; on the empty list the code panics.\<close>

theorem scheduled_event_correct:
  "NewReceivablesScheduled uuid rs now =
     (if rs = [] then None
      else Some \<lparr>rs_base = NewBaseEvent uuid ''receivable.scheduled'' (rcv_transactionID (hd rs)) now,
           rs_TransactionID = rcv_transactionID (hd rs), rs_MerchantID = rcv_merchantID (hd rs),
           rs_Count = int (length rs), rs_GrossTotal = Sum (map rcv_gross rs),
           rs_NetTotal = Sum (map rcv_net rs), rs_FirstDueDate = Min (set (map rcv_dueDate rs)),
           rs_LastDueDate = Max (set (map rcv_dueDate rs))\<rparr>)"
  by (cases rs) (simp_all add: NewReceivablesScheduled_def scheduled_loop_eq Sum_eq_sum_list insert_absorb
      del: scheduled_loop.simps)

lemma Schedule_members:
  assumes "Schedule uu tx plan cal now = Inr rs" "r \<in> set rs"
  shows "rcv_transactionID r = tx_id tx \<and> rcv_merchantID r = tx_merchantID tx \<and> rcv_status r = RScheduled
    \<and> rcv_settlementID r = '''' \<and> rcv_anticipationID r = '''' \<and> rcv_version r = 1
    \<and> rcv_net r = rcv_gross r - rcv_fee r"
  using assms unfolding Schedule_Inr by (auto simp: newReceivable_def)

lemma sample_nets: "map rcv_net sample_schedule = [32166, 32167, 32167]"
proof -
  have "Split 100000 3 = [33334, 33333, 33333]" "Split (ApplyBps 100000 350) 3 = [1168, 1166, 1166]"
    by (simp_all add: Split_eq ApplyBps_def div64_def numeral_eq_Suc)
  then show ?thesis
    by (simp add: sample_schedule_def Schedule_def sample_tx_defs sample_MDR newReceivable_def Let_def
        upt_rec numeral_eq_Suc)
qed

end
