(* ===== verification/Anticipation.thy ===== *)
theory Anticipation
  imports Receivable
begin

text \<open>
  \<open>internal/domain/anticipation\<close>: simulating and confirming an anticipation
  (\<open>anticipation.go\<close>) and the guards of the compound pricer (\<open>pricing.go\<close>). A \<open>Pricer\<close> is
  an argument of \<open>Simulate\<close>, as in the code: a function of the net amount, the days and
  the monthly rate. The floating-point formula of \<open>CompoundPricer\<close> is an argument too
  (\<open>disc\<close>), which the theory \<open>Pricing\<close> fills in.
\<close>

datatype ant_status = ASimulated | AConfirmed

definition ant_status_string :: "ant_status \<Rightarrow> string" where
  "ant_status_string s = (case s of ASimulated \<Rightarrow> ''SIMULATED'' | AConfirmed \<Rightarrow> ''CONFIRMED'')"

record ant_item =
  it_ReceivableID :: string
  it_DueDate :: time
  it_Days :: int
  it_Net :: money
  it_PresentValue :: money
  it_Discount :: money

record ant_confirmed =
  ac_base :: base_event
  ac_AnticipationID :: string
  ac_MerchantID :: string
  ac_Gross :: money
  ac_Discount :: money
  ac_Net :: money
  ac_ReceivableIDs :: "string list"

record anticipation =
  ant_id :: string
  ant_merchantID :: string
  ant_items :: "ant_item list"
  ant_gross :: money
  ant_discount :: money
  ant_net :: money
  ant_rateMonth :: int
  ant_requestedAt :: time
  ant_status :: ant_status
  ant_version :: int
  ant_events :: "ant_confirmed list"

type_synonym pricer = "money \<Rightarrow> int \<Rightarrow> int \<Rightarrow> money"

definition CompoundPricer :: "pricer \<Rightarrow> pricer" where
  "CompoundPricer disc net days rateMonth =
     (if days \<le> 0 \<or> rateMonth = 0 then net else disc net days rateMonth)"

text \<open>\<open>t.Format("2006-01-02")\<close>.\<close>

definition format_date :: "time \<Rightarrow> string" where
  "format_date t =
     (if Year t < 0 then ''-'' @ dec_pad 4 (nat (- Year t)) else dec_pad 4 (nat (Year t)))
     @ ''-'' @ dec_pad 2 (nat (Month t)) @ ''-'' @ dec_pad 2 (nat (Day t))"

fun simulate_loop :: "pricer \<Rightarrow> time \<Rightarrow> anticipation \<Rightarrow> receivable list \<Rightarrow> anticipation result" where
  "simulate_loop pv today a [] = Inr a"
| "simulate_loop pv today a (r # rs) =
     (if rcv_merchantID r \<noteq> ant_merchantID a
      then Inl (Errorf [rcv_id r] (Sentinel ErrAntWrongMerchant))
      else if \<not> IsAnticipable today r
      then Inl (Errorf [rcv_id r, rcv_status_string (rcv_status r), format_date (rcv_dueDate r)]
             (Sentinel ErrNotAnticipable))
      else let days = DaysUntilDue today r;
               v = pv (rcv_net r) days (ant_rateMonth a)
           in simulate_loop pv today
                (a\<lparr>ant_items := ant_items a @ [\<lparr>it_ReceivableID = rcv_id r, it_DueDate = rcv_dueDate r,
                      it_Days = days, it_Net = rcv_net r, it_PresentValue = v,
                      it_Discount = rcv_net r - v\<rparr>],
                   ant_gross := ant_gross a + rcv_net r, ant_net := ant_net a + v\<rparr>) rs)"

definition Simulate ::
  "string \<Rightarrow> string \<Rightarrow> receivable list \<Rightarrow> time \<Rightarrow> int \<Rightarrow> pricer \<Rightarrow> anticipation result" where
  "Simulate uuid merchantID receivables today rateMonth pv =
     (if length receivables = 0 then Inl (Sentinel ErrNoReceivables)
      else case simulate_loop pv today
             \<lparr>ant_id = NewID uuid ''ant'', ant_merchantID = merchantID, ant_items = [], ant_gross = 0,
              ant_discount = 0, ant_net = 0, ant_rateMonth = rateMonth, ant_requestedAt = today,
              ant_status = ASimulated, ant_version = 1, ant_events = []\<rparr> receivables of
        Inl err \<Rightarrow> Inl err
      | Inr a \<Rightarrow> Inr (a\<lparr>ant_discount := ant_gross a - ant_net a\<rparr>))"

text \<open>
  \<open>Confirm\<close> changes the receivables it is given one by one and stops at the first error, so
  it returns the error, the anticipation and the receivables as it leaves them.
\<close>

fun confirm_loop :: "string \<Rightarrow> time \<Rightarrow> receivable list \<Rightarrow> go_error option \<times> receivable list" where
  "confirm_loop i now [] = (None, [])"
| "confirm_loop i now (r # rs) =
     (case rcv_Anticipate i now r of
        Inl err \<Rightarrow> (Some err, r # rs)
      | Inr r' \<Rightarrow> (let (err, rs') = confirm_loop i now rs in (err, r' # rs')))"

definition ant_Confirm ::
  "string \<Rightarrow> receivable list \<Rightarrow> time \<Rightarrow> anticipation \<Rightarrow> go_error option \<times> anticipation \<times> receivable list" where
  "ant_Confirm uuid receivables now a =
     (if ant_status a = AConfirmed then (Some (Sentinel ErrAlreadyDone), a, receivables)
      else if length receivables \<noteq> length (ant_items a)
      then (Some (Sentinel ErrNotAnticipable), a, receivables)
      else case confirm_loop (ant_id a) now receivables of
        (Some err, rs) \<Rightarrow> (Some err, a, rs)
      | (None, rs) \<Rightarrow>
          (None, a\<lparr>ant_status := AConfirmed, ant_version := ant_version a + 1,
             ant_events := ant_events a @ [\<lparr>ac_base = NewBaseEvent uuid ''receivable.anticipated'' (ant_id a) now,
               ac_AnticipationID = ant_id a, ac_MerchantID = ant_merchantID a, ac_Gross = ant_gross a,
               ac_Discount = ant_discount a, ac_Net = ant_net a, ac_ReceivableIDs = map rcv_id receivables\<rparr>]\<rparr>, rs))"

definition ant_Restore ::
  "string \<Rightarrow> string \<Rightarrow> ant_item list \<Rightarrow> money \<Rightarrow> money \<Rightarrow> money \<Rightarrow> int \<Rightarrow> time \<Rightarrow> ant_status \<Rightarrow> int \<Rightarrow> anticipation" where
  "ant_Restore i merchantID items gross discount net rateMonth requestedAt status version =
     \<lparr>ant_id = i, ant_merchantID = merchantID, ant_items = items, ant_gross = gross,
      ant_discount = discount, ant_net = net, ant_rateMonth = rateMonth,
      ant_requestedAt = requestedAt, ant_status = status, ant_version = version, ant_events = []\<rparr>"

definition ant_PullEvents :: "anticipation \<Rightarrow> ant_confirmed list \<times> anticipation" where
  "ant_PullEvents a = (ant_events a, a\<lparr>ant_events := []\<rparr>)"

definition ant_ReceivableIDs :: "anticipation \<Rightarrow> string list" where
  "ant_ReceivableIDs a = map it_ReceivableID (ant_items a)"

section \<open>Simulating\<close>

text \<open>The item of a receivable.\<close>

definition ant_item_of :: "pricer \<Rightarrow> time \<Rightarrow> int \<Rightarrow> receivable \<Rightarrow> ant_item" where
  "ant_item_of pv today rate r =
     \<lparr>it_ReceivableID = rcv_id r, it_DueDate = rcv_dueDate r, it_Days = DaysUntilDue today r,
      it_Net = rcv_net r, it_PresentValue = pv (rcv_net r) (DaysUntilDue today r) rate,
      it_Discount = rcv_net r - pv (rcv_net r) (DaysUntilDue today r) rate\<rparr>"

lemma simulate_loop_Inr:
  "simulate_loop pv today a rs = Inr a' \<longleftrightarrow>
     (\<forall>r \<in> set rs. rcv_merchantID r = ant_merchantID a \<and> IsAnticipable today r)
     \<and> a' = a\<lparr>ant_items := ant_items a @ map (ant_item_of pv today (ant_rateMonth a)) rs,
             ant_gross := ant_gross a + (\<Sum>r\<leftarrow>rs. rcv_net r),
             ant_net := ant_net a
               + (\<Sum>r\<leftarrow>rs. pv (rcv_net r) (DaysUntilDue today r) (ant_rateMonth a))\<rparr>"
  by (induction rs arbitrary: a)
    (auto simp: Let_def ant_item_of_def add.assoc)

lemma simulate_loop_Inl:
  assumes "simulate_loop pv today a rs = Inl e"
  obtains r where "r \<in> set rs"
    "rcv_merchantID r \<noteq> ant_merchantID a \<and> errors_Is e ErrAntWrongMerchant
     \<or> rcv_merchantID r = ant_merchantID a \<and> \<not> IsAnticipable today r \<and> errors_Is e ErrNotAnticipable"
  using assms
proof (induction rs arbitrary: a thesis)
  case (Cons r rs)
  show ?case
  proof (cases "rcv_merchantID r = ant_merchantID a \<and> IsAnticipable today r")
    case True
    then obtain a' where a': "simulate_loop pv today a' rs = Inl e" "ant_merchantID a' = ant_merchantID a"
      using Cons.prems(2) by (simp add: Let_def)
    obtain r' where "r' \<in> set rs"
      "rcv_merchantID r' \<noteq> ant_merchantID a \<and> errors_Is e ErrAntWrongMerchant
       \<or> rcv_merchantID r' = ant_merchantID a \<and> \<not> IsAnticipable today r' \<and> errors_Is e ErrNotAnticipable"
      using Cons.IH [OF _ a'(1)] unfolding a'(2) by blast
    then show ?thesis using Cons.prems(1) by (meson list.set_intros(2))
  next
    case False
    then show ?thesis using Cons.prems by (intro Cons.prems(1) [of r]) (auto split: if_splits)
  qed
qed simp

text \<open>C32: \<open>Simulate\<close> succeeds exactly on a non-empty list of scheduled receivables of the
  merchant, all due after today; the items price them one by one, and the anticipation's
  gross, net and discount are the sums of the items' net, present value and discount, so
  that the gross is the net plus the discount. On any other list it returns an error: for
  a receivable of another merchant, or for one that is not anticipable.\<close>

theorem simulate_correct:
  "(case Simulate uuid mid rs today rate pv of
      Inr a \<Rightarrow> rs \<noteq> [] \<and> (\<forall>r \<in> set rs. rcv_merchantID r = mid \<and> rcv_status r = RScheduled
           \<and> DateOnly today < rcv_dueDate r)
        \<and> ant_items a = map (ant_item_of pv today rate) rs
        \<and> ant_gross a = Sum (map rcv_net rs)
        \<and> ant_net a = Sum (map it_PresentValue (ant_items a))
        \<and> ant_discount a = Sum (map it_Discount (ant_items a))
        \<and> ant_gross a = ant_net a + ant_discount a
        \<and> ant_status a = ASimulated \<and> ant_merchantID a = mid \<and> ant_events a = []
    | Inl e \<Rightarrow> rs = [] \<and> e = Sentinel ErrNoReceivables
        \<or> (\<exists>r \<in> set rs. rcv_merchantID r \<noteq> mid \<and> errors_Is e ErrAntWrongMerchant
            \<or> rcv_merchantID r = mid \<and> \<not> IsAnticipable today r \<and> errors_Is e ErrNotAnticipable))"
proof (cases "Simulate uuid mid rs today rate pv")
  case (Inl e)
  show ?thesis
  proof (cases "rs = []")
    case False
    define a0 where "a0 = \<lparr>ant_id = NewID uuid ''ant'', ant_merchantID = mid, ant_items = [], ant_gross = 0,
              ant_discount = 0, ant_net = 0, ant_rateMonth = rate, ant_requestedAt = today,
              ant_status = ASimulated, ant_version = 1, ant_events = []\<rparr>"
    have "simulate_loop pv today a0 rs = Inl e"
      using Inl False by (simp add: Simulate_def a0_def [symmetric] split: sum.splits)
    then show ?thesis
      by (rule simulate_loop_Inl) (auto simp: Inl a0_def)
  qed (use Inl in \<open>simp add: Simulate_def\<close>)
next
  case (Inr a)
  then have rs: "rs \<noteq> []" "\<forall>r \<in> set rs. rcv_merchantID r = mid \<and> IsAnticipable today r"
    and a: "ant_items a = map (ant_item_of pv today rate) rs" "ant_gross a = sum_list (map rcv_net rs)"
      "ant_net a = (\<Sum>r\<leftarrow>rs. pv (rcv_net r) (DaysUntilDue today r) rate)"
      "ant_discount a = ant_gross a - ant_net a" "ant_status a = ASimulated" "ant_merchantID a = mid"
      "ant_events a = []"
    by (auto simp: Simulate_def simulate_loop_Inr split: if_splits)
  show ?thesis
    unfolding Inr using rs a
    by (auto simp: IsAnticipable_def Sum_eq_sum_list o_def ant_item_of_def sum_list_subtractf)
qed

lemma sample_schedule_facts:
  "r \<in> set sample_schedule \<Longrightarrow> rcv_merchantID r = ''m_1'' \<and> rcv_status r = RScheduled
     \<and> rcv_anticipationID r = '''' \<and> IsAnticipable 8 r"
proof -
  assume r: "r \<in> set sample_schedule"
  have cap: "tx_capturedAt sample_captured = Some 7" by (simp add: sample_tx_defs)
  have zero: "DateOnly 7 = 0" "DateOnly 8 = 0"
    by (simp_all add: DateOnly_eq day_number_def nanos_per_day_def)
  have "0 < rcv_dueDate r"
    using brazil.schedule_due(1) [OF sample_schedule cap] r by (simp add: zero)
  moreover have "rcv_merchantID r = ''m_1'' \<and> rcv_status r = RScheduled \<and> rcv_anticipationID r = ''''"
    using Schedule_members [OF sample_schedule r] by (simp add: sample_tx_defs)
  ultimately show ?thesis by (simp add: IsAnticipable_def zero)
qed

definition sample_pricer :: pricer where
  "sample_pricer = CompoundPricer (\<lambda>net days rate. net - 10)"

lemma sample_simulate: "\<exists>a. Simulate ''1'' ''m_1'' sample_schedule 8 200 sample_pricer = Inr a"
proof -
  have "sample_schedule \<noteq> []" using sample_schedule unfolding Schedule_Inr by (auto simp: sample_tx_defs)
  then show ?thesis using sample_schedule_facts by (simp add: Simulate_def simulate_loop_Inr)
qed

theorem simulate_correct_witness:
  "\<exists>a. Simulate ''1'' ''m_1'' sample_schedule 8 200 sample_pricer = Inr a
     \<and> ant_gross a = ant_net a + ant_discount a"
proof -
  obtain a where a: "Simulate ''1'' ''m_1'' sample_schedule 8 200 sample_pricer = Inr a"
    using sample_simulate by blast
  then show ?thesis
    using simulate_correct [where uuid = "''1''" and mid = "''m_1''" and rs = sample_schedule
      and today = 8 and rate = 200 and pv = sample_pricer] unfolding a sum.case by blast
qed

section \<open>What the merchant is paid\<close>

text \<open>With a price between zero and the net amount, an anticipation of receivables whose
  nets are not negative (and do not overflow together) pays the merchant something
  between zero and the gross: the discount is never negative and never exceeds it.\<close>

theorem simulate_discount_bounds:
  assumes "Simulate uuid mid rs today rate pv = Inr a"
    and "\<And>r. r \<in> set rs \<Longrightarrow> 0 \<le> sint (rcv_net r)" "(\<Sum>r\<leftarrow>rs. sint (rcv_net r)) < 2 ^ 63"
    and "\<And>net days. 0 \<le> sint net \<Longrightarrow> 0 \<le> sint (pv net days rate) \<and> sint (pv net days rate) \<le> sint net"
  shows "0 \<le> sint (ant_net a) \<and> sint (ant_net a) \<le> sint (ant_gross a)
    \<and> sint (ant_discount a) = sint (ant_gross a) - sint (ant_net a) \<and> 0 \<le> sint (ant_discount a)"
proof -
  let ?p = "\<lambda>r. pv (rcv_net r) (DaysUntilDue today r) rate"
  have a: "ant_gross a = (\<Sum>r\<leftarrow>rs. rcv_net r)" "ant_net a = (\<Sum>r\<leftarrow>rs. ?p r)"
    "ant_discount a = ant_gross a - ant_net a"
    using assms(1) by (auto simp: Simulate_def simulate_loop_Inr split: if_splits)
  have le: "(\<Sum>r\<leftarrow>rs. sint (?p r)) \<le> (\<Sum>r\<leftarrow>rs. sint (rcv_net r))"
    using assms(2,4) by (intro sum_list_mono) simp
  have g: "sint (ant_gross a) = (\<Sum>r\<leftarrow>rs. sint (rcv_net r))"
    unfolding a using assms(2,3) by (intro sum_list_sint) auto
  have n: "sint (ant_net a) = (\<Sum>r\<leftarrow>rs. sint (?p r))"
    unfolding a using assms(2-4) le by (intro sum_list_sint) auto
  have nn: "0 \<le> sint (ant_net a)" unfolding n using assms(2,4) by (intro sum_list_nonneg) auto
  have "sint (ant_discount a) = sint (ant_gross a) - sint (ant_net a)"
    unfolding a(3) using nn le sint_in_range64 [of "ant_gross a"]
    by (subst sint_sub64) (auto simp: g n in_range64_def)
  then show ?thesis using nn le g n by simp
qed

section \<open>Confirming\<close>

lemma confirm_loop_ok:
  "\<forall>r \<in> set rs. rcv_status r = RScheduled \<Longrightarrow>
     confirm_loop i now rs = (None, map (\<lambda>r. r\<lparr>rcv_status := RAnticipated,
       rcv_version := rcv_version r + 1, rcv_updatedAt := now, rcv_anticipationID := i\<rparr>) rs)"
  by (induction rs) (simp_all add: rcv_Anticipate_def rcv_transition_def rcv_edges)

lemma confirm_loop_err:
  "\<exists>r \<in> set rs. rcv_status r \<noteq> RScheduled \<Longrightarrow>
     \<exists>e rs'. confirm_loop i now rs = (Some e, rs') \<and> errors_Is e ErrInvalidTransition"
proof (induction rs)
  case (Cons r rs)
  show ?case
  proof (cases "rcv_status r = RScheduled")
    case True
    then obtain e rs' where "confirm_loop i now rs = (Some e, rs')" "errors_Is e ErrInvalidTransition"
      using Cons by auto
    then show ?thesis using True by (simp add: rcv_Anticipate_def rcv_transition_def rcv_edges)
  next
    case False
    then show ?thesis by (simp add: rcv_Anticipate_def rcv_transition_def rcv_edges)
  qed
qed simp

text \<open>Confirming a simulated anticipation with its receivables, all still scheduled, marks
  every one anticipated under the anticipation's id, confirms it and records one event with its totals and
  the receivables' ids; confirming again changes nothing and gives \<open>ErrAlreadyDone\<close>. With one
  receivable that is not scheduled, or another number of receivables, it gives an error and leaves the
  anticipation as it was.\<close>

theorem confirm_correct:
  assumes "ant_status a = ASimulated"
  shows "(case ant_Confirm uuid rs now a of
      (None, a', rs') \<Rightarrow> length rs = length (ant_items a) \<and> (\<forall>r \<in> set rs. rcv_status r = RScheduled)
        \<and> rs' = map (\<lambda>r. r\<lparr>rcv_status := RAnticipated, rcv_version := rcv_version r + 1,
               rcv_updatedAt := now, rcv_anticipationID := ant_id a\<rparr>) rs
        \<and> ant_status a' = AConfirmed \<and> ant_version a' = ant_version a + 1
        \<and> (\<exists>ev. ant_events a' = ant_events a @ [ev] \<and> ac_Gross ev = ant_gross a \<and> ac_Net ev = ant_net a
              \<and> ac_Discount ev = ant_discount a \<and> ac_ReceivableIDs ev = map rcv_id rs)
        \<and> (\<forall>now' uuid'. ant_Confirm uuid' rs' now' a' = (Some (Sentinel ErrAlreadyDone), a', rs'))
    | (Some e, a', rs') \<Rightarrow> a' = a
        \<and> (length rs \<noteq> length (ant_items a) \<and> e = Sentinel ErrNotAnticipable
          \<or> (\<exists>r \<in> set rs. rcv_status r \<noteq> RScheduled) \<and> errors_Is e ErrInvalidTransition))"
proof (cases "length rs = length (ant_items a)")
  case True
  show ?thesis
  proof (cases "\<forall>r \<in> set rs. rcv_status r = RScheduled")
    case True
    then show ?thesis
      using assms \<open>length rs = _\<close> by (simp add: ant_Confirm_def confirm_loop_ok)
  next
    case False
    then obtain e rs' where "confirm_loop (ant_id a) now rs = (Some e, rs')" "errors_Is e ErrInvalidTransition"
      using confirm_loop_err by blast
    then show ?thesis using assms False True by (simp add: ant_Confirm_def)
  qed
qed (use assms in \<open>simp add: ant_Confirm_def\<close>)

theorem confirm_correct_witness:
  "\<exists>a a' rs'. Simulate ''1'' ''m_1'' sample_schedule 8 200 sample_pricer = Inr a
     \<and> ant_Confirm ''2'' sample_schedule 9 a = (None, a', rs')
     \<and> list_all (\<lambda>r. rcv_status r = RAnticipated) rs'"
proof -
  obtain a where a: "Simulate ''1'' ''m_1'' sample_schedule 8 200 sample_pricer = Inr a"
    using sample_simulate by blast
  then have st: "ant_status a = ASimulated" "length sample_schedule = length (ant_items a)"
    by (auto simp: Simulate_def simulate_loop_Inr split: if_splits)
  have "fst (ant_Confirm ''2'' sample_schedule 9 a) = None"
    using st sample_schedule_facts by (simp add: ant_Confirm_def confirm_loop_ok)
  then show ?thesis
    using confirm_correct [OF st(1), where uuid = "''2''" and rs = sample_schedule and now = 9] a
    by (auto simp: list_all_iff split: prod.splits option.splits)
qed

theorem simulate_discount_bounds_witness:
  "\<exists>a. Simulate ''1'' ''m_1'' sample_schedule 8 0 sample_pricer = Inr a \<and> 0 \<le> sint (ant_discount a)"
proof -
  have nets: "rcv_net r \<in> {32166, 32167}" if "r \<in> set sample_schedule" for r
    using that sample_nets by (metis (no_types, lifting) image_eqI insert_iff list.set(1) list.set(2) list.set_map)
  have total: "(\<Sum>r\<leftarrow>sample_schedule. sint (rcv_net r)) = 96500"
    using arg_cong [OF sample_nets, of "\<lambda>ns. \<Sum>n\<leftarrow>ns. sint n"] by (simp add: o_def)
  have ne: "sample_schedule \<noteq> []" using sample_nets by auto
  then obtain a where a: "Simulate ''1'' ''m_1'' sample_schedule 8 0 sample_pricer = Inr a"
    using sample_schedule_facts by (simp add: Simulate_def simulate_loop_Inr)
  show ?thesis
    using simulate_discount_bounds [OF a] nets total a by (fastforce simp: sample_pricer_def CompoundPricer_def)
qed

end
