(* ===== verification/Settlement.thy ===== *)
theory Settlement
  imports Receivable Anticipation
begin

text \<open>
  \<open>internal/domain/settlement/settlement.go\<close>: building the payment orders of a merchant's
  receivables of one day, liens first, and the life of a settlement. Statuses and order
  kinds carry the prefix \<open>S\<close> and \<open>To\<close>. The settlement's UUID is \<open>uu 0\<close>, the orders draw
  \<open>uu 1\<close>, \<open>uu 2\<close> and so on.
\<close>

datatype stl_status = SPending | SSent | SConfirmed | SFailed

definition stl_status_string :: "stl_status \<Rightarrow> string" where
  "stl_status_string s = (case s of SPending \<Rightarrow> ''PENDING'' | SSent \<Rightarrow> ''SENT''
     | SConfirmed \<Rightarrow> ''CONFIRMED'' | SFailed \<Rightarrow> ''FAILED'')"

datatype order_kind = ToMerchant | ToCreditor

record order =
  o_ID :: string
  o_Kind :: order_kind
  o_Beneficiary :: string
  o_BankAccount :: bank_account
  o_Amount :: money

datatype stl_event =
    is_SettlementCompleted: SettlementCompleted (se_base: base_event) (se_settlementID: string) (se_merchantID: string)
      (se_date: time) (se_total: money) (se_toMerchant: money) (se_toCreditors: money)
      (se_retained: money) (se_receivableIDs: "string list")
  | SettlementFailed (se_base: base_event) (se_settlementID: string) (se_merchantID: string)
      (se_date: time) (se_reason: string) (se_receivableIDs: "string list")

record settlement =
  stl_id :: string
  stl_date :: time
  stl_merchantID :: string
  stl_total :: money
  stl_toMerchant :: money
  stl_toCreditors :: money
  stl_retained :: money
  stl_orders :: "order list"
  stl_receivableIDs :: "string list"
  stl_status :: stl_status
  stl_externalRef :: string
  stl_failureReason :: string
  stl_createdAt :: time
  stl_updatedAt :: time
  stl_version :: int
  stl_events :: "stl_event list"

fun build_receivables ::
  "string \<Rightarrow> time \<Rightarrow> money \<Rightarrow> settlement \<Rightarrow> receivable list \<Rightarrow> (money \<times> settlement) result" where
  "build_receivables mid day payable s [] = Inr (payable, s)"
| "build_receivables mid day payable s (r # rs) =
     (if rcv_merchantID r \<noteq> mid then Inl (Errorf [rcv_id r] (Sentinel ErrStlWrongMerchant))
      else if rcv_dueDate r \<noteq> day
      then Inl (Errorf [rcv_id r, format_date (rcv_dueDate r)] (Sentinel ErrWrongDay))
      else let s' = s\<lparr>stl_total := stl_total s + rcv_net r,
                      stl_receivableIDs := stl_receivableIDs s @ [rcv_id r]\<rparr>
           in case rcv_status r of
                RScheduled \<Rightarrow> build_receivables mid day (payable + rcv_net r) s' rs
              | RAnticipated \<Rightarrow>
                  build_receivables mid day payable
                    (s'\<lparr>stl_retained := stl_retained s' + rcv_net r\<rparr>) rs
              | _ \<Rightarrow> Inl (Errorf [rcv_id r, rcv_status_string (rcv_status r)] (Sentinel ErrWrongStatus)))"

fun build_liens ::
  "(nat \<Rightarrow> string) \<Rightarrow> nat \<Rightarrow> money \<Rightarrow> settlement \<Rightarrow> lien list \<Rightarrow> nat \<times> money \<times> settlement" where
  "build_liens uu k payable s [] = (k, payable, s)"
| "build_liens uu k payable s (l # ls) =
     (if payable = 0 then (k, payable, s)
      else let amount = (if payable <s l_Amount l then payable else l_Amount l)
           in build_liens uu (Suc k) (payable - amount)
                (s\<lparr>stl_orders := stl_orders s @ [\<lparr>o_ID = NewID (uu k) ''ord'', o_Kind = ToCreditor,
                     o_Beneficiary = l_CreditorName l, o_BankAccount = l_Creditor l, o_Amount = amount\<rparr>],
                   stl_toCreditors := stl_toCreditors s + amount\<rparr>) ls)"

definition Build ::
  "(nat \<Rightarrow> string) \<Rightarrow> time \<Rightarrow> merchant \<Rightarrow> receivable list \<Rightarrow> lien list \<Rightarrow> time \<Rightarrow> settlement result" where
  "Build uu date m receivables liens now =
     (if length receivables = 0 then Inl (Sentinel ErrNothingToSettle)
      else let day = DateOnly date;
               s = \<lparr>stl_id = NewID (uu 0) ''stl'', stl_date = day, stl_merchantID = m_id m,
                    stl_total = 0, stl_toMerchant = 0, stl_toCreditors = 0, stl_retained = 0,
                    stl_orders = [], stl_receivableIDs = [], stl_status = SPending,
                    stl_externalRef = '''', stl_failureReason = '''', stl_createdAt = now,
                    stl_updatedAt = now, stl_version = 1, stl_events = []\<rparr>
           in case build_receivables (m_id m) day 0 s receivables of
                Inl err \<Rightarrow> Inl err
              | Inr (payable, s1) \<Rightarrow>
                  (case build_liens uu 1 payable s1 liens of (k, payable', s2) \<Rightarrow>
                     Inr (if 0 <s payable'
                          then s2\<lparr>stl_orders := stl_orders s2 @ [\<lparr>o_ID = NewID (uu k) ''ord'',
                                    o_Kind = ToMerchant, o_Beneficiary = m_legalName m,
                                    o_BankAccount = m_bankAccount m, o_Amount = payable'\<rparr>],
                                  stl_toMerchant := payable'\<rparr>
                          else s2)))"

definition stl_refuse :: "settlement \<Rightarrow> stl_status \<Rightarrow> settlement result" where
  "stl_refuse s to = Inl (Errorf [stl_status_string (stl_status s), stl_status_string to]
     (Sentinel ErrInvalidTransition))"

definition MarkSent :: "string \<Rightarrow> time \<Rightarrow> settlement \<Rightarrow> settlement result" where
  "MarkSent externalRef now s =
     (if stl_status s \<noteq> SPending then stl_refuse s SSent
      else Inr (s\<lparr>stl_status := SSent, stl_externalRef := externalRef, stl_updatedAt := now,
                  stl_version := stl_version s + 1\<rparr>))"

definition MarkConfirmed :: "string \<Rightarrow> time \<Rightarrow> settlement \<Rightarrow> settlement result" where
  "MarkConfirmed uuid now s =
     (if stl_status s \<noteq> SSent then stl_refuse s SConfirmed
      else Inr (s\<lparr>stl_status := SConfirmed, stl_updatedAt := now, stl_version := stl_version s + 1,
                  stl_events := stl_events s @ [SettlementCompleted
                    (NewBaseEvent uuid ''settlement.completed'' (stl_id s) now) (stl_id s)
                    (stl_merchantID s) (stl_date s) (stl_total s) (stl_toMerchant s)
                    (stl_toCreditors s) (stl_retained s) (stl_receivableIDs s)]\<rparr>))"

definition MarkFailed :: "string \<Rightarrow> string \<Rightarrow> time \<Rightarrow> settlement \<Rightarrow> settlement result" where
  "MarkFailed uuid reason now s =
     (if stl_status s \<noteq> SSent \<and> stl_status s \<noteq> SPending then stl_refuse s SFailed
      else Inr (s\<lparr>stl_status := SFailed, stl_failureReason := reason, stl_updatedAt := now,
                  stl_version := stl_version s + 1,
                  stl_events := stl_events s @ [SettlementFailed
                    (NewBaseEvent uuid ''settlement.failed'' (stl_id s) now) (stl_id s)
                    (stl_merchantID s) (stl_date s) reason (stl_receivableIDs s)]\<rparr>))"

definition stl_Restore ::
  "string \<Rightarrow> time \<Rightarrow> string \<Rightarrow> money \<Rightarrow> money \<Rightarrow> money \<Rightarrow> money \<Rightarrow> order list \<Rightarrow> string list
   \<Rightarrow> stl_status \<Rightarrow> string \<Rightarrow> string \<Rightarrow> time \<Rightarrow> time \<Rightarrow> int \<Rightarrow> settlement" where
  "stl_Restore i date merchantID tot toMerchant toCreditors retained orders receivableIDs status
     externalRef failureReason createdAt updatedAt version =
     \<lparr>stl_id = i, stl_date = date, stl_merchantID = merchantID, stl_total = tot,
      stl_toMerchant = toMerchant, stl_toCreditors = toCreditors, stl_retained = retained,
      stl_orders = orders, stl_receivableIDs = receivableIDs, stl_status = status,
      stl_externalRef = externalRef, stl_failureReason = failureReason, stl_createdAt = createdAt,
      stl_updatedAt = updatedAt, stl_version = version, stl_events = []\<rparr>"

definition stl_PullEvents :: "settlement \<Rightarrow> stl_event list \<times> settlement" where
  "stl_PullEvents s = (stl_events s, s\<lparr>stl_events := []\<rparr>)"

section \<open>The first loop\<close>

definition settleable :: "string \<Rightarrow> time \<Rightarrow> receivable \<Rightarrow> bool" where
  "settleable mid day r \<longleftrightarrow> rcv_merchantID r = mid \<and> rcv_dueDate r = day
     \<and> (rcv_status r = RScheduled \<or> rcv_status r = RAnticipated)"

definition nets_of :: "rcv_status \<Rightarrow> receivable list \<Rightarrow> money list" where
  "nets_of st rs = map rcv_net (filter (\<lambda>r. rcv_status r = st) rs)"

lemma nets_of_simps [simp]:
  "nets_of st [] = []"
  "nets_of st (r # rs) = (if rcv_status r = st then rcv_net r # nets_of st rs else nets_of st rs)"
  by (simp_all add: nets_of_def)

lemma build_receivables_Inr:
  "build_receivables mid day payable s rs = Inr (p, s') \<longleftrightarrow>
     (\<forall>r \<in> set rs. settleable mid day r)
     \<and> p = payable + sum_list (nets_of RScheduled rs)
     \<and> s' = s\<lparr>stl_total := stl_total s + (\<Sum>r\<leftarrow>rs. rcv_net r),
             stl_retained := stl_retained s + sum_list (nets_of RAnticipated rs),
             stl_receivableIDs := stl_receivableIDs s @ map rcv_id rs\<rparr>"
  by (induction rs arbitrary: payable s)
    (auto simp: settleable_def Let_def add.assoc split: rcv_status.splits)

lemma build_receivables_Inl:
  assumes "build_receivables mid day payable s rs = Inl e"
  obtains r where "r \<in> set rs" "\<not> settleable mid day r"
    "errors_Is e (if rcv_merchantID r \<noteq> mid then ErrStlWrongMerchant
       else if rcv_dueDate r \<noteq> day then ErrWrongDay else ErrWrongStatus)"
  using assms
proof (induction rs arbitrary: payable s thesis)
  case (Cons r rs)
  show ?case
  proof (cases "settleable mid day r")
    case True
    then obtain p s' where "build_receivables mid day p s' rs = Inl e"
      using Cons.prems(2) by (auto simp: settleable_def Let_def)
    then show ?thesis using Cons.IH Cons.prems(1) by (metis list.set_intros(2))
  next
    case False
    then show ?thesis
      using Cons.prems by (intro Cons.prems(1) [of r])
        (auto simp: settleable_def Let_def split: if_splits rcv_status.splits)
  qed
qed simp

section \<open>The liens\<close>

text \<open>The second loop pays each creditor its lien while there is something to pay.\<close>

definition pays_lien :: "lien \<Rightarrow> order \<Rightarrow> bool" where
  "pays_lien l od \<longleftrightarrow> o_Kind od = ToCreditor \<and> o_Beneficiary od = l_CreditorName l \<and> o_BankAccount od = l_Creditor l
     \<and> 0 \<le> sint (o_Amount od) \<and> sint (o_Amount od) \<le> sint (l_Amount l)"

lemma build_liens_spec:
  assumes "build_liens uu k payable s ls = (k', payable', s')" "0 \<le> sint payable"
    and "\<forall>l \<in> set ls. 0 \<le> sint (l_Amount l)"
  shows "\<exists>os. k' = k + length os \<and> length os \<le> length ls \<and> 0 \<le> sint payable'
       \<and> s' = s\<lparr>stl_orders := stl_orders s @ os,
               stl_toCreditors := stl_toCreditors s + (payable - payable')\<rparr>
       \<and> sum_list (map o_Amount os) = payable - payable'
       \<and> sint payable - sint payable' = min (sint payable) (\<Sum>l\<leftarrow>ls. sint (l_Amount l))
       \<and> list_all2 pays_lien (take (length os) ls) os"
  using assms
proof (induction ls arbitrary: k payable s)
  case Nil
  then show ?case by (intro exI [of _ "[]"]) auto
next
  case (Cons l ls)
  have ls: "\<forall>l \<in> set ls. 0 \<le> sint (l_Amount l)" "0 \<le> sint (l_Amount l)" using Cons.prems(3) by simp_all
  then have tail: "0 \<le> (\<Sum>l\<leftarrow>ls. sint (l_Amount l))" by (intro sum_list_nonneg) auto
  show ?case
  proof (cases "payable = 0")
    case True
    then show ?thesis using Cons.prems tail ls by (intro exI [of _ "[]"]) auto
  next
    case False
    define a where "a = (if payable <s l_Amount l then payable else l_Amount l)"
    define od where "od = \<lparr>o_ID = NewID (uu k) ''ord'', o_Kind = ToCreditor,
       o_Beneficiary = l_CreditorName l, o_BankAccount = l_Creditor l, o_Amount = a\<rparr>"
    define s1 where "s1 = s\<lparr>stl_orders := stl_orders s @ [od], stl_toCreditors := stl_toCreditors s + a\<rparr>"
    have a: "sint a = min (sint payable) (sint (l_Amount l))" by (simp add: a_def sless64)
    have ab: "0 \<le> sint a" "sint a \<le> sint payable" using a ls(2) Cons.prems(2) by simp_all
    have p1: "sint (payable - a) = sint payable - sint a"
      using ab sint_in_range64 [of payable]
      by (intro sint_sub64) (simp add: in_range64_def)
    have nn: "0 \<le> sint (payable - a)" using p1 a by simp
    have run: "build_liens uu (Suc k) (payable - a) s1 ls = (k', payable', s')"
      using Cons.prems(1) False by (simp add: Let_def s1_def od_def a_def)
    obtain os where os: "k' = Suc k + length os" "length os \<le> length ls" "0 \<le> sint payable'"
      "s' = s1\<lparr>stl_orders := stl_orders s1 @ os,
               stl_toCreditors := stl_toCreditors s1 + (payable - a - payable')\<rparr>"
      "sum_list (map o_Amount os) = payable - a - payable'"
      "sint (payable - a) - sint payable' = min (sint (payable - a)) (\<Sum>l\<leftarrow>ls. sint (l_Amount l))"
      "list_all2 pays_lien (take (length os) ls) os"
      using Cons.IH [OF run nn ls(1)] by blast
    have min: "sint payable - sint payable' = min (sint payable) (sint (l_Amount l) + (\<Sum>l\<leftarrow>ls. sint (l_Amount l)))"
      using os(6) p1 a tail by linarith
    have "0 \<le> sint a" "sint a \<le> sint (l_Amount l)" using a ls(2) Cons.prems(2) by simp_all
    then have "pays_lien l od" by (simp add: pays_lien_def od_def)
    then show ?thesis
      using os(1-5,7) min by (intro exI [of _ "od # os"]) (auto simp: s1_def, simp_all add: od_def)
  qed
qed

section \<open>Building a settlement\<close>

lemma Build_Inr:
  assumes "Build uu date m rs ls now = Inr s"
  obtains k p p' s1 s2 where "rs \<noteq> []" "\<forall>r \<in> set rs. settleable (m_id m) (DateOnly date) r"
    "p = sum_list (nets_of RScheduled rs)"
    "s1 = stl_Restore (NewID (uu 0) ''stl'') (DateOnly date) (m_id m) (\<Sum>r\<leftarrow>rs. rcv_net r) 0 0
       (sum_list (nets_of RAnticipated rs)) [] (map rcv_id rs) SPending '''' '''' now now 1"
    "build_liens uu 1 p s1 ls = (k, p', s2)"
    "s = (if 0 <s p' then s2\<lparr>stl_orders := stl_orders s2 @ [\<lparr>o_ID = NewID (uu k) ''ord'',
            o_Kind = ToMerchant, o_Beneficiary = m_legalName m,
            o_BankAccount = m_bankAccount m, o_Amount = p'\<rparr>], stl_toMerchant := p'\<rparr> else s2)"
proof -
  have ne: "rs \<noteq> []" using assms by (auto simp: Build_def)
  define s0 where "s0 = \<lparr>stl_id = NewID (uu 0) ''stl'', stl_date = DateOnly date, stl_merchantID = m_id m,
                    stl_total = 0, stl_toMerchant = 0, stl_toCreditors = 0, stl_retained = 0,
                    stl_orders = [], stl_receivableIDs = [], stl_status = SPending,
                    stl_externalRef = '''', stl_failureReason = '''', stl_createdAt = now,
                    stl_updatedAt = now, stl_version = 1, stl_events = []\<rparr>"
  obtain p s1 where l1: "build_receivables (m_id m) (DateOnly date) 0 s0 rs = Inr (p, s1)"
    using assms ne by (auto simp: Build_def s0_def Let_def)
  obtain k p' s2 where l2: "build_liens uu 1 p s1 ls = (k, p', s2)" by (metis prod_cases3)
  show ?thesis
  proof (rule that [OF ne _ _ _ l2])
    show "\<forall>r \<in> set rs. settleable (m_id m) (DateOnly date) r" "p = sum_list (nets_of RScheduled rs)"
      "s1 = stl_Restore (NewID (uu 0) ''stl'') (DateOnly date) (m_id m) (\<Sum>r\<leftarrow>rs. rcv_net r) 0 0
       (sum_list (nets_of RAnticipated rs)) [] (map rcv_id rs) SPending '''' '''' now now 1"
      using l1 unfolding build_receivables_Inr by (simp_all add: s0_def stl_Restore_def)
    show "s = (if 0 <s p' then s2\<lparr>stl_orders := stl_orders s2 @ [\<lparr>o_ID = NewID (uu k) ''ord'',
            o_Kind = ToMerchant, o_Beneficiary = m_legalName m,
            o_BankAccount = m_bankAccount m, o_Amount = p'\<rparr>], stl_toMerchant := p'\<rparr> else s2)"
      using assms ne l1 l2 by (simp add: Build_def s0_def Let_def)
  qed
qed

lemma sum_nets_split:
  "\<forall>r \<in> set rs. settleable mid day r \<Longrightarrow>
     (\<Sum>r\<leftarrow>rs. f (rcv_net r)) = sum_list (map f (nets_of RScheduled rs)) + sum_list (map f (nets_of RAnticipated rs))"
  for f :: "money \<Rightarrow> 'a :: comm_monoid_add"
  by (induction rs) (auto simp: settleable_def ac_simps)

text \<open>The sums over the nets are what they are over the integers, and the two kinds of rows make up all.\<close>

lemma nets_sums:
  assumes b: "\<forall>r \<in> set rs. settleable mid day r"
    and nets: "\<forall>r \<in> set rs. 0 \<le> sint (rcv_net r)" "(\<Sum>r\<leftarrow>rs. sint (rcv_net r)) < 2 ^ 63"
  shows "sint (sum_list (nets_of RScheduled rs)) = (\<Sum>n\<leftarrow>nets_of RScheduled rs. sint n)"
    "sint (sum_list (nets_of RAnticipated rs)) = (\<Sum>n\<leftarrow>nets_of RAnticipated rs. sint n)"
    "sint (\<Sum>r\<leftarrow>rs. rcv_net r) = (\<Sum>r\<leftarrow>rs. sint (rcv_net r))"
    "(\<Sum>r\<leftarrow>rs. sint (rcv_net r)) = (\<Sum>n\<leftarrow>nets_of RScheduled rs. sint n) + (\<Sum>n\<leftarrow>nets_of RAnticipated rs. sint n)"
    "0 \<le> (\<Sum>n\<leftarrow>nets_of st rs. sint n)"
proof -
  show split: "(\<Sum>r\<leftarrow>rs. sint (rcv_net r)) =
      (\<Sum>n\<leftarrow>nets_of RScheduled rs. sint n) + (\<Sum>n\<leftarrow>nets_of RAnticipated rs. sint n)"
    using sum_nets_split [OF b, of sint] by simp
  show nn: "0 \<le> (\<Sum>n\<leftarrow>nets_of st rs. sint n)" for st
    using nets(1) by (auto intro!: sum_list_nonneg simp: nets_of_def)
  have pos: "n \<in> set (nets_of st rs) \<Longrightarrow> 0 \<le> sint n" for st n using nets(1) by (auto simp: nets_of_def)
  have "(\<Sum>n\<leftarrow>nets_of RScheduled rs. sint n) < 2 ^ 63" "(\<Sum>n\<leftarrow>nets_of RAnticipated rs. sint n) < 2 ^ 63"
    using nets(2) nn [of RScheduled] nn [of RAnticipated] unfolding split by linarith+
  then show "sint (sum_list (nets_of RScheduled rs)) = (\<Sum>n\<leftarrow>nets_of RScheduled rs. sint n)"
    "sint (sum_list (nets_of RAnticipated rs)) = (\<Sum>n\<leftarrow>nets_of RAnticipated rs. sint n)"
    using sum_list_sint [of "nets_of RScheduled rs" "\<lambda>n. n"] sum_list_sint [of "nets_of RAnticipated rs" "\<lambda>n. n"] pos
    by simp_all
  show "sint (\<Sum>r\<leftarrow>rs. rcv_net r) = (\<Sum>r\<leftarrow>rs. sint (rcv_net r))" using sum_list_sint [of rs rcv_net] nets by simp
qed

text \<open>C6: a settlement pays out exactly what its receivables are worth. For receivables whose
  nets are not negative (and do not overflow together) and non-negative liens: the total
  is the sum of the nets and splits into what goes to the merchant, to the creditors and
  what is retained; the anticipated receivables are retained in full; the creditors
  together get the smaller of the scheduled nets and the liens, each at most its lien, in
  the liens' order; the merchant gets the rest in one last order to the merchant's account, present only
  if positive; and the orders' amounts sum to what is paid out.\<close>

theorem build_conserves:
  assumes "Build uu date m rs liens now = Inr s"
    and nets: "\<forall>r \<in> set rs. 0 \<le> sint (rcv_net r)" "(\<Sum>r\<leftarrow>rs. sint (rcv_net r)) < 2 ^ 63"
    and liens: "\<forall>l \<in> set liens. 0 \<le> sint (l_Amount l)"
  shows "sint (stl_total s) = (\<Sum>r\<leftarrow>rs. sint (rcv_net r))
    \<and> sint (stl_total s) = sint (stl_toMerchant s) + sint (stl_toCreditors s) + sint (stl_retained s)
    \<and> sint (stl_retained s) = (\<Sum>n\<leftarrow>nets_of RAnticipated rs. sint n)
    \<and> sint (stl_toCreditors s) = min (\<Sum>n\<leftarrow>nets_of RScheduled rs. sint n) (\<Sum>l\<leftarrow>liens. sint (l_Amount l))
    \<and> Sum (map o_Amount (stl_orders s)) = stl_toMerchant s + stl_toCreditors s
    \<and> 0 \<le> sint (stl_toMerchant s)
    \<and> (\<exists>os. length os \<le> length liens
        \<and> list_all2 pays_lien (take (length os) liens) os
        \<and> (if 0 < sint (stl_toMerchant s)
           then \<exists>i. stl_orders s = os @ [\<lparr>o_ID = i, o_Kind = ToMerchant, o_Beneficiary = m_legalName m,
                  o_BankAccount = m_bankAccount m, o_Amount = stl_toMerchant s\<rparr>]
           else stl_orders s = os))"
proof -
  obtain k p p' s1 s2 where "rs \<noteq> []" and b: "\<forall>r \<in> set rs. settleable (m_id m) (DateOnly date) r"
    "p = sum_list (nets_of RScheduled rs)"
    "s1 = stl_Restore (NewID (uu 0) ''stl'') (DateOnly date) (m_id m) (\<Sum>r\<leftarrow>rs. rcv_net r) 0 0
       (sum_list (nets_of RAnticipated rs)) [] (map rcv_id rs) SPending '''' '''' now now 1"
    "build_liens uu 1 p s1 liens = (k, p', s2)"
    "s = (if 0 <s p' then s2\<lparr>stl_orders := stl_orders s2 @ [\<lparr>o_ID = NewID (uu k) ''ord'',
            o_Kind = ToMerchant, o_Beneficiary = m_legalName m,
            o_BankAccount = m_bankAccount m, o_Amount = p'\<rparr>], stl_toMerchant := p'\<rparr> else s2)"
    by (rule Build_Inr [OF assms(1)])
  note sums = nets_sums [OF b(1) nets, folded b(2)]
  have p: "0 \<le> sint p" using sums(1,5) by simp
  obtain os where os: "length os \<le> length liens" "0 \<le> sint p'"
      "s2 = s1\<lparr>stl_orders := stl_orders s1 @ os, stl_toCreditors := stl_toCreditors s1 + (p - p')\<rparr>"
      "sum_list (map o_Amount os) = p - p'"
      "sint p - sint p' = min (sint p) (\<Sum>l\<leftarrow>liens. sint (l_Amount l))"
      "list_all2 pays_lien (take (length os) liens) os"
    using build_liens_spec [OF b(4) p liens] by blast
  have cred: "sint (p - p') = sint p - sint p'"
  proof (rule sint_sub64)
    have "0 \<le> (\<Sum>l\<leftarrow>liens. sint (l_Amount l))" using liens by (intro sum_list_nonneg) auto
    then show "in_range64 (sint p - sint p')"
      using os(2,5) p sint_in_range64 [of p] by (simp add: in_range64_def)
  qed
  have fields: "stl_total s = (\<Sum>r\<leftarrow>rs. rcv_net r)" "stl_retained s = sum_list (nets_of RAnticipated rs)"
    "stl_toCreditors s = p - p'" "stl_toMerchant s = (if 0 <s p' then p' else 0)"
    using b(3,5) os(3) by (simp_all add: stl_Restore_def)
  have m: "sint (stl_toMerchant s) = sint p'" using os(2) by (simp add: fields sless64)
  have orders: "if 0 < sint (stl_toMerchant s)
           then \<exists>i. stl_orders s = os @ [\<lparr>o_ID = i, o_Kind = ToMerchant, o_Beneficiary = m_legalName m,
                  o_BankAccount = m_bankAccount m, o_Amount = stl_toMerchant s\<rparr>]
           else stl_orders s = os"
    using b(3,5) os(2,3) m by (auto simp: stl_Restore_def sless64)
  have paid: "Sum (map o_Amount (stl_orders s)) = stl_toMerchant s + stl_toCreditors s"
    using orders os(2,4) m by (auto simp: Sum_eq_sum_list fields(3) sint_eq_iff64 [of "stl_toMerchant s" 0] split: if_splits)
  show ?thesis
  proof (intro conjI exI [of _ os])
    show "sint (stl_total s) = (\<Sum>r\<leftarrow>rs. sint (rcv_net r))"
      "sint (stl_total s) = sint (stl_toMerchant s) + sint (stl_toCreditors s) + sint (stl_retained s)"
      "sint (stl_retained s) = (\<Sum>n\<leftarrow>nets_of RAnticipated rs. sint n)"
      "sint (stl_toCreditors s) = min (\<Sum>n\<leftarrow>nets_of RScheduled rs. sint n) (\<Sum>l\<leftarrow>liens. sint (l_Amount l))"
      using os(5) m cred sums split by (simp_all add: fields(1-3))
    show "0 \<le> sint (stl_toMerchant s)" using os(2) m by simp
  qed (fact paid os(1,6) orders)+
qed

definition sample_due :: "receivable list" where
  "sample_due = [sample_schedule ! 0]"

definition sample_lien :: lien where
  "sample_lien = \<lparr>l_MerchantID = ''m_1'', l_DueDate = rcv_dueDate (sample_schedule ! 0), l_Amount = 20000,
     l_CreditorName = ''Banco'', l_Creditor = m_bankAccount sample_merchant\<rparr>"

lemma sample_schedule_length: "length sample_schedule = 3"
  using arg_cong [OF sample_nets, of length] by simp

lemma sample_due_facts:
  "rcv_net (sample_schedule ! 0) = 32166" "sample_schedule ! 0 \<in> set sample_schedule"
  "midnight (rcv_dueDate (sample_schedule ! 0))"
proof -
  show "sample_schedule ! 0 \<in> set sample_schedule"
    using sample_schedule_length by (intro nth_mem) simp
  then show "midnight (rcv_dueDate (sample_schedule ! 0))"
    using brazil.schedule_due(1) [OF sample_schedule, of 7] by (simp add: sample_tx_defs)
  show "rcv_net (sample_schedule ! 0) = 32166"
    using arg_cong [OF sample_nets, of "\<lambda>xs. xs ! 0"] sample_schedule_length by simp
qed

lemma sample_build:
  "\<exists>s. Build sample_uuids (rcv_dueDate (sample_schedule ! 0)) sample_active sample_due [sample_lien] 9 = Inr s"
  using sample_schedule_facts [OF sample_due_facts(2)] sample_due_facts
  by (simp add: Build_def sample_due_def Let_def sample_active_def sample_merchant_def touch_def
      split: prod.split)

theorem build_conserves_witness:
  "\<exists>s. Build sample_uuids (rcv_dueDate (sample_schedule ! 0)) sample_active sample_due [sample_lien] 9 = Inr s
     \<and> sint (stl_toCreditors s) = 20000 \<and> sint (stl_toMerchant s) = 12166"
proof -
  obtain s where s: "Build sample_uuids (rcv_dueDate (sample_schedule ! 0)) sample_active sample_due
      [sample_lien] 9 = Inr s" using sample_build by blast
  have st: "rcv_status (sample_schedule ! 0) = RScheduled"
    using sample_schedule_facts [OF sample_due_facts(2)] by blast
  have "sint (stl_total s) = 32166 \<and> sint (stl_toCreditors s) = 20000 \<and> sint (stl_retained s) = 0
      \<and> sint (stl_total s) = sint (stl_toMerchant s) + sint (stl_toCreditors s) + sint (stl_retained s)"
    using build_conserves [OF s] sample_due_facts(1) st by (simp add: sample_due_def sample_lien_def)
  then show ?thesis using s by auto
qed

text \<open>\<open>Build\<close> succeeds exactly on a non-empty batch of receivables of the merchant, all due
  on the day and scheduled or anticipated; the settlement then lists exactly these
  receivables, for that day and merchant, and is pending. Otherwise it gives the error that names what is wrong.\<close>

theorem build_accepts:
  "(case Build uu date m rs liens now of
      Inr s \<Rightarrow> rs \<noteq> [] \<and> list_all (settleable (m_id m) (DateOnly date)) rs
        \<and> stl_receivableIDs s = map rcv_id rs \<and> stl_date s = DateOnly date
        \<and> stl_merchantID s = m_id m \<and> stl_status s = SPending \<and> stl_version s = 1
    | Inl e \<Rightarrow> rs = [] \<and> e = Sentinel ErrNothingToSettle
        \<or> (\<exists>r \<in> set rs. \<not> settleable (m_id m) (DateOnly date) r
             \<and> errors_Is e (if rcv_merchantID r \<noteq> m_id m then ErrStlWrongMerchant
                  else if rcv_dueDate r \<noteq> DateOnly date then ErrWrongDay else ErrWrongStatus)))"
proof (cases "Build uu date m rs liens now")
  case (Inl e)
  show ?thesis
  proof (cases "rs = []")
    case False
    then obtain s0 where "build_receivables (m_id m) (DateOnly date) 0 s0 rs = Inl e"
      using Inl by (auto simp: Build_def Let_def split: sum.splits prod.splits)
    then show ?thesis unfolding Inl sum.case by (rule build_receivables_Inl) blast
  qed (use Inl in \<open>simp add: Build_def\<close>)
next
  case (Inr s)
  have liens: "stl_receivableIDs s' = stl_receivableIDs s0 \<and> stl_date s' = stl_date s0
      \<and> stl_merchantID s' = stl_merchantID s0 \<and> stl_status s' = stl_status s0 \<and> stl_version s' = stl_version s0"
    if "build_liens uu k p s0 ls = (k', p', s')" for k p s0 ls k' p' s'
    using that by (induction ls arbitrary: k p s0) (auto simp: Let_def split: if_splits)
  show ?thesis
    unfolding Inr sum.case
    by (rule Build_Inr [OF Inr]) (auto dest!: liens simp: stl_Restore_def list_all_iff)
qed

section \<open>The life of a settlement\<close>

inductive stl_step :: "settlement \<Rightarrow> settlement \<Rightarrow> bool" where
  stl_sent: "MarkSent ref now s = Inr s' \<Longrightarrow> stl_step s s'"
| stl_confirmed: "MarkConfirmed uuid now s = Inr s' \<Longrightarrow> stl_step s s'"
| stl_failed: "MarkFailed uuid reason now s = Inr s' \<Longrightarrow> stl_step s s'"

inductive_cases stl_stepE: "stl_step s s'"

text \<open>The guards as a table.\<close>

definition stl_transitions :: "stl_status \<Rightarrow> stl_status list" where
  "stl_transitions s = (case s of SPending \<Rightarrow> [SSent, SFailed] | SSent \<Rightarrow> [SConfirmed, SFailed] | _ \<Rightarrow> [])"

definition stl_rank :: "stl_status \<Rightarrow> nat" where
  "stl_rank s = (case s of SPending \<Rightarrow> 2 | SSent \<Rightarrow> 1 | _ \<Rightarrow> 0)"

lemmas stl_op_defs = MarkSent_def MarkConfirmed_def MarkFailed_def stl_refuse_def

lemma stl_step_edge: "stl_step s s' \<Longrightarrow> stl_status s' \<in> set (stl_transitions (stl_status s))"
  by (erule stl_stepE) (auto simp: stl_op_defs stl_transitions_def split: if_splits)

lemma stl_step_version: "stl_step s s' \<Longrightarrow> stl_version s' = stl_version s + 1"
  by (erule stl_stepE) (auto simp: stl_op_defs split: if_splits)

lemma stl_rank_descends: "to \<in> set (stl_transitions s) \<Longrightarrow> stl_rank to < stl_rank s"
  by (cases s) (auto simp: stl_transitions_def stl_rank_def)

interpretation stlm: transition_machine stl_transitions stl_rank stl_status stl_version stl_step
  by unfold_locales (simp_all add: stl_rank_descends stl_step_edge stl_step_version)

definition stl_identity where
  "stl_identity s = (stl_id s, stl_date s, stl_merchantID s, stl_total s, stl_toMerchant s,
     stl_toCreditors s, stl_retained s, stl_orders s, stl_receivableIDs s, stl_createdAt s)"

lemma stl_step_identity: "stl_step s s' \<Longrightarrow> stl_identity s' = stl_identity s"
  by (erule stl_stepE) (auto simp: stl_op_defs stl_identity_def split: if_splits)

lemma stl_step_event:
  "stl_step s s' \<Longrightarrow> stl_events s' = stl_events s \<and> stl_status s' = SSent
     \<or> (\<exists>e. stl_events s' = stl_events s @ [e] \<and> se_receivableIDs e = stl_receivableIDs s
          \<and> se_settlementID e = stl_id s \<and> stl_status s' \<in> {SConfirmed, SFailed}
          \<and> (is_SettlementCompleted e \<longleftrightarrow> stl_status s' = SConfirmed))"
  by (erule stl_stepE) (auto simp: stl_op_defs split: if_splits)

text \<open>A settlement changes at most twice; its orders, amounts and receivables never
  change; its version counts the changes; once confirmed or failed it stays as it is; and
  a step to either of them records exactly one event, with the settlement's receivables.\<close>

theorem settlement_lifecycle:
  assumes "(stl_step ^^ k) s s'"
  shows "k \<le> 2 \<and> stl_version s' = stl_version s + int k \<and> stl_identity s' = stl_identity s
    \<and> (stl_status s \<in> {SConfirmed, SFailed} \<longrightarrow> s' = s)
    \<and> (\<forall>s''. stl_step s' s'' \<longrightarrow> stl_status s'' \<in> set (stl_transitions (stl_status s'))
         \<and> (stl_status s'' = SSent \<and> stl_events s'' = stl_events s'
            \<or> stl_status s'' \<in> {SConfirmed, SFailed} \<and>
              (\<exists>e. stl_events s'' = stl_events s' @ [e] \<and> se_receivableIDs e = stl_receivableIDs s)))"
proof (intro conjI impI allI)
  have "stl_rank (stl_status s) \<le> 2" by (simp add: stl_rank_def split: stl_status.split)
  then show "k \<le> 2" using stlm.steps_rank [OF assms] by simp
  show "stl_version s' = stl_version s + int k" by (rule stlm.steps_version [OF assms])
  show id: "stl_identity s' = stl_identity s"
    using assms by (rule steps_invariant) (simp_all add: stl_step_identity)
  show "s' = s" if "stl_status s \<in> {SConfirmed, SFailed}"
    using that stlm.terminal_stays [OF _ assms] by (auto simp: stl_transitions_def)
  have ids: "stl_receivableIDs s' = stl_receivableIDs s" using id by (simp add: stl_identity_def)
  fix s'' assume step: "stl_step s' s''"
  show "stl_status s'' \<in> set (stl_transitions (stl_status s'))" by (rule stl_step_edge [OF step])
  show "stl_status s'' = SSent \<and> stl_events s'' = stl_events s'
      \<or> stl_status s'' \<in> {SConfirmed, SFailed} \<and>
        (\<exists>e. stl_events s'' = stl_events s' @ [e] \<and> se_receivableIDs e = stl_receivableIDs s)"
    using stl_step_event [OF step] unfolding ids by blast
qed

theorem settlement_lifecycle_witness:
  "\<exists>s s'. Build sample_uuids (rcv_dueDate (sample_schedule ! 0)) sample_active sample_due [sample_lien] 9 = Inr s
     \<and> stl_step s s' \<and> stl_version s' = 2 \<and> stl_orders s' = stl_orders s"
proof -
  obtain s where s: "Build sample_uuids (rcv_dueDate (sample_schedule ! 0)) sample_active sample_due
      [sample_lien] 9 = Inr s" using sample_build by blast
  have st: "stl_status s = SPending" "stl_version s = 1"
    by (rule Build_Inr [OF s], auto simp: stl_Restore_def sample_lien_def Let_def split: if_splits)+
  then obtain s' where s': "MarkSent ''ref'' 10 s = Inr s'" by (simp add: MarkSent_def)
  then have "(stl_step ^^ 1) s s'" using stl_sent by auto
  then show ?thesis
    using settlement_lifecycle [of 1 s s'] s st(2) by (auto simp: stl_identity_def)
qed

end
