(* ===== verification/Chargeback.thy ===== *)
theory Chargeback
  imports Transaction State_Machine
begin

text \<open>
  \<open>internal/domain/chargeback/chargeback.go\<close>: opening a chargeback against a transaction,
  its defence and its resolution. Statuses carry the prefix \<open>C\<close>. \<open>Open\<close> changes the
  transaction too, so it returns both; on an error neither has changed. It draws two
  UUIDs after the transaction's: \<open>uu 0\<close> for the transaction's event, \<open>uu 1\<close> for the
  chargeback, \<open>uu 2\<close> for the chargeback's event.
\<close>

datatype cb_status = COpened | CDefended | CAccepted | CReversed

definition cb_status_string :: "cb_status \<Rightarrow> string" where
  "cb_status_string s = (case s of COpened \<Rightarrow> ''OPENED'' | CDefended \<Rightarrow> ''DEFENDED''
     | CAccepted \<Rightarrow> ''ACCEPTED'' | CReversed \<Rightarrow> ''REVERSED'')"

definition cb_transitions :: "cb_status \<Rightarrow> cb_status list" where
  "cb_transitions s = (case s of
       COpened \<Rightarrow> [CDefended, CAccepted, CReversed]
     | CDefended \<Rightarrow> [CAccepted, CReversed]
     | _ \<Rightarrow> [])"

datatype cb_event =
    ChargebackOpened (ce_base: base_event) (ce_chargebackID: string) (ce_transactionID: string)
      (ce_merchantID: string) (ce_amount: money) (ce_reasonCode: string) (ce_deadline: time)
  | is_ChargebackResolved: ChargebackResolved (ce_base: base_event) (ce_chargebackID: string) (ce_transactionID: string)
      (ce_merchantID: string) (ce_amount: money) (ce_outcome: string)

record chargeback =
  cb_id :: string
  cb_transactionID :: string
  cb_merchantID :: string
  cb_reasonCode :: string
  cb_amount :: money
  cb_status :: cb_status
  cb_openedAt :: time
  cb_deadline :: time
  cb_resolvedAt :: "time option"
  cb_version :: int
  cb_events :: "cb_event list"

definition defenseDays :: int where
  "defenseDays = 10"

definition cb_Open ::
  "(nat \<Rightarrow> string) \<Rightarrow> transaction \<Rightarrow> string \<Rightarrow> money \<Rightarrow> time \<Rightarrow> (transaction \<times> chargeback) result" where
  "cb_Open uu tx reasonCode amount now =
     (if tx_status tx \<noteq> Captured \<and> tx_status tx \<noteq> Settled then Inl (Sentinel ErrTransactionStatus)
      else if \<not> IsPositive amount \<or> tx_amount tx <s amount then Inl (Sentinel ErrCbInvalidAmount)
      else case tx_Chargeback (uu 0) reasonCode now tx of
        Inl err \<Rightarrow> Inl err
      | Inr tx' \<Rightarrow>
          (let cid = NewID (uu 1) ''cb''; deadline = AddDate now 0 0 defenseDays
           in Inr (tx', \<lparr>cb_id = cid, cb_transactionID = tx_id tx', cb_merchantID = tx_merchantID tx',
                cb_reasonCode = reasonCode, cb_amount = amount, cb_status = COpened, cb_openedAt = now,
                cb_deadline = deadline, cb_resolvedAt = None, cb_version = 1,
                cb_events = [ChargebackOpened (NewBaseEvent (uu 2) ''chargeback.opened'' cid now) cid
                  (tx_id tx') (tx_merchantID tx') amount reasonCode deadline]\<rparr>)))"

definition cb_transition :: "cb_status \<Rightarrow> chargeback \<Rightarrow> chargeback result" where
  "cb_transition to c =
     (if to \<in> set (cb_transitions (cb_status c))
      then Inr (c\<lparr>cb_status := to, cb_version := cb_version c + 1\<rparr>)
      else Inl (Errorf [cb_status_string (cb_status c), cb_status_string to]
             (Sentinel ErrInvalidTransition)))"

definition cb_Defend :: "time \<Rightarrow> chargeback \<Rightarrow> chargeback result" where
  "cb_Defend now c =
     (if now > cb_deadline c then Inl (ErrorString ''prazo de defesa encerrado'')
      else cb_transition CDefended c)"

definition cb_resolve :: "string \<Rightarrow> cb_status \<Rightarrow> time \<Rightarrow> chargeback \<Rightarrow> chargeback result" where
  "cb_resolve uuid to now c =
     (case cb_transition to c of
        Inl err \<Rightarrow> Inl err
      | Inr c1 \<Rightarrow> Inr (c1\<lparr>cb_resolvedAt := Some now,
          cb_events := cb_events c1 @ [ChargebackResolved
            (NewBaseEvent uuid ''chargeback.resolved'' (cb_id c1) now) (cb_id c1)
            (cb_transactionID c1) (cb_merchantID c1) (cb_amount c1) (cb_status_string to)]\<rparr>))"

definition cb_Accept :: "string \<Rightarrow> time \<Rightarrow> chargeback \<Rightarrow> chargeback result" where
  "cb_Accept uuid now c = cb_resolve uuid CAccepted now c"

definition cb_Reverse :: "string \<Rightarrow> time \<Rightarrow> chargeback \<Rightarrow> chargeback result" where
  "cb_Reverse uuid now c = cb_resolve uuid CReversed now c"

definition cb_Restore ::
  "string \<Rightarrow> string \<Rightarrow> string \<Rightarrow> string \<Rightarrow> money \<Rightarrow> cb_status \<Rightarrow> time \<Rightarrow> time \<Rightarrow> time option \<Rightarrow> int \<Rightarrow> chargeback" where
  "cb_Restore i transactionID merchantID reasonCode amount status openedAt deadline resolvedAt version =
     \<lparr>cb_id = i, cb_transactionID = transactionID, cb_merchantID = merchantID,
      cb_reasonCode = reasonCode, cb_amount = amount, cb_status = status, cb_openedAt = openedAt,
      cb_deadline = deadline, cb_resolvedAt = resolvedAt, cb_version = version, cb_events = []\<rparr>"

definition cb_PullEvents :: "chargeback \<Rightarrow> cb_event list \<times> chargeback" where
  "cb_PullEvents c = (cb_events c, c\<lparr>cb_events := []\<rparr>)"

section \<open>The state machine\<close>

inductive cb_step :: "chargeback \<Rightarrow> chargeback \<Rightarrow> bool" where
  cb_defend: "cb_Defend now c = Inr c' \<Longrightarrow> cb_step c c'"
| cb_accept: "cb_Accept uuid now c = Inr c' \<Longrightarrow> cb_step c c'"
| cb_reverse: "cb_Reverse uuid now c = Inr c' \<Longrightarrow> cb_step c c'"

inductive_cases cb_stepE: "cb_step c c'"

lemmas cb_op_defs = cb_Defend_def cb_Accept_def cb_Reverse_def cb_resolve_def

lemma cb_transition_Inr [simp]:
  "cb_transition to c = Inr c' \<longleftrightarrow> to \<in> set (cb_transitions (cb_status c))
     \<and> c' = c\<lparr>cb_status := to, cb_version := cb_version c + 1\<rparr>"
  by (auto simp: cb_transition_def)

lemma cb_edges:
  "COpened \<notin> set (cb_transitions s)"
  "CDefended \<in> set (cb_transitions s) \<longleftrightarrow> s = COpened"
  "CAccepted \<in> set (cb_transitions s) \<longleftrightarrow> s = COpened \<or> s = CDefended"
  "CReversed \<in> set (cb_transitions s) \<longleftrightarrow> s = COpened \<or> s = CDefended"
  by (cases s; simp add: cb_transitions_def)+

definition cb_rank :: "cb_status \<Rightarrow> nat" where
  "cb_rank s = (case s of COpened \<Rightarrow> 2 | CDefended \<Rightarrow> 1 | _ \<Rightarrow> 0)"

lemma cb_rank_descends: "to \<in> set (cb_transitions s) \<Longrightarrow> cb_rank to < cb_rank s"
  by (cases s) (auto simp: cb_transitions_def cb_rank_def)

lemma cb_step_edge: "cb_step c c' \<Longrightarrow> cb_status c' \<in> set (cb_transitions (cb_status c))"
  by (erule cb_stepE) (auto simp: cb_op_defs split: if_splits)

lemma cb_step_version: "cb_step c c' \<Longrightarrow> cb_version c' = cb_version c + 1"
  by (erule cb_stepE) (auto simp: cb_op_defs split: if_splits)

interpretation cbm: transition_machine cb_transitions cb_rank cb_status cb_version cb_step
  by unfold_locales (simp_all add: cb_rank_descends cb_step_edge cb_step_version)

definition cb_identity where
  "cb_identity c = (cb_id c, cb_transactionID c, cb_merchantID c, cb_reasonCode c, cb_amount c,
     cb_openedAt c, cb_deadline c)"

text \<open>A chargeback is resolved exactly when it was accepted or reversed, with one event.\<close>

definition wf_cb :: "chargeback \<Rightarrow> bool" where
  "wf_cb c \<longleftrightarrow> (cb_resolvedAt c \<noteq> None \<longleftrightarrow> cb_status c \<in> {CAccepted, CReversed})
     \<and> length (filter is_ChargebackResolved (cb_events c)) \<le> 1
     \<and> (cb_status c \<in> {COpened, CDefended} \<longrightarrow> filter is_ChargebackResolved (cb_events c) = [])"

lemma cb_step_identity: "cb_step c c' \<Longrightarrow> cb_identity c' = cb_identity c"
  by (erule cb_stepE) (auto simp: cb_op_defs cb_identity_def split: if_splits)

lemma cb_step_wf: "cb_step c c' \<Longrightarrow> wf_cb c \<Longrightarrow> wf_cb c'"
  by (cases "cb_status c"; erule cb_stepE; clarsimp simp: cb_op_defs cb_edges split: if_splits; simp add: wf_cb_def)

section \<open>Properties\<close>

text \<open>\<open>Open\<close> succeeds exactly for a captured or settled transaction and an amount above zero and
  at most the transaction's; it then marks the transaction charged back, opens the
  chargeback for that amount with a deadline ten days later, and each of the two records
  one event. Otherwise it gives the error of the first failing check.\<close>

theorem open_chargeback_correct:
  "(case cb_Open uu tx reason amount now of
      Inr (tx', c) \<Rightarrow> tx_status tx \<in> {Captured, Settled} \<and> 0 < sint amount
        \<and> sint amount \<le> sint (tx_amount tx)
        \<and> tx_status tx' = Chargebacked \<and> tx_identity tx' = tx_identity tx
        \<and> tx_version tx' = tx_version tx + 1
        \<and> (\<exists>e. tx_events tx' = tx_events tx @ [e] \<and> tx_event_status e = Chargebacked)
        \<and> cb_status c = COpened \<and> cb_transactionID c = tx_id tx \<and> cb_merchantID c = tx_merchantID tx
        \<and> cb_amount c = amount \<and> cb_deadline c = now + 10 * nanos_per_day
        \<and> length (cb_events c) = 1 \<and> wf_cb c
    | Inl e \<Rightarrow> e = Sentinel (if tx_status tx \<notin> {Captured, Settled} then ErrTransactionStatus
                 else ErrCbInvalidAmount)
        \<and> (tx_status tx \<notin> {Captured, Settled} \<or> sint amount \<le> 0 \<or> sint (tx_amount tx) < sint amount))"
proof (cases "tx_status tx \<in> {Captured, Settled} \<and> 0 < sint amount \<and> sint amount \<le> sint (tx_amount tx)")
  case True
  then have "Chargebacked \<in> set (tx_transitions (tx_status tx))" by (simp add: tx_edges)
  then show ?thesis
    using True by (auto simp: cb_Open_def IsPositive_def sless64 tx_Chargeback_def tx_transition_def Let_def
        tx_identity_def tx_event_status_def AddDate_days defenseDays_def wf_cb_def)
next
  case False
  then show ?thesis by (auto simp: cb_Open_def IsPositive_def sless64)
qed

theorem open_chargeback_correct_witness:
  "\<exists>tx c. cb_Open (\<lambda>i. dec i) sample_captured ''10.4'' 50000 20 = Inr (tx, c) \<and> cb_amount c = 50000"
proof -
  obtain tx c where o: "cb_Open (\<lambda>i. dec i) sample_captured ''10.4'' 50000 20 = Inr (tx, c)"
    by (simp add: cb_Open_def sample_tx_defs IsPositive_def sless64 tx_Chargeback_def tx_transition_def
        tx_transitions_def Let_def)
  then show ?thesis
    using open_chargeback_correct [where uu = "\<lambda>i. dec i" and tx = sample_captured and reason = "''10.4''"
        and amount = 50000 and now = 20] by simp
qed

text \<open>A chargeback changes at most twice and keeps its transaction, merchant, amount and
  deadline; it carries a resolution time exactly when it is accepted or reversed, its
  resolution is announced at most once, and once resolved it stays as it is. It cannot be defended
  after the deadline.\<close>

theorem chargeback_lifecycle:
  assumes "(cb_step ^^ k) c c'" "wf_cb c"
  shows "k \<le> 2 \<and> cb_version c' = cb_version c + int k \<and> cb_identity c' = cb_identity c \<and> wf_cb c'
    \<and> (cb_resolvedAt c \<noteq> None \<longrightarrow> c' = c)
    \<and> (cb_deadline c < now \<longrightarrow> cb_Defend now c' = Inl (ErrorString ''prazo de defesa encerrado''))"
proof (intro conjI impI)
  have "cb_rank (cb_status c) \<le> 2" by (simp add: cb_rank_def split: cb_status.split)
  then show "k \<le> 2" using cbm.steps_rank [OF assms(1)] by simp
  show "cb_version c' = cb_version c + int k" by (rule cbm.steps_version [OF assms(1)])
  show id: "cb_identity c' = cb_identity c"
    using assms(1) by (rule steps_invariant) (simp_all add: cb_step_identity)
  show "wf_cb c'" using assms by (rule steps_invariant) (rule cb_step_wf)
  show "c' = c" if "cb_resolvedAt c \<noteq> None"
    using that assms(2) cbm.terminal_stays [OF _ assms(1)] by (auto simp: wf_cb_def cb_transitions_def)
  show "cb_Defend now c' = Inl (ErrorString ''prazo de defesa encerrado'')" if "cb_deadline c < now"
    using that id by (simp add: cb_Defend_def cb_identity_def)
qed

definition sample_chargeback :: chargeback where
  "sample_chargeback = cb_Restore ''cb_1'' ''tx_7'' ''m_1'' ''10.4'' 50000 COpened 20 (20 + 10 * nanos_per_day) None 1"

theorem chargeback_lifecycle_witness:
  "\<exists>c. cb_step sample_chargeback c \<and> wf_cb c \<and> cb_version c = 2 \<and> cb_amount c = 50000"
proof -
  have s: "cb_status sample_chargeback = COpened" "cb_version sample_chargeback = 1" "wf_cb sample_chargeback"
    "cb_amount sample_chargeback = 50000"
    by (simp_all add: sample_chargeback_def cb_Restore_def wf_cb_def)
  then obtain c where "cb_Accept ''3'' 30 sample_chargeback = Inr c"
    by (simp add: cb_Accept_def cb_resolve_def cb_transition_def cb_edges)
  then have c: "cb_step sample_chargeback c" by (rule cb_accept)
  then have "(cb_step ^^ 1) sample_chargeback c" by auto
  then show ?thesis
    using chargeback_lifecycle [of 1 sample_chargeback c] s c by (auto simp: cb_identity_def)
qed

end
