(* ===== verification/Ledger.thy ===== *)
theory Ledger
  imports Settlement Anticipation Chargeback
begin

text \<open>
  \<open>internal/domain/ledger/entry.go\<close>: double-entry bookings. Each \<open>For\<close> function draws one
  UUID per entry, in order. An account's balance (\<open>Repository.Balance\<close>) is credits minus
  debits.
\<close>

datatype account = ReceivableFromIssuer | PayableToMerchant | RevenueFees | RevenueAnticipation
  | BankOutgoing | ChargebackLoss

record entry =
  le_ID :: string
  le_Account :: account
  le_MerchantID :: string
  le_Debit :: money
  le_Credit :: money
  le_RefType :: string
  le_RefID :: string
  le_At :: time

definition debit_entry ::
  "string \<Rightarrow> account \<Rightarrow> string \<Rightarrow> money \<Rightarrow> string \<Rightarrow> string \<Rightarrow> time \<Rightarrow> entry" where
  "debit_entry uuid acc merchantID v refType refID at' =
     \<lparr>le_ID = NewID uuid ''le'', le_Account = acc, le_MerchantID = merchantID, le_Debit = v,
      le_Credit = 0, le_RefType = refType, le_RefID = refID, le_At = at'\<rparr>"

definition credit_entry ::
  "string \<Rightarrow> account \<Rightarrow> string \<Rightarrow> money \<Rightarrow> string \<Rightarrow> string \<Rightarrow> time \<Rightarrow> entry" where
  "credit_entry uuid acc merchantID v refType refID at' =
     \<lparr>le_ID = NewID uuid ''le'', le_Account = acc, le_MerchantID = merchantID, le_Debit = 0,
      le_Credit = v, le_RefType = refType, le_RefID = refID, le_At = at'\<rparr>"

fun ForScheduled_from :: "(nat \<Rightarrow> string) \<Rightarrow> nat \<Rightarrow> receivable list \<Rightarrow> time \<Rightarrow> entry list" where
  "ForScheduled_from uu k [] at' = []"
| "ForScheduled_from uu k (r # rs) at' =
     [debit_entry (uu k) ReceivableFromIssuer (rcv_merchantID r) (rcv_gross r) ''receivable'' (rcv_id r) at',
      credit_entry (uu (k + 1)) PayableToMerchant (rcv_merchantID r) (rcv_net r) ''receivable'' (rcv_id r) at',
      credit_entry (uu (k + 2)) RevenueFees (rcv_merchantID r) (rcv_fee r) ''receivable'' (rcv_id r) at']
     @ ForScheduled_from uu (k + 3) rs at'"

definition ForScheduled :: "(nat \<Rightarrow> string) \<Rightarrow> receivable list \<Rightarrow> time \<Rightarrow> entry list" where
  "ForScheduled uu rs at' = ForScheduled_from uu 0 rs at'"

definition ForAnticipation :: "(nat \<Rightarrow> string) \<Rightarrow> anticipation \<Rightarrow> time \<Rightarrow> entry list" where
  "ForAnticipation uu a at' =
     [debit_entry (uu 0) PayableToMerchant (ant_merchantID a) (ant_gross a) ''anticipation'' (ant_id a) at',
      credit_entry (uu 1) BankOutgoing (ant_merchantID a) (ant_net a) ''anticipation'' (ant_id a) at',
      credit_entry (uu 2) RevenueAnticipation (ant_merchantID a) (ant_discount a) ''anticipation'' (ant_id a) at']"

definition ForSettlement :: "(nat \<Rightarrow> string) \<Rightarrow> settlement \<Rightarrow> time \<Rightarrow> entry list" where
  "ForSettlement uu s at' =
     (let paid = stl_toMerchant s + stl_toCreditors s
      in if paid = 0 then []
         else [debit_entry (uu 0) PayableToMerchant (stl_merchantID s) paid ''settlement'' (stl_id s) at',
               credit_entry (uu 1) BankOutgoing (stl_merchantID s) paid ''settlement'' (stl_id s) at'])"

definition ForChargeback :: "(nat \<Rightarrow> string) \<Rightarrow> receivable \<Rightarrow> time \<Rightarrow> entry list" where
  "ForChargeback uu r at' =
     [credit_entry (uu 0) ReceivableFromIssuer (rcv_merchantID r) (rcv_gross r) ''chargeback'' (rcv_id r) at',
      debit_entry (uu 1) PayableToMerchant (rcv_merchantID r) (rcv_net r) ''chargeback'' (rcv_id r) at',
      debit_entry (uu 2) RevenueFees (rcv_merchantID r) (rcv_fee r) ''chargeback'' (rcv_id r) at']"

definition ForChargebackAnticipated :: "(nat \<Rightarrow> string) \<Rightarrow> receivable \<Rightarrow> time \<Rightarrow> entry list" where
  "ForChargebackAnticipated uu r at' =
     [credit_entry (uu 0) ReceivableFromIssuer (rcv_merchantID r) (rcv_gross r) ''chargeback'' (rcv_id r) at',
      debit_entry (uu 1) ChargebackLoss (rcv_merchantID r) (rcv_net r) ''chargeback'' (rcv_id r) at',
      debit_entry (uu 2) RevenueFees (rcv_merchantID r) (rcv_fee r) ''chargeback'' (rcv_id r) at']"

fun balanced_loop :: "money \<Rightarrow> money \<Rightarrow> entry list \<Rightarrow> bool" where
  "balanced_loop d c [] = (d = c)"
| "balanced_loop d c (e # es) = balanced_loop (d + le_Debit e) (c + le_Credit e) es"

definition Balanced :: "entry list \<Rightarrow> bool" where
  "Balanced es = balanced_loop 0 0 es"

text \<open>Credits minus debits of one account, of one merchant or (with the empty id) of all.\<close>

definition ledger_balance :: "account \<Rightarrow> string \<Rightarrow> entry list \<Rightarrow> money" where
  "ledger_balance acc merchantID es =
     (\<Sum>e\<leftarrow>filter (\<lambda>e. le_Account e = acc \<and> (merchantID = [] \<or> le_MerchantID e = merchantID)) es.
        le_Credit e - le_Debit e)"

section \<open>Balances\<close>

lemmas entry_defs = debit_entry_def credit_entry_def

lemma balanced_loop_sums:
  "balanced_loop d c es \<longleftrightarrow> d + (\<Sum>e\<leftarrow>es. le_Debit e) = c + (\<Sum>e\<leftarrow>es. le_Credit e)"
  by (induction es arbitrary: d c) (simp_all add: add.assoc)

lemma Balanced_sums: "Balanced es \<longleftrightarrow> (\<Sum>e\<leftarrow>es. le_Debit e) = (\<Sum>e\<leftarrow>es. le_Credit e)"
  by (simp add: Balanced_def balanced_loop_sums)

lemma Balanced_append: "Balanced es \<Longrightarrow> Balanced fs \<Longrightarrow> Balanced (es @ fs)"
  by (simp add: Balanced_sums)

lemma ledger_balance_append [simp]:
  "ledger_balance acc mid (es @ fs) = ledger_balance acc mid es + ledger_balance acc mid fs"
  by (simp add: ledger_balance_def)

lemma ledger_balance_Nil [simp]: "ledger_balance acc mid [] = 0"
  by (simp add: ledger_balance_def)

lemma ledger_balance_Cons:
  "ledger_balance acc mid (e # es) =
     (if le_Account e = acc \<and> (mid = [] \<or> le_MerchantID e = mid) then le_Credit e - le_Debit e else 0)
     + ledger_balance acc mid es"
  by (auto simp: ledger_balance_def)

text \<open>The arithmetic identity of a receivable and of an anticipation.\<close>

definition rcv_sound :: "receivable \<Rightarrow> bool" where
  "rcv_sound r \<longleftrightarrow> rcv_net r = rcv_gross r - rcv_fee r"

definition ant_sound :: "anticipation \<Rightarrow> bool" where
  "ant_sound a \<longleftrightarrow> ant_gross a = ant_net a + ant_discount a"

lemma ForScheduled_balanced:
  "\<forall>r \<in> set rs. rcv_sound r \<Longrightarrow> Balanced (ForScheduled_from uu k rs at')"
  by (induction rs arbitrary: k) (auto simp: Balanced_sums entry_defs rcv_sound_def)

lemma ForScheduled_balance:
  "ledger_balance acc mid (ForScheduled_from uu k rs at') =
     (\<Sum>r\<leftarrow>filter (\<lambda>r. mid = [] \<or> rcv_merchantID r = mid) rs. case acc of
        ReceivableFromIssuer \<Rightarrow> - rcv_gross r | PayableToMerchant \<Rightarrow> rcv_net r
      | RevenueFees \<Rightarrow> rcv_fee r | _ \<Rightarrow> 0)"
  by (induction rs arbitrary: k; cases acc) (auto simp: ledger_balance_Cons entry_defs)

text \<open>Every booking the program makes is balanced: that of a schedule, of an anticipation made
  by \<open>Simulate\<close>, of a settlement and of a chargeback, for all 64-bit amounts, wrap-around
  included, given that each receivable's net is its gross less its fee.\<close>

theorem bookings_balanced:
  assumes "\<forall>r \<in> set rs. rcv_net r = rcv_gross r - rcv_fee r"
    and "Simulate uuid mid ss today rate pv = Inr a"
  shows "Balanced (ForScheduled uu rs now) \<and> Balanced (ForAnticipation uu a now)
    \<and> Balanced (ForSettlement uu s now)
    \<and> (\<forall>r \<in> set rs. Balanced (ForChargeback uu r now) \<and> Balanced (ForChargebackAnticipated uu r now))"
proof -
  have "ant_gross a = ant_net a + ant_discount a"
    using assms(2) by (auto simp: Simulate_def simulate_loop_Inr split: if_splits)
  moreover have "Balanced (ForScheduled uu rs now)"
    unfolding ForScheduled_def using assms(1) by (intro ForScheduled_balanced) (simp add: rcv_sound_def)
  ultimately show ?thesis
    using assms(1)
    by (auto simp: Balanced_sums ForAnticipation_def ForSettlement_def ForChargeback_def
        ForChargebackAnticipated_def entry_defs Let_def)
qed

theorem bookings_balanced_witness: "Balanced (ForScheduled sample_uuids sample_schedule 9)"
proof -
  obtain a where a: "Simulate ''1'' ''m_1'' sample_schedule 8 200 sample_pricer = Inr a"
    using sample_simulate by blast
  have "\<forall>r \<in> set sample_schedule. rcv_net r = rcv_gross r - rcv_fee r"
    using Schedule_members [OF sample_schedule] by blast
  then show ?thesis using bookings_balanced [OF _ a, of sample_schedule sample_uuids 9] by blast
qed

text \<open>A booking's effect on what is owed to the merchant is the receivables' net: a schedule raises
  the payable account by the nets of the merchant's receivables, a chargeback of a
  receivable lowers it by exactly its net, an anticipated receivable's chargeback leaves it
  alone and books the net as a loss, an anticipation lowers it by the gross, and a settlement by what it pays out.\<close>

theorem payable_effects:
  "ledger_balance PayableToMerchant mid (ForScheduled uu rs now) =
     Sum (map rcv_net (filter (\<lambda>r. mid = [] \<or> rcv_merchantID r = mid) rs))
   \<and> ledger_balance PayableToMerchant (rcv_merchantID r) (ForChargeback uu r now) = - rcv_net r
   \<and> ledger_balance PayableToMerchant mid (ForChargebackAnticipated uu r now) = 0
   \<and> ledger_balance ChargebackLoss (rcv_merchantID r) (ForChargebackAnticipated uu r now) = - rcv_net r
   \<and> ledger_balance PayableToMerchant (ant_merchantID a) (ForAnticipation uu a now) = - ant_gross a
   \<and> ledger_balance PayableToMerchant (stl_merchantID s) (ForSettlement uu s now)
       = - (stl_toMerchant s + stl_toCreditors s)"
  by (auto simp: ForScheduled_def ForScheduled_balance ForChargeback_def ForChargebackAnticipated_def
      ForAnticipation_def ForSettlement_def ledger_balance_Cons entry_defs Sum_eq_sum_list Let_def
      neg_eq_iff_add_eq_0)

end
