(* ===== verification/Store.thy ===== *)
theory Store
  imports Ledger "HOL-Library.List_Lexorder" "HOL-Library.Char_ord" "HOL-Library.Product_Lexorder"
begin

text \<open>
  \<open>internal/infrastructure/postgres\<close> and \<open>gormrepo\<close>: the repositories over one PostgreSQL
  database, and \<open>UnitOfWork.Do\<close>.

  The state is a \<open>world\<close>: the tables, the sequences and the logs of what left the program.
  A table is a list of rows in insertion order; a row is the domain object without its
  pending events. A statement can fail: before its \<open>n\<close>-th statement the database is asked
  through \<open>w_faults n\<close> whether the driver returns an error, so every theorem that does not
  exclude it covers a database that fails at any point. Constraints of the
  migrations that the repositories can violate (primary and foreign keys, the checks on
  amounts) make a statement fail too. Sequences and the log of external effects are not
  rolled back. Instants are stored as they are; PostgreSQL's rounding to microseconds is
  not modelled, nor are the JSON encodings of columns.

  \<open>NewID\<close> draws its UUIDs from a supply in the world: each operation that needs some draws
  a fresh row of it.
\<close>

section \<open>Events\<close>

datatype event =
    TxEvent tx_event
  | RcvEvent receivables_scheduled
  | AntEvent ant_confirmed
  | StlEvent stl_event
  | CbEvent cb_event

text \<open>The base event the concrete event embeds.\<close>

definition event_base :: "event \<Rightarrow> base_event" where
  "event_base e = (case e of TxEvent t \<Rightarrow> te_base t | RcvEvent r \<Rightarrow> rs_base r | AntEvent a \<Rightarrow> ac_base a
     | StlEvent s \<Rightarrow> se_base s | CbEvent c \<Rightarrow> ce_base c)"

definition EventID :: "event \<Rightarrow> string" where
  "EventID e = ev_ID (event_base e)"

definition EventType :: "event \<Rightarrow> string" where
  "EventType e = ev_Type (event_base e)"

definition AggregateID :: "event \<Rightarrow> string" where
  "AggregateID e = ev_Aggregate (event_base e)"

section \<open>The state\<close>

record outbox_row =
  ob_id :: nat
  ob_event :: event
  ob_published :: bool

record tables =
  t_merchants :: "merchant list"
  t_transactions :: "transaction list"
  t_receivables :: "receivable list"
  t_settlements :: "settlement list"
  t_anticipations :: "anticipation list"
  t_chargebacks :: "chargeback list"
  t_ledger :: "entry list"
  t_outbox :: "outbox_row list"
  t_processed :: "(string \<times> string) list"

datatype effect =
    BankFile settlement
  | IssuerReverse string
  | RegistryRegister "unit_total list"
  | RegistryTransfer "string list" string
  | Webhook string string "(string \<times> string) list"
  | LockTaken string
  | LockReleased string

record world =
  w_db :: tables
  w_nsu :: nat
  w_outbox_seq :: nat
  w_stmts :: nat
  w_faults :: "nat \<Rightarrow> go_error option"
  w_locked :: "string list"
  w_draws :: nat
  w_uuids :: "nat \<Rightarrow> nat \<Rightarrow> string"
  w_effects :: "effect list"

type_synonym 'a dbm = "world \<Rightarrow> 'a result \<times> world"

definition ret :: "'a \<Rightarrow> 'a dbm" where
  "ret x w = (Inr x, w)"

definition fail :: "go_error \<Rightarrow> 'a dbm" where
  "fail e w = (Inl e, w)"

definition mbind :: "'a dbm \<Rightarrow> ('a \<Rightarrow> 'b dbm) \<Rightarrow> 'b dbm" where
  "mbind m f w = (case m w of (Inl e, w') \<Rightarrow> (Inl e, w') | (Inr x, w') \<Rightarrow> f x w')"

definition lift_result :: "'a result \<Rightarrow> 'a dbm" where
  "lift_result r w = (r, w)"

text \<open>\<open>fmt.Errorf("...: %w", err)\<close> around the error of an operation.\<close>

definition wrap :: "string list \<Rightarrow> 'a dbm \<Rightarrow> 'a dbm" where
  "wrap args m w = (case m w of (Inl e, w') \<Rightarrow> (Inl (Errorf args e), w') | (Inr x, w') \<Rightarrow> (Inr x, w'))"

definition fresh :: "(nat \<Rightarrow> string) dbm" where
  "fresh w = (Inr (w_uuids w (w_draws w)), w\<lparr>w_draws := w_draws w + 1\<rparr>)"

definition effect_log :: "effect \<Rightarrow> unit dbm" where
  "effect_log e w = (Inr (), w\<lparr>w_effects := w_effects w @ [e]\<rparr>)"

text \<open>One SQL statement.\<close>

definition stmt :: "'a dbm \<Rightarrow> 'a dbm" where
  "stmt m w = (case w_faults w (w_stmts w) of
       Some e \<Rightarrow> (Inl e, w\<lparr>w_stmts := w_stmts w + 1\<rparr>)
     | None \<Rightarrow> m (w\<lparr>w_stmts := w_stmts w + 1\<rparr>))"

definition query :: "(tables \<Rightarrow> 'a) \<Rightarrow> 'a dbm" where
  "query q = stmt (\<lambda>w. (Inr (q (w_db w)), w))"

definition exec :: "(tables \<Rightarrow> 'a result \<times> tables) \<Rightarrow> 'a dbm" where
  "exec f = stmt (\<lambda>w. (case f (w_db w) of (r, t) \<Rightarrow> (r, w\<lparr>w_db := t\<rparr>)))"

section \<open>Statements on one table\<close>

definition constraint_violation :: go_error where
  "constraint_violation = ErrorString ''violates constraint''"

definition insert_row :: "bool \<Rightarrow> ('r \<Rightarrow> 'k) \<Rightarrow> 'r \<Rightarrow> 'r list \<Rightarrow> unit result \<times> 'r list" where
  "insert_row ok key r rows =
     (if ok \<and> key r \<notin> key ` set rows then (Inr (), rows @ [r]) else (Inl constraint_violation, rows))"

text \<open>
  \<open>UPDATE ... SET ... WHERE id = $1 AND version < $v\<close>: \<open>set_columns x r\<close> is the row with the
  columns the statement assigns taken from \<open>x\<close>; the result is the number of rows it changed.
\<close>

definition update_version ::
  "('r \<Rightarrow> string) \<Rightarrow> ('r \<Rightarrow> int) \<Rightarrow> ('r \<Rightarrow> 'r \<Rightarrow> 'r) \<Rightarrow> 'r \<Rightarrow> 'r list \<Rightarrow> nat result \<times> 'r list" where
  "update_version key ver set_columns x rows =
     (Inr (length (filter (\<lambda>r. key r = key x \<and> ver r < ver x) rows)),
      map (\<lambda>r. if key r = key x \<and> ver r < ver x then set_columns x r else r) rows)"

definition check_affected :: "nat \<Rightarrow> unit dbm" where
  "check_affected n = (if n = 0 then fail (Sentinel ErrConcurrentUpdate) else ret ())"

section \<open>Merchants (gormrepo)\<close>

text \<open>
  \<open>toDomain\<close> validates the stored plan again with \<open>NewFeePlan\<close>; the other columns come back
  as they were stored.
\<close>

definition merchant_toDomain :: "merchant \<Rightarrow> merchant result" where
  "merchant_toDomain row =
     (case NewFeePlan (fp_debit (m_feePlan row)) (fp_creditOneShot (m_feePlan row))
             (fp_creditInstallments (m_feePlan row)) (fp_anticipationRateMonth (m_feePlan row)) of
        Inl err \<Rightarrow> Inl err
      | Inr plan \<Rightarrow> Inr (merchant_Restore (m_id row) (m_document row) (m_legalName row) (m_mcc row)
          (m_status row) (m_bankAccount row) plan (m_webhookURL row) (m_autoAnticipation row)
          (m_version row) (m_createdAt row) (m_updatedAt row)))"

definition merchants_Create :: "merchant \<Rightarrow> unit dbm" where
  "merchants_Create m = wrap [] (exec (\<lambda>t.
     case insert_row (m_document m \<notin> m_document ` set (t_merchants t)) m_id m (t_merchants t) of
       (r, rows) \<Rightarrow> (r, t\<lparr>t_merchants := rows\<rparr>)))"

definition merchants_FindByID :: "string \<Rightarrow> merchant dbm" where
  "merchants_FindByID i = mbind (wrap [] (query (\<lambda>t. find (\<lambda>m. m_id m = i) (t_merchants t))))
     (\<lambda>row. case row of None \<Rightarrow> fail (Sentinel ErrNotFound) | Some m \<Rightarrow> lift_result (merchant_toDomain m))"

text \<open>All columns but \<open>id\<close> and \<open>created_at\<close>.\<close>

definition merchant_columns :: "merchant \<Rightarrow> merchant \<Rightarrow> merchant" where
  "merchant_columns x r = x\<lparr>m_id := m_id r, m_createdAt := m_createdAt r\<rparr>"

definition merchants_Update :: "merchant \<Rightarrow> unit dbm" where
  "merchants_Update m = mbind (wrap [] (exec (\<lambda>t.
     case update_version m_id m_version merchant_columns m (t_merchants t) of
       (r, rows) \<Rightarrow> (r, t\<lparr>t_merchants := rows\<rparr>)))) check_affected"

section \<open>Transactions\<close>

definition row_of_tx :: "transaction \<Rightarrow> transaction" where
  "row_of_tx t = t\<lparr>tx_events := []\<rparr>"

definition transactions_Create :: "transaction \<Rightarrow> unit dbm" where
  "transactions_Create t = wrap [] (exec (\<lambda>d.
     case insert_row (tx_merchantID t \<in> m_id ` set (t_merchants d) \<and> 0 <s tx_amount t
            \<and> 1 \<le> tx_installments t \<and> tx_installments t \<le> 12)
            tx_id (row_of_tx t) (t_transactions d) of
       (r, rows) \<Rightarrow> (r, d\<lparr>t_transactions := rows\<rparr>)))"

definition transactions_find :: "string \<Rightarrow> string \<Rightarrow> tables \<Rightarrow> transaction option" where
  "transactions_find merchantID i d = find (\<lambda>t. tx_id t = i \<and> tx_merchantID t = merchantID) (t_transactions d)"

definition transactions_FindByID :: "string \<Rightarrow> string \<Rightarrow> transaction dbm" where
  "transactions_FindByID merchantID i = mbind (wrap [] (query (transactions_find merchantID i)))
     (\<lambda>row. case row of None \<Rightarrow> fail (Sentinel ErrNotFound) | Some t \<Rightarrow> ret t)"

text \<open>The row lock of \<open>FOR UPDATE\<close> orders concurrent operations; it reads the same row.\<close>

definition transactions_FindByIDForUpdate :: "string \<Rightarrow> string \<Rightarrow> transaction dbm" where
  "transactions_FindByIDForUpdate = transactions_FindByID"

definition tx_columns :: "transaction \<Rightarrow> transaction \<Rightarrow> transaction" where
  "tx_columns x r = r\<lparr>tx_status := tx_status x, tx_authorizationCode := tx_authorizationCode x,
     tx_nsu := tx_nsu x, tx_responseCode := tx_responseCode x, tx_authorizedAt := tx_authorizedAt x,
     tx_capturedAt := tx_capturedAt x, tx_canceledAt := tx_canceledAt x, tx_version := tx_version x\<rparr>"

definition transactions_Update :: "transaction \<Rightarrow> unit dbm" where
  "transactions_Update t = mbind (wrap [] (exec (\<lambda>d.
     case update_version tx_id tx_version tx_columns t (t_transactions d) of
       (r, rows) \<Rightarrow> (r, d\<lparr>t_transactions := rows\<rparr>)))) check_affected"

text \<open>\<open>fmt.Sprintf("%012d", nextval('nsu_seq'))\<close>.\<close>

definition nsu_Next :: "string dbm" where
  "nsu_Next = wrap [] (stmt (\<lambda>w. (Inr (dec_pad 12 (w_nsu w)), w\<lparr>w_nsu := w_nsu w + 1\<rparr>)))"

section \<open>Receivables\<close>

definition receivable_ok :: "tables \<Rightarrow> receivable \<Rightarrow> bool" where
  "receivable_ok d x \<longleftrightarrow> rcv_transactionID x \<in> tx_id ` set (t_transactions d)
     \<and> rcv_merchantID x \<in> m_id ` set (t_merchants d)"

fun receivables_SaveAll :: "receivable list \<Rightarrow> unit dbm" where
  "receivables_SaveAll [] = ret ()"
| "receivables_SaveAll (x # xs) =
     mbind (wrap [rcv_id x] (exec (\<lambda>d. case insert_row (receivable_ok d x) rcv_id x (t_receivables d) of
         (r, rows) \<Rightarrow> (r, d\<lparr>t_receivables := rows\<rparr>))))
       (\<lambda>_. receivables_SaveAll xs)"

text \<open>
  \<open>scanReceivable\<close> restores every column, the due date through \<open>DateOnly\<close>.
\<close>

definition scanReceivable :: "receivable \<Rightarrow> receivable" where
  "scanReceivable row = rcv_Restore (rcv_id row) (rcv_transactionID row) (rcv_merchantID row)
     (rcv_installmentNo row) (rcv_installments row) (rcv_product row) (rcv_brand row) (rcv_gross row)
     (rcv_fee row) (rcv_net row) (DateOnly (rcv_dueDate row)) (rcv_status row) (rcv_settlementID row)
     (rcv_anticipationID row) (rcv_version row) (rcv_createdAt row) (rcv_updatedAt row)"

definition receivables_list :: "(receivable list \<Rightarrow> receivable list) \<Rightarrow> receivable list dbm" where
  "receivables_list q = mbind (wrap [] (query (\<lambda>d. q (t_receivables d)))) (\<lambda>rows. ret (map scanReceivable rows))"

definition receivables_ListByMerchant :: "string \<Rightarrow> list_filter \<Rightarrow> receivable list dbm" where
  "receivables_ListByMerchant merchantID f =
     receivables_list (\<lambda>rows. take (nat (f_Limit f)) (sort_key (\<lambda>r. (rcv_dueDate r, rcv_installmentNo r))
       (filter (\<lambda>r. rcv_merchantID r = merchantID
          \<and> (f_Status f = '''' \<or> rcv_status_string (rcv_status r) = f_Status f)
          \<and> (f_From f = zero_time \<or> DateOnly (f_From f) \<le> rcv_dueDate r)
          \<and> (f_To f = zero_time \<or> rcv_dueDate r \<le> DateOnly (f_To f))) rows)))"

definition receivables_ListByTransaction :: "string \<Rightarrow> receivable list dbm" where
  "receivables_ListByTransaction transactionID =
     receivables_list (\<lambda>rows. sort_key rcv_installmentNo (filter (\<lambda>r. rcv_transactionID r = transactionID) rows))"

text \<open>\<open>SKIP LOCKED\<close>: the rows another transaction has locked are left out.\<close>

definition due_on :: "string list \<Rightarrow> time \<Rightarrow> receivable \<Rightarrow> bool" where
  "due_on locked day r \<longleftrightarrow> rcv_dueDate r = DateOnly day \<and> rcv_status r \<in> {RScheduled, RAnticipated}
     \<and> rcv_id r \<notin> set locked"

definition receivables_ListDueOnForUpdate :: "time \<Rightarrow> int \<Rightarrow> receivable list dbm" where
  "receivables_ListDueOnForUpdate day limit w =
     receivables_list (\<lambda>rows. take (nat limit) (sort_key (\<lambda>r. (rcv_merchantID r, rcv_id r))
       (filter (due_on (w_locked w) day) rows))) w"

definition receivables_FindByIDs :: "string \<Rightarrow> string list \<Rightarrow> receivable list dbm" where
  "receivables_FindByIDs merchantID ids =
     receivables_list (\<lambda>rows. sort_key (\<lambda>r. (rcv_dueDate r, rcv_id r))
       (filter (\<lambda>r. rcv_merchantID r = merchantID \<and> rcv_id r \<in> set ids) rows))"

definition receivables_FindForUpdate :: "string \<Rightarrow> string list \<Rightarrow> receivable list dbm" where
  "receivables_FindForUpdate merchantID ids =
     receivables_list (\<lambda>rows. sort_key rcv_id
       (filter (\<lambda>r. rcv_merchantID r = merchantID \<and> rcv_id r \<in> set ids) rows))"

definition rcv_columns :: "receivable \<Rightarrow> receivable \<Rightarrow> receivable" where
  "rcv_columns x r = r\<lparr>rcv_status := rcv_status x, rcv_settlementID := rcv_settlementID x,
     rcv_anticipationID := rcv_anticipationID x, rcv_version := rcv_version x,
     rcv_updatedAt := rcv_updatedAt x\<rparr>"

fun receivables_UpdateAll :: "receivable list \<Rightarrow> unit dbm" where
  "receivables_UpdateAll [] = ret ()"
| "receivables_UpdateAll (x # xs) =
     mbind (mbind (wrap [rcv_id x] (exec (\<lambda>d.
         case update_version rcv_id rcv_version rcv_columns x (t_receivables d) of
           (r, rows) \<Rightarrow> (r, d\<lparr>t_receivables := rows\<rparr>)))) check_affected)
       (\<lambda>_. receivables_UpdateAll xs)"

text \<open>\<open>GROUP BY due_date, status ORDER BY due_date, status\<close> (the status as its text).\<close>

record daily_summary =
  ds_DueDate :: time
  ds_Status :: rcv_status
  ds_Count :: int
  ds_Net :: money

definition receivables_Summary :: "string \<Rightarrow> time \<Rightarrow> time \<Rightarrow> daily_summary list dbm" where
  "receivables_Summary merchantID lo hi = wrap [] (query (\<lambda>d.
     let rows = filter (\<lambda>r. rcv_merchantID r = merchantID \<and> DateOnly lo \<le> rcv_dueDate r
                         \<and> rcv_dueDate r \<le> DateOnly hi) (t_receivables d);
         groups = sort_key (\<lambda>(day, st). (day, rcv_status_string st))
                    (remdups (map (\<lambda>r. (rcv_dueDate r, rcv_status r)) rows))
     in map (\<lambda>(day, st).
          let g = filter (\<lambda>r. rcv_dueDate r = day \<and> rcv_status r = st) rows
          in \<lparr>ds_DueDate = day, ds_Status = st, ds_Count = int (length g), ds_Net = (\<Sum>r\<leftarrow>g. rcv_net r)\<rparr>) groups))"

section \<open>Settlements, anticipations, chargebacks\<close>

definition settlements_Create :: "settlement \<Rightarrow> unit dbm" where
  "settlements_Create s = wrap [] (exec (\<lambda>d.
     case insert_row (stl_merchantID s \<in> m_id ` set (t_merchants d)) stl_id (s\<lparr>stl_events := []\<rparr>)
            (t_settlements d) of (r, rows) \<Rightarrow> (r, d\<lparr>t_settlements := rows\<rparr>)))"

definition stl_columns :: "settlement \<Rightarrow> settlement \<Rightarrow> settlement" where
  "stl_columns x r = r\<lparr>stl_status := stl_status x, stl_externalRef := stl_externalRef x,
     stl_failureReason := stl_failureReason x, stl_version := stl_version x, stl_updatedAt := stl_updatedAt x\<rparr>"

definition settlements_Update :: "settlement \<Rightarrow> unit dbm" where
  "settlements_Update s = mbind (wrap [] (exec (\<lambda>d.
     case update_version stl_id stl_version stl_columns s (t_settlements d) of
       (r, rows) \<Rightarrow> (r, d\<lparr>t_settlements := rows\<rparr>)))) check_affected"

definition scanSettlement :: "settlement \<Rightarrow> settlement" where
  "scanSettlement row = stl_Restore (stl_id row) (DateOnly (stl_date row)) (stl_merchantID row) (stl_total row)
     (stl_toMerchant row) (stl_toCreditors row) (stl_retained row) (stl_orders row) (stl_receivableIDs row)
     (stl_status row) (stl_externalRef row) (stl_failureReason row) (stl_createdAt row) (stl_updatedAt row)
     (stl_version row)"

definition settlements_list :: "(settlement list \<Rightarrow> settlement list) \<Rightarrow> settlement list dbm" where
  "settlements_list q = mbind (wrap [] (query (\<lambda>d. q (t_settlements d)))) (\<lambda>rows. ret (map scanSettlement rows))"

definition settlements_FindByID :: "string \<Rightarrow> string \<Rightarrow> settlement dbm" where
  "settlements_FindByID merchantID i =
     mbind (settlements_list (filter (\<lambda>s. stl_id s = i \<and> stl_merchantID s = merchantID)))
       (\<lambda>rows. case rows of [] \<Rightarrow> fail (Sentinel ErrNotFound) | s # _ \<Rightarrow> ret s)"

definition settlements_ListByMerchant :: "string \<Rightarrow> int \<Rightarrow> settlement list dbm" where
  "settlements_ListByMerchant merchantID limit = settlements_list (\<lambda>rows.
     take (nat limit) (sort_key (\<lambda>s. - stl_date s) (filter (\<lambda>s. stl_merchantID s = merchantID) rows)))"

definition settlements_ListByDate :: "time \<Rightarrow> settlement list dbm" where
  "settlements_ListByDate day = settlements_list (\<lambda>rows.
     sort_key stl_merchantID (filter (\<lambda>s. stl_date s = DateOnly day) rows))"

definition anticipations_Create :: "anticipation \<Rightarrow> unit dbm" where
  "anticipations_Create a = wrap [] (exec (\<lambda>d.
     case insert_row (ant_merchantID a \<in> m_id ` set (t_merchants d)) ant_id (a\<lparr>ant_events := []\<rparr>)
            (t_anticipations d) of (r, rows) \<Rightarrow> (r, d\<lparr>t_anticipations := rows\<rparr>)))"

definition anticipations_list :: "(anticipation list \<Rightarrow> anticipation list) \<Rightarrow> anticipation list dbm" where
  "anticipations_list q = mbind (wrap [] (query (\<lambda>d. q (t_anticipations d))))
     (\<lambda>rows. ret (map (\<lambda>a. ant_Restore (ant_id a) (ant_merchantID a) (ant_items a) (ant_gross a) (ant_discount a)
        (ant_net a) (ant_rateMonth a) (ant_requestedAt a) (ant_status a) (ant_version a)) rows))"

definition anticipations_FindByID :: "string \<Rightarrow> string \<Rightarrow> anticipation dbm" where
  "anticipations_FindByID merchantID i =
     mbind (anticipations_list (filter (\<lambda>a. ant_id a = i \<and> ant_merchantID a = merchantID)))
       (\<lambda>rows. case rows of [] \<Rightarrow> fail (Sentinel ErrNotFound) | a # _ \<Rightarrow> ret a)"

definition anticipations_ListByMerchant :: "string \<Rightarrow> int \<Rightarrow> anticipation list dbm" where
  "anticipations_ListByMerchant merchantID limit = anticipations_list (\<lambda>rows.
     take (nat limit) (sort_key (\<lambda>a. - ant_requestedAt a) (filter (\<lambda>a. ant_merchantID a = merchantID) rows)))"

definition chargebacks_Create :: "chargeback \<Rightarrow> unit dbm" where
  "chargebacks_Create c = wrap [] (exec (\<lambda>d.
     case insert_row (cb_transactionID c \<in> tx_id ` set (t_transactions d)
            \<and> cb_merchantID c \<in> m_id ` set (t_merchants d)) cb_id (c\<lparr>cb_events := []\<rparr>)
            (t_chargebacks d) of (r, rows) \<Rightarrow> (r, d\<lparr>t_chargebacks := rows\<rparr>)))"

definition cb_columns :: "chargeback \<Rightarrow> chargeback \<Rightarrow> chargeback" where
  "cb_columns x r = r\<lparr>cb_status := cb_status x, cb_resolvedAt := cb_resolvedAt x, cb_version := cb_version x\<rparr>"

definition chargebacks_Update :: "chargeback \<Rightarrow> unit dbm" where
  "chargebacks_Update c = mbind (wrap [] (exec (\<lambda>d.
     case update_version cb_id cb_version cb_columns c (t_chargebacks d) of
       (r, rows) \<Rightarrow> (r, d\<lparr>t_chargebacks := rows\<rparr>)))) check_affected"

definition chargebacks_FindByID :: "string \<Rightarrow> string \<Rightarrow> chargeback dbm" where
  "chargebacks_FindByID merchantID i =
     mbind (wrap [] (query (\<lambda>d. find (\<lambda>c. cb_id c = i \<and> cb_merchantID c = merchantID) (t_chargebacks d))))
       (\<lambda>row. case row of None \<Rightarrow> fail (Sentinel ErrNotFound) | Some c \<Rightarrow> ret c)"

section \<open>Ledger, outbox, processed events\<close>

fun ledger_insert :: "entry list \<Rightarrow> unit dbm" where
  "ledger_insert [] = ret ()"
| "ledger_insert (e # es) =
     mbind (wrap [] (exec (\<lambda>d.
       case insert_row (0 \<le>s le_Debit e \<and> 0 \<le>s le_Credit e \<and> (le_Debit e = 0 \<or> le_Credit e = 0))
              le_ID e (t_ledger d) of (r, rows) \<Rightarrow> (r, d\<lparr>t_ledger := rows\<rparr>))))
       (\<lambda>_. ledger_insert es)"

definition ledger_Append :: "entry list \<Rightarrow> unit dbm" where
  "ledger_Append es = (if \<not> Balanced es then fail (ErrorString ''lote desbalanceado'') else ledger_insert es)"

text \<open>The database sums in NUMERIC; a sum beyond 64 bits would fail to scan.\<close>

definition ledger_Balance :: "account \<Rightarrow> string \<Rightarrow> money dbm" where
  "ledger_Balance acc merchantID = wrap [] (query (\<lambda>d. ledger_balance acc merchantID (t_ledger d)))"

fun outbox_Append :: "event list \<Rightarrow> unit dbm" where
  "outbox_Append [] = ret ()"
| "outbox_Append (ev # evs) =
     mbind (wrap [] (stmt (\<lambda>w.
       let row = \<lparr>ob_id = w_outbox_seq w, ob_event = ev, ob_published = False\<rparr>;
           w' = w\<lparr>w_outbox_seq := w_outbox_seq w + 1\<rparr>
       in case insert_row True (EventID \<circ> ob_event) row (t_outbox (w_db w)) of
            (r, rows) \<Rightarrow> (r, w'\<lparr>w_db := (w_db w)\<lparr>t_outbox := rows\<rparr>\<rparr>))))
       (\<lambda>_. outbox_Append evs)"

text \<open>\<open>INSERT ... ON CONFLICT DO NOTHING\<close>; new exactly if a row was inserted.\<close>

definition processed_MarkIfNew :: "string \<Rightarrow> string \<Rightarrow> bool dbm" where
  "processed_MarkIfNew consumer eventID = wrap [] (exec (\<lambda>d.
     if (consumer, eventID) \<in> set (t_processed d) then (Inr False, d)
     else (Inr True, d\<lparr>t_processed := t_processed d @ [(consumer, eventID)]\<rparr>)))"

section \<open>The unit of work\<close>

text \<open>
  \<open>BeginTx\<close> and \<open>Commit\<close> are statements that can fail; on any error the tables are what they
  were. What the function's result says is lost with the error.
\<close>

definition Do :: "'a dbm \<Rightarrow> 'a dbm" where
  "Do f w =
     (case wrap [] (stmt (ret ())) w of
        (Inl err, w1) \<Rightarrow> (Inl err, w1)
      | (Inr _, w1) \<Rightarrow>
          (case f w1 of
             (Inl err, w2) \<Rightarrow> (Inl err, w2\<lparr>w_db := w_db w1\<rparr>)
           | (Inr x, w2) \<Rightarrow>
               (case wrap [] (stmt (ret ())) w2 of
                  (Inl err, w3) \<Rightarrow> (Inl err, w3\<lparr>w_db := w_db w1\<rparr>)
                | (Inr _, w3) \<Rightarrow> (Inr x, w3))))"

section \<open>How the statements run\<close>

lemma ret_simps [simp]: "ret x w = (Inr x, w)" by (simp add: ret_def)
lemma fail_simps [simp]: "fail e w = (Inl e, w)" by (simp add: fail_def)
lemma lift_result_simps [simp]: "lift_result r w = (r, w)" by (simp add: lift_result_def)

lemma mbind_Inr [simp]:
  "mbind m f w = (Inr y, w'') \<longleftrightarrow> (\<exists>x w'. m w = (Inr x, w') \<and> f x w' = (Inr y, w''))"
  by (auto simp: mbind_def split: prod.splits sum.splits)

lemma mbind_Inl:
  "mbind m f w = (Inl e, w'') \<longleftrightarrow>
     m w = (Inl e, w'') \<or> (\<exists>x w'. m w = (Inr x, w') \<and> f x w' = (Inl e, w''))"
  by (auto simp: mbind_def split: prod.splits sum.splits)

lemma wrap_Inr [simp]: "wrap args m w = (Inr x, w') \<longleftrightarrow> m w = (Inr x, w')"
  by (auto simp: wrap_def split: prod.splits sum.splits)

lemma stmt_Inr [simp]:
  "stmt m w = (Inr x, w') \<longleftrightarrow>
     w_faults w (w_stmts w) = None \<and> m (w\<lparr>w_stmts := w_stmts w + 1\<rparr>) = (Inr x, w')"
  by (auto simp: stmt_def split: option.splits)

lemma query_Inr [simp]:
  "query q w = (Inr x, w') \<longleftrightarrow>
     w_faults w (w_stmts w) = None \<and> x = q (w_db w) \<and> w' = w\<lparr>w_stmts := w_stmts w + 1\<rparr>"
  by (auto simp: query_def)

lemma exec_Inr [simp]:
  "exec f w = (Inr x, w') \<longleftrightarrow>
     w_faults w (w_stmts w) = None \<and> (\<exists>t. f (w_db w) = (Inr x, t) \<and> w' = w\<lparr>w_stmts := w_stmts w + 1, w_db := t\<rparr>)"
  by (auto simp: exec_def split: prod.splits)

lemma check_affected_Inr [simp]: "check_affected n w = (Inr x, w') \<longleftrightarrow> n \<noteq> 0 \<and> w' = w"
  by (auto simp: check_affected_def)

lemma fresh_Inr [simp]:
  "fresh w = (Inr x, w') \<longleftrightarrow> x = w_uuids w (w_draws w) \<and> w' = w\<lparr>w_draws := w_draws w + 1\<rparr>"
  by (auto simp: fresh_def)

lemma insert_row_Inr [simp]:
  "insert_row ok key r rows = (Inr u, rows') \<longleftrightarrow>
     ok \<and> key r \<notin> key ` set rows \<and> rows' = rows @ [r]"
  by (auto simp: insert_row_def)

section \<open>Optimistic locking\<close>

text \<open>
  The contract of an \<open>UPDATE ... WHERE id = $1 AND version < $v\<close>: the columns it assigns
  include the version and not the key. Every repository with a version interprets it.
\<close>

locale versioned_rows =
  fixes key :: "'r \<Rightarrow> string" and ver :: "'r \<Rightarrow> int" and cols :: "'r \<Rightarrow> 'r \<Rightarrow> 'r"
  assumes cols_key [simp]: "key (cols x r) = key r"
    and cols_ver [simp]: "ver (cols x r) = ver x"
begin

lemma update_keys: "map key (snd (update_version key ver cols x rows)) = map key rows"
  by (simp add: update_version_def)

lemma update_count_le1:
  "distinct (map key rows) \<Longrightarrow> fst (update_version key ver cols x rows) = Inr n \<Longrightarrow> n \<le> 1"
proof (induction rows arbitrary: n)
  case (Cons r rows)
  show ?case
  proof (cases "key r = key x")
    case True
    then have "filter (\<lambda>r. key r = key x \<and> ver r < ver x) rows = []"
      using Cons.prems(1) unfolding filter_empty_conv by (metis distinct.simps(2) image_eqI list.simps(9) set_map)
    then show ?thesis using Cons.prems by (simp add: update_version_def split: if_splits)
  next
    case False
    then show ?thesis using Cons by (simp add: update_version_def)
  qed
qed (simp add: update_version_def)

text \<open>The second of two writers that read the same version loses.\<close>

lemma second_writer_loses:
  assumes "key y = key x" "ver y \<le> ver x" "distinct (map key rows)"
    and "update_version key ver cols x rows = (Inr n, rows')" "n \<noteq> 0"
  shows "update_version key ver cols y rows' = (Inr 0, rows')"
proof -
  from assms(4,5) obtain r where r: "r \<in> set rows" "key r = key x" "ver r < ver x"
    by (auto simp: update_version_def filter_empty_conv)
  have only: "r' = r" if "r' \<in> set rows" "key r' = key x" for r'
    using assms(3) that r by (auto simp: distinct_map inj_on_def)
  have rows': "rows' = map (\<lambda>r. if key r = key x \<and> ver r < ver x then cols x r else r) rows"
    using assms(4) by (simp add: update_version_def)
  have "\<not> (key r' = key y \<and> ver r' < ver y)" if r': "r' \<in> set rows'" for r'
  proof -
    obtain r0 where r0: "r0 \<in> set rows" "r' = (if key r0 = key x \<and> ver r0 < ver x then cols x r0 else r0)"
      using r' rows' by auto
    show ?thesis
    proof (cases "key r0 = key x")
      case True
      then have "r' = cols x r0" using r0 only [of r0] r by simp
      then show ?thesis using assms(2) by simp
    qed (use r0 assms(1) in auto)
  qed
  then have "filter (\<lambda>r. key r = key y \<and> ver r < ver y) rows' = []" by (simp add: filter_empty_conv)
  moreover have "map (\<lambda>r. if key r = key y \<and> ver r < ver y then cols y r else r) rows' = rows'"
    using calculation by (intro map_idI) (auto simp: filter_empty_conv)
  ultimately show ?thesis by (simp add: update_version_def)
qed

lemma update_other_rows:
  "update_version key ver cols x rows = (Inr n, rows') \<Longrightarrow>
     filter (\<lambda>r. key r \<noteq> key x) rows' = filter (\<lambda>r. key r \<noteq> key x) rows"
  by (induction rows arbitrary: rows' n) (auto simp: update_version_def)

lemma update_versions_grow:
  "update_version key ver cols x rows = (Inr n, rows') \<Longrightarrow>
     list_all2 (\<lambda>r r'. key r' = key r \<and> ver r \<le> ver r') rows rows'"
  by (auto simp: update_version_def list.rel_map intro!: list.rel_refl_strong)

end

interpretation mrows: versioned_rows m_id m_version merchant_columns
  by unfold_locales (simp_all add: merchant_columns_def)

interpretation txrows: versioned_rows tx_id tx_version tx_columns
  by unfold_locales (simp_all add: tx_columns_def)

interpretation rcvrows: versioned_rows rcv_id rcv_version rcv_columns
  by unfold_locales (simp_all add: rcv_columns_def)

interpretation stlrows: versioned_rows stl_id stl_version stl_columns
  by unfold_locales (simp_all add: stl_columns_def)

interpretation cbrows: versioned_rows cb_id cb_version cb_columns
  by unfold_locales (simp_all add: cb_columns_def)

section \<open>The unit of work is atomic\<close>

lemma Do_Inr:
  "Do f w = (Inr x, w') \<longleftrightarrow>
     (\<exists>w2. w_faults w (w_stmts w) = None \<and> f (w\<lparr>w_stmts := w_stmts w + 1\<rparr>) = (Inr x, w2)
        \<and> w_faults w2 (w_stmts w2) = None \<and> w' = w2\<lparr>w_stmts := w_stmts w2 + 1\<rparr>)"
  by (auto simp: Do_def wrap_def stmt_def split: prod.splits sum.splits option.splits)

lemma begin_stmt_db [simp]: "wrap [] (stmt (ret ())) w = (r, w') \<Longrightarrow> w_db w' = w_db w"
  by (auto simp: wrap_def stmt_def split: option.splits)

lemma Do_Inl_db: "Do f w = (Inl e, w') \<Longrightarrow> w_db w' = w_db w"
proof -
  assume run: "Do f w = (Inl e, w')"
  obtain r1 w1 where 1: "wrap [] (stmt (ret ())) w = (r1, w1)" by fastforce
  obtain r2 w2 where 2: "f w1 = (r2, w2)" by fastforce
  obtain r3 w3 where 3: "wrap [] (stmt (ret ())) w2 = (r3, w3)" by fastforce
  show ?thesis
    using run begin_stmt_db [OF 1] by (cases r1; cases r2; cases r3) (auto simp: Do_def 1 2 3)
qed


text \<open>C20: two concurrent changes of one transaction read at the same version: whichever is
  written second gets \<open>ErrConcurrentUpdate\<close> and changes nothing, so no change is lost.\<close>

theorem no_lost_update:
  assumes "distinct (map tx_id (t_transactions (w_db w)))"
    and "transactions_Update t w = (Inr (), w')"
    and "tx_id t' = tx_id t" "tx_version t' = tx_version t" "w_faults w' (w_stmts w') = None"
  shows "transactions_Update t' w' = (Inl (Sentinel ErrConcurrentUpdate), w'\<lparr>w_stmts := w_stmts w' + 1\<rparr>)
    \<and> w_db w' = (w_db w)\<lparr>t_transactions := t_transactions (w_db w')\<rparr>
    \<and> filter (\<lambda>r. tx_id r \<noteq> tx_id t) (t_transactions (w_db w')) = filter (\<lambda>r. tx_id r \<noteq> tx_id t) (t_transactions (w_db w))"
proof -
  obtain n rows where u: "update_version tx_id tx_version tx_columns t (t_transactions (w_db w)) = (Inr n, rows)"
    "n \<noteq> 0" "w_db w' = (w_db w)\<lparr>t_transactions := rows\<rparr>"
    using assms(2) by (auto simp: transactions_Update_def split: prod.splits)
  have "update_version tx_id tx_version tx_columns t' rows = (Inr 0, rows)"
    using txrows.second_writer_loses [OF assms(3) _ assms(1) u(1,2)] assms(4) by simp
  then show ?thesis
    using assms(5) u txrows.update_other_rows [OF u(1)]
    by (simp add: transactions_Update_def mbind_def wrap_def exec_def stmt_def check_affected_def)
qed

section \<open>A sample world\<close>

definition sample_tables :: tables where
  "sample_tables = \<lparr>t_merchants = [sample_active], t_transactions = [sample_captured], t_receivables = [],
     t_settlements = [], t_anticipations = [], t_chargebacks = [], t_ledger = [], t_outbox = [],
     t_processed = []\<rparr>"

definition sample_world :: world where
  "sample_world = \<lparr>w_db = sample_tables, w_nsu = 1, w_outbox_seq = 1, w_stmts = 0, w_faults = (\<lambda>_. None),
     w_locked = [], w_draws = 0, w_uuids = (\<lambda>i j. dec i @ ''x'' @ dec j), w_effects = []\<rparr>"

definition sample_canceled :: transaction where
  "sample_canceled = sample_captured\<lparr>tx_status := Canceled, tx_canceledAt := Some 9, tx_version := 4\<rparr>"

definition sample_charged :: transaction where
  "sample_charged = sample_captured\<lparr>tx_status := Chargebacked, tx_version := 4\<rparr>"

theorem no_lost_update_witness:
  "\<exists>w'. transactions_Update sample_canceled sample_world = (Inr (), w')
     \<and> fst (transactions_Update sample_charged w') = Inl (Sentinel ErrConcurrentUpdate)"
proof -
  obtain w' where u: "transactions_Update sample_canceled sample_world = (Inr (), w')"
    by (simp add: transactions_Update_def sample_world_def sample_tables_def update_version_def
        sample_canceled_def sample_tx_defs)
  have "w_faults w' (w_stmts w') = None"
    using u by (auto simp: transactions_Update_def sample_world_def)
  then show ?thesis
    using no_lost_update [OF _ u, of sample_charged] u
    by (auto simp: sample_world_def sample_tables_def sample_charged_def sample_canceled_def)
qed

end
