(* ===== verification/Frames.thy ===== *)
theory Frames
  imports Store
begin

text \<open>
  What a run leaves alone, as a relation between the world before and after. The locale
  \<open>run_frame\<close> says what such a relation needs so that a program built from the operations of
  \<open>Store\<close> keeps it: then the rules below (collection \<open>frame\<close>) reduce the claim to the
  program's single statements. It is interpreted for the counters, for the effects outside
  the database and for the books.
\<close>

section \<open>Frame relations\<close>

definition runs :: "(world \<Rightarrow> world \<Rightarrow> bool) \<Rightarrow> 'a dbm \<Rightarrow> bool" where
  "runs R m \<longleftrightarrow> (\<forall>w. R w (snd (m w)))"

lemma runsD: "runs R m \<Longrightarrow> m w = (r, w') \<Longrightarrow> R w w'"
  unfolding runs_def by (metis snd_conv)

lemma runsI: "(\<And>w r w'. m w = (r, w') \<Longrightarrow> R w w') \<Longrightarrow> runs R m"
  unfolding runs_def by (metis prod.collapse)

lemma runs_if [frame]: "(b \<Longrightarrow> runs R m) \<Longrightarrow> (\<not> b \<Longrightarrow> runs R n) \<Longrightarrow> runs R (if b then m else n)"
  by simp

lemma runs_case_option [frame]:
  "runs R m \<Longrightarrow> (\<And>x. runs R (f x)) \<Longrightarrow> runs R (case v of None \<Rightarrow> m | Some x \<Rightarrow> f x)"
  by (cases v) simp_all

lemma runs_case_sum [frame]:
  "(\<And>x. runs R (f x)) \<Longrightarrow> (\<And>y. runs R (g y)) \<Longrightarrow> runs R (case v of Inl x \<Rightarrow> f x | Inr y \<Rightarrow> g y)"
  by (cases v) simp_all

lemma runs_case_list [frame]:
  "runs R m \<Longrightarrow> (\<And>x xs. runs R (f x xs)) \<Longrightarrow> runs R (case v of [] \<Rightarrow> m | x # xs \<Rightarrow> f x xs)"
  by (cases v) simp_all

lemma runs_case_prod [frame]: "(\<And>x y. runs R (f x y)) \<Longrightarrow> runs R (case v of (x, y) \<Rightarrow> f x y)"
  by (cases v) simp

lemma runs_Let [frame]: "(\<And>x. runs R (f x)) \<Longrightarrow> runs R (Let v f)"
  by (simp add: Let_def)

locale run_frame =
  fixes R :: "world \<Rightarrow> world \<Rightarrow> bool"
  assumes R_refl: "R w w"
    and R_trans: "R w w' \<Longrightarrow> R w' w'' \<Longrightarrow> R w w''"
    and R_stmts: "R w (w\<lparr>w_stmts := w_stmts w + 1\<rparr>)"
    and R_draws: "R w (w\<lparr>w_draws := w_draws w + 1\<rparr>)"
    and R_nsu: "R w (w\<lparr>w_nsu := w_nsu w + 1\<rparr>)"
begin

lemma run_ret [frame]: "runs R (ret x)" by (simp add: runs_def R_refl)
lemma run_fail [frame]: "runs R (fail e)" by (simp add: runs_def R_refl)
lemma run_lift [frame]: "runs R (lift_result r)" by (simp add: runs_def R_refl)
lemma run_fresh [frame]: "runs R fresh" by (simp add: runs_def fresh_def R_draws [simplified])

lemma run_mbind [frame]: "runs R m \<Longrightarrow> (\<And>x. runs R (f x)) \<Longrightarrow> runs R (mbind m f)"
proof (rule runsI)
  fix w r w'
  assume m: "runs R m" and f: "\<And>x. runs R (f x)" and run: "mbind m f w = (r, w')"
  obtain r1 w1 where 1: "m w = (r1, w1)" by fastforce
  show "R w w'"
  proof (cases r1)
    case (Inl e)
    then show ?thesis using run runsD [OF m 1] by (simp add: mbind_def 1)
  next
    case (Inr x)
    then have "f x w1 = (r, w')" using run by (simp add: mbind_def 1)
    then show ?thesis using R_trans [OF runsD [OF m 1] runsD [OF f]] by blast
  qed
qed

lemma run_wrap [frame]: "runs R m \<Longrightarrow> runs R (wrap args m)"
  unfolding runs_def wrap_def by (simp split: prod.split sum.split) (metis snd_conv)

lemma run_stmt [frame]: "runs R m \<Longrightarrow> runs R (stmt m)"
proof (rule runsI)
  fix w r w'
  assume m: "runs R m" and run: "stmt m w = (r, w')"
  show "R w w'"
  proof (cases "w_faults w (w_stmts w)")
    case None
    then have "m (w\<lparr>w_stmts := w_stmts w + 1\<rparr>) = (r, w')" using run by (simp add: stmt_def)
    then show ?thesis using R_trans [OF R_stmts runsD [OF m]] by blast
  qed (use run R_stmts in \<open>auto simp: stmt_def\<close>)
qed

lemma run_query [frame]: "runs R (query q)"
  unfolding query_def by (intro frame) (simp add: runs_def R_refl)

lemma run_exec:
  "(\<And>w r d. f (w_db w) = (r, d) \<Longrightarrow> R w (w\<lparr>w_db := d\<rparr>)) \<Longrightarrow> runs R (exec f)"
  unfolding exec_def by (intro frame) (auto simp: runs_def split: prod.split)

lemma run_check_affected [frame]: "runs R (check_affected n)"
  unfolding check_affected_def by (intro frame)

lemma run_nsu [frame]: "runs R nsu_Next"
  unfolding nsu_Next_def by (intro frame) (simp add: runs_def R_nsu [simplified])

lemma run_reads [frame]:
  "runs R (merchants_FindByID i)" "runs R (transactions_FindByID mid i)"
  "runs R (transactions_FindByIDForUpdate mid i)" "runs R (receivables_list q)"
  "runs R (receivables_ListByMerchant mid f)" "runs R (receivables_ListByTransaction i)"
  "runs R (receivables_FindByIDs mid ids)" "runs R (receivables_FindForUpdate mid ids)"
  "runs R (receivables_Summary mid lo hi)" "runs R (anticipations_FindByID mid i)"
  unfolding merchants_FindByID_def transactions_FindByID_def transactions_FindByIDForUpdate_def
    receivables_list_def receivables_ListByMerchant_def receivables_ListByTransaction_def
    receivables_FindByIDs_def receivables_FindForUpdate_def receivables_Summary_def anticipations_FindByID_def anticipations_list_def
  by (intro frame)+

lemma run_ListDue [frame]: "runs R (receivables_ListDueOnForUpdate day limit)"
proof (rule runsI)
  fix w r w'
  assume "receivables_ListDueOnForUpdate day limit w = (r, w')"
  then show "R w w'"
    unfolding receivables_ListDueOnForUpdate_def receivables_list_def by (rule runsD [rotated]) (intro frame)
qed

end

text \<open>A relation that a rollback of the tables keeps.\<close>

locale rollback_frame = run_frame +
  assumes R_rollback: "R w w' \<Longrightarrow> R w (w'\<lparr>w_db := w_db w\<rparr>)"
begin

lemma run_Do [frame]: "runs R f \<Longrightarrow> runs R (Do f)"
proof (rule runsI)
  fix w r w'
  assume f: "runs R f" and run: "Do f w = (r, w')"
  have bgn: "runs R (wrap [] (stmt (ret ())))" by (intro frame)
  obtain r1 w1 where 1: "wrap [] (stmt (ret ())) w = (r1, w1)" by fastforce
  obtain r2 w2 where 2: "f w1 = (r2, w2)" by fastforce
  obtain r3 w3 where 3: "wrap [] (stmt (ret ())) w2 = (r3, w3)" by fastforce
  have R: "R w w1" "R w1 w2" "R w1 w3"
    using runsD [OF bgn 1] runsD [OF f 2] runsD [OF bgn 3] R_trans by blast+
  then have "R w (w2\<lparr>w_db := w_db w1\<rparr>)" "R w (w3\<lparr>w_db := w_db w1\<rparr>)" "R w w3"
    using R_rollback R_trans by blast+
  then show "R w w'" using run R(1) by (cases r1; cases r2; cases r3) (auto simp: Do_def 1 2 3)
qed

end

text \<open>A relation that does not look at the tables at all.\<close>

locale outside_frame = run_frame +
  assumes R_tables: "R w (w\<lparr>w_db := d\<rparr>)"
    and R_seq: "R w (w\<lparr>w_outbox_seq := w_outbox_seq w + 1\<rparr>)"

sublocale outside_frame \<subseteq> rollback_frame
  by unfold_locales (blast intro: R_trans R_tables)

context outside_frame
begin

lemma run_any_exec [frame]: "runs R (exec f)"
  by (rule run_exec) (rule R_tables)

lemma run_outbox [frame]: "runs R (outbox_Append evs)"
proof (induction evs)
  case (Cons ev evs)
  have step: "R w (w\<lparr>w_outbox_seq := w_outbox_seq w + 1, w_db := d\<rparr>)" for w d
    by (rule R_trans [OF R_seq R_tables])
  have "runs R (\<lambda>w. let row = \<lparr>ob_id = w_outbox_seq w, ob_event = ev, ob_published = False\<rparr>;
           w' = w\<lparr>w_outbox_seq := w_outbox_seq w + 1\<rparr>
       in case insert_row True (EventID \<circ> ob_event) row (t_outbox (w_db w)) of
            (r, rows) \<Rightarrow> (r, w'\<lparr>w_db := (w_db w)\<lparr>t_outbox := rows\<rparr>\<rparr>))"
    by (rule runsI) (auto simp: Let_def step [simplified] split: prod.splits)
  then show ?case unfolding outbox_Append.simps by (intro frame Cons)
qed (unfold outbox_Append.simps, intro frame)

lemma run_loops [frame]:
  "runs R (receivables_SaveAll xs)" "runs R (receivables_UpdateAll xs)" "runs R (ledger_insert es)"
proof -
  show "runs R (receivables_SaveAll xs)"
    by (induction xs; unfold receivables_SaveAll.simps) (intro frame | assumption)+
  show "runs R (receivables_UpdateAll xs)"
    by (induction xs; unfold receivables_UpdateAll.simps) (intro frame | assumption)+
  show "runs R (ledger_insert es)"
    by (induction es; unfold ledger_insert.simps) (intro frame | assumption)+
qed

lemma run_writes [frame]:
  "runs R (merchants_Create m)" "runs R (merchants_Update m)"
  "runs R (transactions_Create t)" "runs R (transactions_Update t)"
  "runs R (settlements_Create s)" "runs R (settlements_Update s)" "runs R (anticipations_Create a)"
  "runs R (chargebacks_Create c)" "runs R (chargebacks_Update c)" "runs R (ledger_Append es)"
  "runs R (processed_MarkIfNew consumer eid)"
  unfolding merchants_Create_def merchants_Update_def transactions_Create_def transactions_Update_def
    settlements_Create_def settlements_Update_def anticipations_Create_def chargebacks_Create_def
    chargebacks_Update_def ledger_Append_def processed_MarkIfNew_def
  by (intro frame)+

end

section \<open>Nothing goes back\<close>

text \<open>
  The fault plan, the UUID supply and the foreign locks are not the program's; the counters
  never go back and the log of effects only grows.
\<close>

definition world_later :: "world \<Rightarrow> world \<Rightarrow> bool" where
  "world_later w w' \<longleftrightarrow> w_faults w' = w_faults w \<and> w_uuids w' = w_uuids w \<and> w_locked w' = w_locked w
     \<and> w_stmts w \<le> w_stmts w' \<and> w_nsu w \<le> w_nsu w' \<and> w_outbox_seq w \<le> w_outbox_seq w'
     \<and> w_draws w \<le> w_draws w' \<and> (\<exists>es. w_effects w' = w_effects w @ es)"

interpretation later: outside_frame world_later
  by unfold_locales (auto simp: world_later_def)

lemma later_effect [frame]: "runs world_later (effect_log e)"
  by (simp add: runs_def effect_log_def world_later_def)

section \<open>Nothing leaves the program\<close>

definition same_effects :: "world \<Rightarrow> world \<Rightarrow> bool" where
  "same_effects w w' \<longleftrightarrow> w_effects w' = w_effects w"

interpretation quiet: outside_frame same_effects
  by unfold_locales (auto simp: same_effects_def)

section \<open>The books are not touched\<close>

definition same_books :: "world \<Rightarrow> world \<Rightarrow> bool" where
  "same_books w w' \<longleftrightarrow> t_receivables (w_db w') = t_receivables (w_db w) \<and> t_ledger (w_db w') = t_ledger (w_db w)"

interpretation plain: rollback_frame same_books
  by unfold_locales (auto simp: same_books_def)

lemma plain_effect [frame]: "runs same_books (effect_log e)"
  by (simp add: runs_def effect_log_def same_books_def)

lemma plain_writes [frame]:
  "runs same_books (merchants_Create m)" "runs same_books (merchants_Update m)"
  "runs same_books (transactions_Create t)" "runs same_books (transactions_Update t)"
  "runs same_books (settlements_Create s)" "runs same_books (settlements_Update s)"
  "runs same_books (anticipations_Create a)" "runs same_books (chargebacks_Create c)"
  "runs same_books (chargebacks_Update c)" "runs same_books (processed_MarkIfNew consumer eid)"
  unfolding merchants_Create_def merchants_Update_def transactions_Create_def transactions_Update_def
    settlements_Create_def settlements_Update_def anticipations_Create_def chargebacks_Create_def
    chargebacks_Update_def processed_MarkIfNew_def
  by (intro frame plain.run_exec; force simp: same_books_def split: prod.splits if_splits)+

lemma plain_outbox [frame]: "runs same_books (outbox_Append evs)"
proof (induction evs)
  case (Cons ev evs)
  have "runs same_books (\<lambda>w. let row = \<lparr>ob_id = w_outbox_seq w, ob_event = ev, ob_published = False\<rparr>;
           w' = w\<lparr>w_outbox_seq := w_outbox_seq w + 1\<rparr>
       in case insert_row True (EventID \<circ> ob_event) row (t_outbox (w_db w)) of
            (r, rows) \<Rightarrow> (r, w'\<lparr>w_db := (w_db w)\<lparr>t_outbox := rows\<rparr>\<rparr>))"
    by (rule runsI) (auto simp: Let_def same_books_def split: prod.splits)
  then show ?case unfolding outbox_Append.simps by (intro frame Cons)
qed (unfold outbox_Append.simps, intro frame)

end
