(* ===== verification/Store_Effects.thy ===== *)
theory Store_Effects
  imports Frames
begin

text \<open>
  What a successful repository operation did to the tables: one equation per operation
  (collection \<open>effects\<close>), and the effect of \<open>UpdateAll\<close> on sums over the receivables.
\<close>

named_theorems effects \<open>tables after a successful repository operation\<close>

section \<open>Single statements\<close>

lemma merchants_Create_effect [effects]:
  "merchants_Create m w = (Inr u, w') \<Longrightarrow> w_db w' = (w_db w)\<lparr>t_merchants := t_merchants (w_db w) @ [m]\<rparr>"
  by (auto simp: merchants_Create_def split: prod.splits)

lemma merchants_FindByID_effect [effects]:
  "merchants_FindByID i w = (Inr m, w') \<Longrightarrow> w_db w' = w_db w"
  by (auto simp: merchants_FindByID_def split: option.splits)

lemma merchants_Update_effect [effects]:
  "merchants_Update m w = (Inr u, w') \<Longrightarrow> \<exists>rows. w_db w' = (w_db w)\<lparr>t_merchants := rows\<rparr>"
  by (auto simp: merchants_Update_def split: prod.splits)

lemma transactions_Create_effect [effects]:
  "transactions_Create t w = (Inr u, w') \<Longrightarrow>
     w_db w' = (w_db w)\<lparr>t_transactions := t_transactions (w_db w) @ [row_of_tx t]\<rparr>
     \<and> tx_id t \<notin> tx_id ` set (t_transactions (w_db w))"
  by (auto simp: transactions_Create_def row_of_tx_def split: prod.splits)

lemma transactions_FindByID_effect [effects]:
  "transactions_FindByID mid i w = (Inr t, w') \<Longrightarrow> w_db w' = w_db w
     \<and> t \<in> set (t_transactions (w_db w)) \<and> tx_id t = i \<and> tx_merchantID t = mid"
  by (auto simp: transactions_FindByID_def transactions_find_def find_Some_iff in_set_conv_nth split: option.splits)

lemma transactions_FindByIDForUpdate_effect [effects]:
  "transactions_FindByIDForUpdate mid i w = (Inr t, w') \<Longrightarrow> w_db w' = w_db w
     \<and> t \<in> set (t_transactions (w_db w)) \<and> tx_id t = i \<and> tx_merchantID t = mid"
  unfolding transactions_FindByIDForUpdate_def by (rule transactions_FindByID_effect)

lemma transactions_Update_effect [effects]:
  "transactions_Update t w = (Inr u, w') \<Longrightarrow>
     w_db w' = (w_db w)\<lparr>t_transactions := map (\<lambda>r. if tx_id r = tx_id t \<and> tx_version r < tx_version t
        then tx_columns t r else r) (t_transactions (w_db w))\<rparr>"
  by (auto simp: transactions_Update_def update_version_def)

lemma settlements_Create_effect [effects]:
  "settlements_Create s w = (Inr u, w') \<Longrightarrow> \<exists>rows. w_db w' = (w_db w)\<lparr>t_settlements := rows\<rparr>"
  by (auto simp: settlements_Create_def split: prod.splits)

lemma settlements_Update_effect [effects]:
  "settlements_Update s w = (Inr u, w') \<Longrightarrow> \<exists>rows. w_db w' = (w_db w)\<lparr>t_settlements := rows\<rparr>"
  by (auto simp: settlements_Update_def split: prod.splits)

lemma anticipations_Create_effect [effects]:
  "anticipations_Create a w = (Inr u, w') \<Longrightarrow> \<exists>rows. w_db w' = (w_db w)\<lparr>t_anticipations := rows\<rparr>"
  by (auto simp: anticipations_Create_def split: prod.splits)

lemma chargebacks_Create_effect [effects]:
  "chargebacks_Create c w = (Inr u, w') \<Longrightarrow> \<exists>rows. w_db w' = (w_db w)\<lparr>t_chargebacks := rows\<rparr>"
  by (auto simp: chargebacks_Create_def split: prod.splits)

lemma processed_effect [effects]:
  "processed_MarkIfNew consumer i w = (Inr isNew, w') \<Longrightarrow>
     isNew = ((consumer, i) \<notin> set (t_processed (w_db w)))
     \<and> w_db w' = (if isNew then (w_db w)\<lparr>t_processed := t_processed (w_db w) @ [(consumer, i)]\<rparr> else w_db w)"
  by (auto simp: processed_MarkIfNew_def split: if_splits)

lemma nsu_effect [effects]:
  "nsu_Next w = (Inr n, w') \<Longrightarrow> w_db w' = w_db w \<and> n = dec_pad 12 (w_nsu w)"
  by (auto simp: nsu_Next_def)

lemma effect_log_effect [effects]:
  "effect_log e w = (Inr u, w') \<Longrightarrow> w_db w' = w_db w \<and> w_effects w' = w_effects w @ [e]"
  by (auto simp: effect_log_def)

section \<open>Loops\<close>

lemma SaveAll_effect [effects]:
  "receivables_SaveAll xs w = (Inr u, w') \<Longrightarrow>
     w_db w' = (w_db w)\<lparr>t_receivables := t_receivables (w_db w) @ xs\<rparr>
     \<and> (distinct (map rcv_id (t_receivables (w_db w))) \<longrightarrow> distinct (map rcv_id (t_receivables (w_db w) @ xs)))"
proof (induction xs arbitrary: w)
  case (Cons x xs)
  have 1: "rcv_id x \<notin> rcv_id ` set (t_receivables (w_db w))"
    "receivables_SaveAll xs (w\<lparr>w_stmts := w_stmts w + 1,
       w_db := (w_db w)\<lparr>t_receivables := t_receivables (w_db w) @ [x]\<rparr>\<rparr>) = (Inr u, w')"
    using Cons.prems by (auto split: prod.splits)
  then show ?case using Cons.IH [OF 1(2)] by auto
qed simp

lemma ledger_insert_effect:
  "ledger_insert es w = (Inr u, w') \<Longrightarrow> w_db w' = (w_db w)\<lparr>t_ledger := t_ledger (w_db w) @ es\<rparr>
     \<and> (\<forall>e \<in> set es. 0 \<le> sint (le_Debit e) \<and> 0 \<le> sint (le_Credit e))"
proof (induction es arbitrary: w)
  case (Cons e es)
  have 1: "0 \<le>s le_Debit e \<and> 0 \<le>s le_Credit e"
    "ledger_insert es (w\<lparr>w_stmts := w_stmts w + 1,
       w_db := (w_db w)\<lparr>t_ledger := t_ledger (w_db w) @ [e]\<rparr>\<rparr>) = (Inr u, w')"
    using Cons.prems by (auto split: prod.splits)
  then show ?case using Cons.IH [OF 1(2)] by (auto simp: sle64)
qed simp

lemma ledger_Append_effect [effects]:
  "ledger_Append es w = (Inr u, w') \<Longrightarrow> w_db w' = (w_db w)\<lparr>t_ledger := t_ledger (w_db w) @ es\<rparr>
     \<and> Balanced es \<and> (\<forall>e \<in> set es. 0 \<le> sint (le_Debit e) \<and> 0 \<le> sint (le_Credit e))"
  using ledger_insert_effect [of es w u w'] by (simp add: ledger_Append_def split: if_splits)

lemma outbox_effect [effects]:
  "outbox_Append evs w = (Inr u, w') \<Longrightarrow>
     \<exists>rows. w_db w' = (w_db w)\<lparr>t_outbox := t_outbox (w_db w) @ rows\<rparr>
       \<and> map ob_event rows = evs \<and> list_all (\<lambda>r. \<not> ob_published r) rows"
proof (induction evs arbitrary: w)
  case (Cons ev evs)
  have 1: "outbox_Append evs (w\<lparr>w_stmts := w_stmts w + 1, w_outbox_seq := w_outbox_seq w + 1,
      w_db := (w_db w)\<lparr>t_outbox := t_outbox (w_db w)
        @ [\<lparr>ob_id = w_outbox_seq w, ob_event = ev, ob_published = False\<rparr>]\<rparr>\<rparr>) = (Inr u, w')"
    using Cons.prems by (auto simp: Let_def split: prod.splits)
  obtain rows where rows: "w_db w' = (w_db w)\<lparr>t_outbox := (t_outbox (w_db w)
      @ [\<lparr>ob_id = w_outbox_seq w, ob_event = ev, ob_published = False\<rparr>]) @ rows\<rparr>"
    "map ob_event rows = evs" "list_all (\<lambda>r. \<not> ob_published r) rows"
    using Cons.IH [OF 1] by auto
  then show ?case
    by (intro exI [of _ "\<lparr>ob_id = w_outbox_seq w, ob_event = ev, ob_published = False\<rparr> # rows"]) simp
qed (auto intro!: exI [of _ "[]"])

section \<open>Updating receivables\<close>

text \<open>A receivable changed by the domain: same identity columns, a higher version.\<close>

definition changed_from :: "receivable \<Rightarrow> receivable \<Rightarrow> bool" where
  "changed_from r x \<longleftrightarrow> rcv_id x = rcv_id r \<and> rcv_version r < rcv_version x \<and> rcv_columns x r = x"

lemma rcv_step_changed: "rcv_step r x \<Longrightarrow> changed_from r x"
  by (erule rcv_stepE) (auto simp: rcv_op_defs changed_from_def rcv_columns_def)

lemma update_one:
  fixes f :: "receivable \<Rightarrow> 'a :: ab_group_add"
  assumes "distinct (map rcv_id rows)" "r \<in> set rows" "changed_from r x"
    and rows': "rows' = map (\<lambda>r. if rcv_id r = rcv_id x \<and> rcv_version r < rcv_version x then rcv_columns x r else r) rows"
  shows "set rows' = insert x (set rows - {r})" "map rcv_id rows' = map rcv_id rows"
    "(\<Sum>r\<leftarrow>rows'. f r) = (\<Sum>r\<leftarrow>rows. f r) - f r + f x"
proof -
  obtain us vs where rows: "rows = us @ r # vs" using assms(2) by (meson split_list)
  have ids: "rcv_id x \<notin> rcv_id ` set us" "rcv_id x \<notin> rcv_id ` set vs"
    using assms(1,3) unfolding rows changed_from_def by auto
  have same: "map (\<lambda>r. if rcv_id r = rcv_id x \<and> rcv_version r < rcv_version x then rcv_columns x r else r) zs = zs"
    if "rcv_id x \<notin> rcv_id ` set zs" for zs
    using that by (intro map_idI) (auto simp: image_iff)
  have eq: "rows' = us @ x # vs"
    unfolding rows' rows map_append list.map same [OF ids(1)] same [OF ids(2)]
    using assms(3) by (simp add: changed_from_def)
  have "r \<notin> set us" "r \<notin> set vs" using assms(1,3) ids unfolding rows by (auto simp: changed_from_def)
  then show "set rows' = insert x (set rows - {r})" unfolding eq rows by auto
  show "map rcv_id rows' = map rcv_id rows" using assms(3) by (simp add: eq rows changed_from_def)
  show "(\<Sum>r\<leftarrow>rows'. f r) = (\<Sum>r\<leftarrow>rows. f r) - f r + f x" by (simp add: eq rows)
qed

lemma UpdateAll_effect:
  fixes f :: "receivable \<Rightarrow> 'a :: ab_group_add"
  assumes "receivables_UpdateAll xs w = (Inr u, w')"
    and "distinct (map rcv_id (t_receivables (w_db w)))"
    and "list_all2 changed_from rs xs" "distinct rs" "set rs \<subseteq> set (t_receivables (w_db w))"
  shows "\<exists>rows. w_db w' = (w_db w)\<lparr>t_receivables := rows\<rparr>
    \<and> map rcv_id rows = map rcv_id (t_receivables (w_db w))
    \<and> set rows = (set (t_receivables (w_db w)) - set rs) \<union> set xs
    \<and> (\<Sum>r\<leftarrow>rows. f r) = (\<Sum>r\<leftarrow>t_receivables (w_db w). f r) - (\<Sum>r\<leftarrow>rs. f r) + (\<Sum>x\<leftarrow>xs. f x)"
  using assms
proof (induction xs arbitrary: w rs)
  case Nil
  then show ?case by (auto intro!: exI [of _ "t_receivables (w_db w)"])
next
  case (Cons x xs)
  obtain r rs' where rs: "rs = r # rs'" "changed_from r x" "list_all2 changed_from rs' xs"
    using Cons.prems(3) by (cases rs) auto
  define rows1 where "rows1 = map (\<lambda>r. if rcv_id r = rcv_id x \<and> rcv_version r < rcv_version x
      then rcv_columns x r else r) (t_receivables (w_db w))"
  define w1 where "w1 = w\<lparr>w_stmts := w_stmts w + 1, w_db := (w_db w)\<lparr>t_receivables := rows1\<rparr>\<rparr>"
  have 1: "w_db w1 = (w_db w)\<lparr>t_receivables := rows1\<rparr>" "receivables_UpdateAll xs w1 = (Inr u, w')"
    using Cons.prems(1) by (auto simp: update_version_def rows1_def w1_def)
  have r: "r \<in> set (t_receivables (w_db w))" "r \<notin> set rs'" using Cons.prems(4,5) rs(1) by auto
  note one = update_one [OF Cons.prems(2) r(1) rs(2) rows1_def]
  have d1: "distinct (map rcv_id (t_receivables (w_db w1)))" using one(2) Cons.prems(2) by (simp add: 1)
  have sub: "set rs' \<subseteq> set (t_receivables (w_db w1))"
    using Cons.prems(4,5) rs(1) one(1) by (auto simp: 1)
  have x: "x \<notin> set rs'"
  proof
    assume "x \<in> set rs'"
    then have "x \<in> set (t_receivables (w_db w))" using Cons.prems(5) rs(1) by auto
    then have "x = r" using Cons.prems(2) r(1) rs(2) by (auto simp: changed_from_def distinct_map inj_on_def)
    then show False using rs(2) by (simp add: changed_from_def)
  qed
  obtain rows where rows: "w_db w' = (w_db w1)\<lparr>t_receivables := rows\<rparr>"
    "map rcv_id rows = map rcv_id rows1" "set rows = (set rows1 - set rs') \<union> set xs"
    "(\<Sum>r\<leftarrow>rows. f r) = (\<Sum>r\<leftarrow>rows1. f r) - (\<Sum>r\<leftarrow>rs'. f r) + (\<Sum>x\<leftarrow>xs. f x)"
    using Cons.IH [OF 1(2) d1 rs(3) _ sub] Cons.prems(4) rs(1) by (auto simp: 1)
  show ?case
    using rows one(2,3) x unfolding one(1)
    by (intro exI [of _ rows]) (auto simp: 1 rs(1) algebra_simps)
qed

end
