(* ===== verification/Onboarding.thy ===== *)
theory Onboarding
  imports Store
begin

text \<open>
  \<open>internal/application/merchant\<close>: onboarding a merchant (\<open>onboard.go\<close>) and reviewing it
  (\<open>review.go\<close>). These use cases work on the pool, not in a unit of work: each does at most
  one write.
\<close>

record onboard_command =
  oc_Document :: string
  oc_LegalName :: string
  oc_MCC :: string
  oc_BankCode :: string
  oc_Branch :: string
  oc_AccountNumber :: string
  oc_AccountKind :: string
  oc_DebitBps :: int
  oc_CreditBps :: int
  oc_CreditInstallmentBps :: "(int, int) fmap"
  oc_AnticipationBpsMonth :: int
  oc_WebhookURL :: string

type_synonym url_parser = "string \<Rightarrow> (string \<times> string \<times> string) option"

definition Onboard_Execute :: "url_parser \<Rightarrow> time \<Rightarrow> onboard_command \<Rightarrow> merchant dbm" where
  "Onboard_Execute url_Parse now cmd =
     mbind (lift_result (NewDocument (oc_Document cmd))) (\<lambda>doc.
     mbind (lift_result (NewBankAccount (oc_BankCode cmd) (oc_Branch cmd) (oc_AccountNumber cmd) (oc_AccountKind cmd))) (\<lambda>bank.
     mbind (lift_result (NewFeePlan (oc_DebitBps cmd) (oc_CreditBps cmd) (oc_CreditInstallmentBps cmd)
             (oc_AnticipationBpsMonth cmd))) (\<lambda>plan.
     mbind fresh (\<lambda>uu.
     mbind (lift_result (merchant_New (uu 0) doc (oc_LegalName cmd) (oc_MCC cmd) bank plan now)) (\<lambda>m.
     mbind (if oc_WebhookURL cmd \<noteq> [] then lift_result (merchant_SetWebhook url_Parse (oc_WebhookURL cmd) now m)
            else ret m) (\<lambda>m'.
     mbind (wrap [] (merchants_Create m')) (\<lambda>_. ret m')))))))"

definition Review_change :: "(merchant \<Rightarrow> merchant result) \<Rightarrow> string \<Rightarrow> merchant dbm" where
  "Review_change change i =
     mbind (merchants_FindByID i) (\<lambda>m.
     mbind (lift_result (change m)) (\<lambda>m'.
     mbind (merchants_Update m') (\<lambda>_. ret m')))"

definition Review_Approve :: "time \<Rightarrow> string \<Rightarrow> merchant dbm" where
  "Review_Approve now i = Review_change (merchant_Approve now) i"

definition Review_Block :: "time \<Rightarrow> string \<Rightarrow> merchant dbm" where
  "Review_Block now i = Review_change (merchant_Block now) i"

record update_settings_command =
  us_MerchantID :: string
  us_WebhookURL :: "string option"
  us_AutoAnticipation :: "bool option"

definition settings_change :: "url_parser \<Rightarrow> time \<Rightarrow> update_settings_command \<Rightarrow> merchant \<Rightarrow> merchant result" where
  "settings_change url_Parse now cmd m =
     (case (case us_WebhookURL cmd of None \<Rightarrow> Inr m | Some url \<Rightarrow> merchant_SetWebhook url_Parse url now m) of
        Inl err \<Rightarrow> Inl err
      | Inr m1 \<Rightarrow> Inr (case us_AutoAnticipation cmd of None \<Rightarrow> m1
                      | Some on \<Rightarrow> merchant_EnableAutoAnticipation on now m1))"

definition Review_UpdateSettings :: "url_parser \<Rightarrow> time \<Rightarrow> update_settings_command \<Rightarrow> merchant dbm" where
  "Review_UpdateSettings url_Parse now cmd = Review_change (settings_change url_Parse now cmd) (us_MerchantID cmd)"

end
