(* ===== verification/Authorization.thy ===== *)
theory Authorization
  imports Store
begin

text \<open>
  \<open>internal/application/transaction\<close>: authorizing a sale (\<open>authorize.go\<close>), capturing and
  canceling it (\<open>lifecycle.go\<close>). The card vault and the issuer are other services; they
  are arguments: functions from the request to the answer or error of this call. The three
  readings of the clock are three arguments.
\<close>

record card_data =
  cd_PAN :: string
  cd_Expiry :: string

record authorization_request =
  ar_TransactionID :: string
  ar_PAN :: string
  ar_Expiry :: string
  ar_Amount :: money
  ar_Product :: product
  ar_Installments :: int
  ar_MerchantMCC :: string

record authorization_response =
  as_Approved :: bool
  as_AuthorizationCode :: string
  as_ResponseCode :: string

record authorize_command =
  auc_MerchantID :: string
  auc_Amount :: int64
  auc_Product :: string
  auc_Installments :: int
  auc_CardToken :: string

type_synonym rule = "merchant \<Rightarrow> transaction \<Rightarrow> go_error option"
type_synonym vault = "string \<Rightarrow> card_data result"
type_synonym issuer = "authorization_request \<Rightarrow> authorization_response result"

definition MaxAmountRule :: "money \<Rightarrow> rule" where
  "MaxAmountRule limit m tx =
     (if limit <s tx_amount tx then Some (Errorf [money_String limit] (Sentinel ErrLimitExceeded)) else None)"

fun run_rules :: "rule list \<Rightarrow> merchant \<Rightarrow> transaction \<Rightarrow> unit result" where
  "run_rules [] m tx = Inr ()"
| "run_rules (r # rs) m tx = (case r m tx of Some err \<Rightarrow> Inl err | None \<Rightarrow> run_rules rs m tx)"

text \<open>
  What becomes of the issuer's answer: a timeout sends a reversal (whose own error is
  dropped) and counts as a denial with code 91; any other error ends the operation, with
  the cause only as text.
\<close>

definition issuer_outcome :: "string \<Rightarrow> authorization_response result \<Rightarrow> authorization_response dbm" where
  "issuer_outcome txid answer =
     (case answer of
        Inr resp \<Rightarrow> ret resp
      | Inl err \<Rightarrow>
          if errors_Is err DeadlineExceeded
          then mbind (effect_log (IssuerReverse txid)) (\<lambda>_.
                 ret \<lparr>as_Approved = False, as_AuthorizationCode = '''', as_ResponseCode = ''91''\<rparr>)
          else fail (Errorf [''issuer''] (Sentinel ErrIssuerUnavailable)))"

definition store_body :: "time \<Rightarrow> authorization_response \<Rightarrow> transaction \<Rightarrow> transaction dbm" where
  "store_body now resp tx =
     mbind fresh (\<lambda>uu.
     mbind (if as_Approved resp
            then mbind nsu_Next (\<lambda>nsu. lift_result (tx_Authorize (uu 0) (as_AuthorizationCode resp) nsu now tx))
            else lift_result (tx_Deny (uu 0) (as_ResponseCode resp) now tx)) (\<lambda>tx1.
     mbind (transactions_Create tx1) (\<lambda>_.
     mbind (outbox_Append (map TxEvent (fst (tx_PullEvents tx1)))) (\<lambda>_.
     ret (snd (tx_PullEvents tx1))))))"

definition Authorize_Execute ::
  "vault \<Rightarrow> issuer \<Rightarrow> rule list \<Rightarrow> time \<Rightarrow> time \<Rightarrow> authorize_command \<Rightarrow> transaction dbm" where
  "Authorize_Execute vault issuer rules now now' cmd =
     mbind (merchants_FindByID (auc_MerchantID cmd)) (\<lambda>m.
     mbind (lift_result (ParseProduct (auc_Product cmd))) (\<lambda>product.
     mbind (wrap [''vault''] (lift_result (vault (auc_CardToken cmd)))) (\<lambda>cd.
     mbind (lift_result (CardInfoFromPAN (auc_CardToken cmd) (cd_PAN cd))) (\<lambda>info.
     mbind fresh (\<lambda>uu.
     mbind (lift_result (tx_New (uu 0) m (auc_Amount cmd) product (auc_Installments cmd) info now)) (\<lambda>tx.
     mbind (lift_result (run_rules rules m tx)) (\<lambda>_.
     mbind (issuer_outcome (tx_id tx) (issuer \<lparr>ar_TransactionID = tx_id tx, ar_PAN = cd_PAN cd,
              ar_Expiry = cd_Expiry cd, ar_Amount = tx_amount tx, ar_Product = tx_product tx,
              ar_Installments = tx_installments tx, ar_MerchantMCC = m_mcc m\<rparr>)) (\<lambda>resp.
     Do (store_body now' resp tx)))))))))"

section \<open>Capture and cancellation\<close>

definition change_body :: "((nat \<Rightarrow> string) \<Rightarrow> transaction \<Rightarrow> transaction result) \<Rightarrow> string \<Rightarrow> string \<Rightarrow> transaction dbm" where
  "change_body change merchantID i =
     mbind (transactions_FindByIDForUpdate merchantID i) (\<lambda>tx.
     mbind fresh (\<lambda>uu.
     mbind (lift_result (change uu tx)) (\<lambda>tx1.
     mbind (transactions_Update tx1) (\<lambda>_.
     mbind (outbox_Append (map TxEvent (fst (tx_PullEvents tx1)))) (\<lambda>_.
     ret (snd (tx_PullEvents tx1)))))))"

definition Lifecycle_change :: "((nat \<Rightarrow> string) \<Rightarrow> transaction \<Rightarrow> transaction result) \<Rightarrow> string \<Rightarrow> string \<Rightarrow> transaction dbm" where
  "Lifecycle_change change merchantID i = Do (change_body change merchantID i)"

definition Lifecycle_Capture :: "time \<Rightarrow> string \<Rightarrow> string \<Rightarrow> transaction dbm" where
  "Lifecycle_Capture now merchantID i = Lifecycle_change (\<lambda>uu. tx_Capture (uu 0) now) merchantID i"

definition Lifecycle_Cancel :: "time \<Rightarrow> string \<Rightarrow> string \<Rightarrow> transaction dbm" where
  "Lifecycle_Cancel now merchantID i = Lifecycle_change (\<lambda>uu. tx_Cancel (uu 0) now) merchantID i"

definition Get_Execute :: "string \<Rightarrow> string \<Rightarrow> transaction dbm" where
  "Get_Execute merchantID i = transactions_FindByID merchantID i"

end
