(* ===== verification/Scheduling.thy ===== *)
theory Scheduling
  imports Store
begin

text \<open>
  \<open>internal/application/receivable\<close>: the consumer that turns captured sales into
  receivables and cancels them (\<open>schedule.go\<close>), and the queries of the schedule
  (\<open>query.go\<close>). A payload is the event it encodes, or None where \<open>json.Unmarshal\<close> fails. The
  registry is another service: \<open>register\<close> tells whether it accepts the units.
\<close>

definition consumerName :: string where
  "consumerName = ''scheduler''"

text \<open>The function \<open>onCaptured\<close> gives to the unit of work, and \<open>onCaptured\<close>.\<close>

definition captured_body :: "business_calendar \<Rightarrow> time \<Rightarrow> tx_event \<Rightarrow> receivable list dbm" where
  "captured_body cal now ev =
     mbind (processed_MarkIfNew consumerName (ev_ID (te_base ev))) (\<lambda>isNew.
     if \<not> isNew then ret []
     else
       mbind (transactions_FindByID (te_merchant ev) (ev_Aggregate (te_base ev))) (\<lambda>tx.
       mbind (merchants_FindByID (te_merchant ev)) (\<lambda>m.
       mbind fresh (\<lambda>uu.
       mbind (case Schedule uu tx (m_feePlan m) cal now of
                Inl err \<Rightarrow> fail (Permanent err) | Inr rs \<Rightarrow> ret rs) (\<lambda>rs.
       mbind (receivables_SaveAll rs) (\<lambda>_.
       mbind fresh (\<lambda>uu'.
       mbind (ledger_Append (ForScheduled uu' rs now)) (\<lambda>_.
       mbind fresh (\<lambda>uu''.
       mbind (case NewReceivablesScheduled (uu'' 0) rs now of
                None \<Rightarrow> fail (ErrorString ''panic'') | Some e \<Rightarrow> ret e) (\<lambda>e.
       mbind (outbox_Append [RcvEvent e]) (\<lambda>_. ret rs)))))))))))"

definition onCaptured ::
  "(unit_total list \<Rightarrow> bool) \<Rightarrow> business_calendar \<Rightarrow> time \<Rightarrow> tx_event \<Rightarrow> unit dbm" where
  "onCaptured register cal now ev =
     mbind (Do (captured_body cal now ev)) (\<lambda>created.
       if created = [] then ret ()
       else if register (GroupUnits created) then effect_log (RegistryRegister (GroupUnits created))
       else ret ())"

fun cancel_loop :: "(nat \<Rightarrow> string) \<Rightarrow> nat \<Rightarrow> time \<Rightarrow> receivable list \<Rightarrow> (receivable list \<times> entry list) result" where
  "cancel_loop uu k now [] = Inr ([], [])"
| "cancel_loop uu k now (r # rs) =
     (if rcv_status r \<noteq> RScheduled then cancel_loop uu k now rs
      else case rcv_Cancel now r of
        Inl err \<Rightarrow> Inl err
      | Inr r' \<Rightarrow>
          (case cancel_loop uu (k + 3) now rs of
             Inl err \<Rightarrow> Inl err
           | Inr (changed, entries) \<Rightarrow>
               Inr (r' # changed, ForChargeback (\<lambda>i. uu (k + i)) r' now @ entries)))"

definition canceled_body :: "time \<Rightarrow> tx_event \<Rightarrow> unit dbm" where
  "canceled_body now ev =
     mbind (processed_MarkIfNew consumerName (ev_ID (te_base ev))) (\<lambda>isNew.
     if \<not> isNew then ret ()
     else
       mbind (receivables_ListByTransaction (ev_Aggregate (te_base ev))) (\<lambda>rs.
       mbind fresh (\<lambda>uu.
       mbind (lift_result (cancel_loop uu 0 now rs)) (\<lambda>(changed, entries).
       if changed = [] then ret ()
       else mbind (receivables_UpdateAll changed) (\<lambda>_. ledger_Append entries)))))"

definition onCanceled :: "time \<Rightarrow> tx_event \<Rightarrow> unit dbm" where
  "onCanceled now ev = Do (canceled_body now ev)"

definition Scheduler_Handle ::
  "(unit_total list \<Rightarrow> bool) \<Rightarrow> business_calendar \<Rightarrow> time \<Rightarrow> string \<Rightarrow> tx_event option \<Rightarrow> unit dbm" where
  "Scheduler_Handle register cal now eventType payload =
     (if eventType = ''transaction.captured''
      then (case payload of None \<Rightarrow> fail (Permanent (ErrorString ''payload'')) | Some ev \<Rightarrow> onCaptured register cal now ev)
      else if eventType = ''transaction.canceled''
      then (case payload of None \<Rightarrow> fail (Permanent (ErrorString ''payload'')) | Some ev \<Rightarrow> onCanceled now ev)
      else ret ())"

section \<open>Queries\<close>

definition Query_List :: "string \<Rightarrow> list_filter \<Rightarrow> receivable list dbm" where
  "Query_List merchantID f =
     receivables_ListByMerchant merchantID (if f_Limit f \<le> 0 \<or> f_Limit f > 500 then f\<lparr>f_Limit := 100\<rparr> else f)"

definition Query_Summary :: "string \<Rightarrow> time \<Rightarrow> time \<Rightarrow> daily_summary list dbm" where
  "Query_Summary merchantID lo hi = receivables_Summary merchantID lo hi"

end
