(* ===== verification/Disputes.thy ===== *)
theory Disputes
  imports Store
begin

text \<open>
  \<open>internal/application/anticipation\<close> and \<open>internal/application/chargeback\<close>: simulating and
  requesting an anticipation (\<open>anticipate.go\<close>), and opening a chargeback (\<open>open.go\<close>). The
  registry is another service: \<open>check_liens\<close> answers for a merchant and a day,
  \<open>transfer\<close> tells whether it accepts a change of ownership.
\<close>

section \<open>Anticipation\<close>

definition Anticipate_Simulate :: "pricer \<Rightarrow> time \<Rightarrow> string \<Rightarrow> string list \<Rightarrow> anticipation dbm" where
  "Anticipate_Simulate pv now merchantID receivableIDs =
     mbind (merchants_FindByID merchantID) (\<lambda>m.
     mbind (receivables_FindByIDs merchantID receivableIDs) (\<lambda>rs.
     if length rs \<noteq> length receivableIDs then fail (Errorf [] (Sentinel ErrNotFound))
     else mbind fresh (\<lambda>uu.
       lift_result (Simulate (uu 0) merchantID rs now (fp_anticipationRateMonth (m_feePlan m)) pv))))"

fun ensureNoLiens :: "(string \<Rightarrow> time \<Rightarrow> lien list result) \<Rightarrow> string \<Rightarrow> time list \<Rightarrow> receivable list \<Rightarrow> unit result" where
  "ensureNoLiens check_liens merchantID seen [] = Inr ()"
| "ensureNoLiens check_liens merchantID seen (r # rs) =
     (if rcv_dueDate r \<in> set seen then ensureNoLiens check_liens merchantID seen rs
      else case check_liens merchantID (rcv_dueDate r) of
        Inl err \<Rightarrow> Inl (Errorf [] err)
      | Inr liens \<Rightarrow>
          if length liens > 0
          then Inl (Errorf [format_date (rcv_dueDate r)] (Sentinel ErrReceivableLiened))
          else ensureNoLiens check_liens merchantID (rcv_dueDate r # seen) rs)"

definition request_body ::
  "(string \<Rightarrow> time \<Rightarrow> lien list result) \<Rightarrow> pricer \<Rightarrow> time \<Rightarrow> string \<Rightarrow> string list \<Rightarrow> merchant \<Rightarrow> anticipation dbm" where
  "request_body check_liens pv now merchantID receivableIDs m =
     mbind (receivables_FindForUpdate merchantID receivableIDs) (\<lambda>rs.
     if length rs \<noteq> length receivableIDs then fail (Errorf [] (Sentinel ErrNotFound))
     else
       mbind fresh (\<lambda>uu.
       mbind (lift_result (Simulate (uu 0) merchantID rs now (fp_anticipationRateMonth (m_feePlan m)) pv)) (\<lambda>a.
       mbind (lift_result (ensureNoLiens check_liens merchantID [] rs)) (\<lambda>_.
       mbind (case ant_Confirm (uu 1) rs now a of
                (Some err, _) \<Rightarrow> fail err | (None, a', rs') \<Rightarrow> ret (a', rs')) (\<lambda>(a', rs').
       mbind (anticipations_Create a') (\<lambda>_.
       mbind (receivables_UpdateAll rs') (\<lambda>_.
       mbind fresh (\<lambda>uu'.
       mbind (ledger_Append (ForAnticipation uu' a' now)) (\<lambda>_.
       mbind (outbox_Append (map AntEvent (fst (ant_PullEvents a')))) (\<lambda>_.
       ret (snd (ant_PullEvents a'))))))))))))"

definition Anticipate_Request ::
  "(string \<Rightarrow> time \<Rightarrow> lien list result) \<Rightarrow> (string list \<Rightarrow> string \<Rightarrow> bool) \<Rightarrow> pricer \<Rightarrow> time
   \<Rightarrow> string \<Rightarrow> string list \<Rightarrow> anticipation dbm" where
  "Anticipate_Request check_liens transfer pv now merchantID receivableIDs =
     mbind (merchants_FindByID merchantID) (\<lambda>m.
     mbind (Do (request_body check_liens pv now merchantID receivableIDs m)) (\<lambda>a.
     if transfer (ant_ReceivableIDs a) ''ADQUIRENTE''
     then mbind (effect_log (RegistryTransfer (ant_ReceivableIDs a) ''ADQUIRENTE'')) (\<lambda>_. ret a)
     else ret a))"

definition Anticipate_Get :: "string \<Rightarrow> string \<Rightarrow> anticipation dbm" where
  "Anticipate_Get merchantID i = Do (anticipations_FindByID merchantID i)"

section \<open>Chargebacks\<close>

record open_command =
  opc_MerchantID :: string
  opc_TransactionID :: string
  opc_ReasonCode :: string
  opc_Amount :: int64

fun chargeback_loop :: "(nat \<Rightarrow> string) \<Rightarrow> nat \<Rightarrow> time \<Rightarrow> receivable list \<Rightarrow> (receivable list \<times> entry list) result" where
  "chargeback_loop uu k now [] = Inr ([], [])"
| "chargeback_loop uu k now (r # rs) =
     (if rcv_status r \<noteq> RScheduled \<and> rcv_status r \<noteq> RAnticipated then chargeback_loop uu k now rs
      else case rcv_Chargeback now r of
        Inl err \<Rightarrow> Inl err
      | Inr r' \<Rightarrow>
          (case chargeback_loop uu (k + 3) now rs of
             Inl err \<Rightarrow> Inl err
           | Inr (changed, entries) \<Rightarrow>
               Inr (r' # changed,
                 (if rcv_status r = RScheduled then ForChargeback (\<lambda>i. uu (k + i)) r now
                  else ForChargebackAnticipated (\<lambda>i. uu (k + i)) r now) @ entries)))"

definition open_body :: "time \<Rightarrow> open_command \<Rightarrow> chargeback dbm" where
  "open_body now cmd =
     mbind (transactions_FindByIDForUpdate (opc_MerchantID cmd) (opc_TransactionID cmd)) (\<lambda>tx.
     mbind fresh (\<lambda>uu.
     mbind (lift_result (cb_Open uu tx (opc_ReasonCode cmd) (opc_Amount cmd) now)) (\<lambda>(tx1, cb).
     mbind (transactions_Update tx1) (\<lambda>_.
     mbind (chargebacks_Create cb) (\<lambda>_.
     mbind (receivables_ListByTransaction (tx_id tx1)) (\<lambda>rs.
     mbind fresh (\<lambda>uu'.
     mbind (lift_result (chargeback_loop uu' 0 now rs)) (\<lambda>(changed, entries).
     mbind (if length changed > 0
            then mbind (receivables_UpdateAll changed) (\<lambda>_. ledger_Append entries)
            else ret ()) (\<lambda>_.
     mbind (outbox_Append (map TxEvent (fst (tx_PullEvents tx1)) @ map CbEvent (fst (cb_PullEvents cb)))) (\<lambda>_.
     ret (snd (cb_PullEvents cb))))))))))))"

definition Open_Execute :: "time \<Rightarrow> open_command \<Rightarrow> chargeback dbm" where
  "Open_Execute now cmd = Do (open_body now cmd)"

end
