(* ===== verification/Settling.thy ===== *)
theory Settling
  imports Store
begin

text \<open>
  \<open>internal/application/settlement/settle_due.go\<close>: the daily settlement. The bank gateway,
  the registry and the daily lock are other services, given as functions of the request; a
  lot the gateway accepts is in the log of effects, whatever becomes of the database
  transaction around it. Go iterates over a map in no fixed order: \<open>order\<close> rearranges the
  merchants of a batch. The loop of \<open>Execute\<close> may not end, so it runs on fuel: None is a run
  that has not returned.
\<close>

record report =
  rep_Date :: time
  rep_Skipped :: string
  rep_Merchants :: int
  rep_Settlements :: int
  rep_Failed :: int
  rep_Paid :: money
  rep_Retained :: money

record services =
  sv_check_liens :: "string \<Rightarrow> time \<Rightarrow> lien list result"
  sv_send :: "settlement \<Rightarrow> string result"
  sv_error_text :: "go_error \<Rightarrow> string"
  sv_order :: "string list \<Rightarrow> string list"

fun settle_all :: "string \<Rightarrow> time \<Rightarrow> receivable list \<Rightarrow> receivable list result" where
  "settle_all i now [] = Inr []"
| "settle_all i now (r # rs) =
     (case rcv_Settle i now r of
        Inl err \<Rightarrow> Inl err
      | Inr r' \<Rightarrow> (case settle_all i now rs of Inl err \<Rightarrow> Inl err | Inr rs' \<Rightarrow> Inr (r' # rs')))"

definition send_to_bank :: "services \<Rightarrow> settlement \<Rightarrow> string result dbm" where
  "send_to_bank sv s =
     (case sv_send sv s of
        Inl err \<Rightarrow> ret (Inl err)
      | Inr ref \<Rightarrow> mbind (effect_log (BankFile s)) (\<lambda>_. ret (Inr ref)))"

definition settleMerchant ::
  "services \<Rightarrow> time \<Rightarrow> time \<Rightarrow> string \<Rightarrow> receivable list \<Rightarrow> report \<Rightarrow> report dbm" where
  "settleMerchant sv day now merchantID rs rep0 =
     (let rep = rep0\<lparr>rep_Merchants := rep_Merchants rep0 + 1\<rparr>
      in mbind (wrap [merchantID] (merchants_FindByID merchantID)) (\<lambda>m.
         mbind (wrap [merchantID] (lift_result (sv_check_liens sv merchantID day))) (\<lambda>liens.
         mbind fresh (\<lambda>uu.
         mbind (lift_result (Build uu day m rs liens now)) (\<lambda>s.
         mbind (settlements_Create s) (\<lambda>_.
         mbind (send_to_bank sv s) (\<lambda>sent.
         mbind fresh (\<lambda>uu'.
         case sent of
           Inl sendErr \<Rightarrow>
             mbind (lift_result (MarkFailed (uu' 0) (sv_error_text sv sendErr) now s)) (\<lambda>s1.
             mbind (settlements_Update s1) (\<lambda>_.
             mbind (outbox_Append (map StlEvent (fst (stl_PullEvents s1)))) (\<lambda>_.
             ret (rep\<lparr>rep_Failed := rep_Failed rep + 1\<rparr>))))
         | Inr ref \<Rightarrow>
             mbind (lift_result (MarkSent ref now s)) (\<lambda>s1.
             mbind (lift_result (MarkConfirmed (uu' 0) now s1)) (\<lambda>s2.
             mbind (lift_result (settle_all (stl_id s2) now rs)) (\<lambda>rs'.
             mbind (receivables_UpdateAll rs') (\<lambda>_.
             mbind (settlements_Update s2) (\<lambda>_.
             mbind fresh (\<lambda>uu''.
             mbind (let entries = ForSettlement uu'' s2 now
                    in if length entries > 0 then ledger_Append entries else ret ()) (\<lambda>_.
             mbind (outbox_Append (map StlEvent (fst (stl_PullEvents s2)))) (\<lambda>_.
             ret (rep\<lparr>rep_Settlements := rep_Settlements rep + 1,
                      rep_Paid := rep_Paid rep + (stl_toMerchant s2 + stl_toCreditors s2),
                      rep_Retained := rep_Retained rep + stl_retained s2\<rparr>)))))))))))))))))"

fun settle_merchants ::
  "services \<Rightarrow> time \<Rightarrow> time \<Rightarrow> receivable list \<Rightarrow> string list \<Rightarrow> report \<Rightarrow> report dbm" where
  "settle_merchants sv day now rs [] rep = ret rep"
| "settle_merchants sv day now rs (mid # mids) rep =
     mbind (settleMerchant sv day now mid (filter (\<lambda>r. rcv_merchantID r = mid) rs) rep)
       (settle_merchants sv day now rs mids)"

text \<open>
  The report is the caller's, changed in place; the counts that come with an error are not
  modelled, an error here carries no report.
\<close>

definition batch_body :: "services \<Rightarrow> int \<Rightarrow> time \<Rightarrow> time \<Rightarrow> report \<Rightarrow> (nat \<times> report) dbm" where
  "batch_body sv batchSize day now rep =
     mbind (receivables_ListDueOnForUpdate day batchSize) (\<lambda>rs.
     if length rs = 0 then ret (0, rep)
     else mbind (settle_merchants sv day now rs (sv_order sv (remdups (map rcv_merchantID rs))) rep)
       (\<lambda>rep'. ret (length rs, rep')))"

definition batch :: "services \<Rightarrow> int \<Rightarrow> time \<Rightarrow> time \<Rightarrow> report \<Rightarrow> (nat \<times> report) dbm" where
  "batch sv batchSize day now rep = Do (batch_body sv batchSize day now rep)"

text \<open>\<open>clock\<close> gives the instant of a batch from the number of statements run before it.\<close>

fun execute_loop ::
  "nat \<Rightarrow> services \<Rightarrow> int \<Rightarrow> time \<Rightarrow> (nat \<Rightarrow> time) \<Rightarrow> report \<Rightarrow> world \<Rightarrow> (report result \<times> world) option" where
  "execute_loop 0 sv batchSize day clock rep w = None"
| "execute_loop (Suc fuel) sv batchSize day clock rep w =
     (case batch sv batchSize day (clock (w_stmts w)) rep w of
        (Inl err, w') \<Rightarrow> Some (Inl err, w')
      | (Inr (processed, rep'), w') \<Rightarrow>
          if processed = 0 then Some (Inr rep', w')
          else execute_loop fuel sv batchSize day clock rep' w')"

definition lock_key :: "time \<Rightarrow> string" where
  "lock_key day = ''settlement:'' @ format_date day"

text \<open>\<open>acquire\<close> is the lock's answer; the deferred release runs however the loop ends.\<close>

definition SettleDue_Execute ::
  "nat \<Rightarrow> services \<Rightarrow> business_calendar \<Rightarrow> (string \<Rightarrow> bool result) \<Rightarrow> int \<Rightarrow> (nat \<Rightarrow> time) \<Rightarrow> time
   \<Rightarrow> world \<Rightarrow> (report result \<times> world) option" where
  "SettleDue_Execute fuel sv cal acquire batchSize clock date w =
     (let day = DateOnly date;
          rep = \<lparr>rep_Date = day, rep_Skipped = '''', rep_Merchants = 0, rep_Settlements = 0,
                 rep_Failed = 0, rep_Paid = 0, rep_Retained = 0\<rparr>
      in if \<not> IsBusinessDay cal day then Some (Inr (rep\<lparr>rep_Skipped := ''nao e dia util''\<rparr>), w)
         else case acquire (lock_key day) of
           Inl err \<Rightarrow> Some (Inl err, w)
         | Inr ok \<Rightarrow>
             if \<not> ok then Some (Inl (Sentinel ErrAlreadyRunning), w)
             else case execute_loop fuel sv batchSize day clock rep
                    (w\<lparr>w_effects := w_effects w @ [LockTaken (lock_key day)]\<rparr>) of
               None \<Rightarrow> None
             | Some (r, w') \<Rightarrow> Some (r, w'\<lparr>w_effects := w_effects w' @ [LockReleased (lock_key day)]\<rparr>))"

end
