(* ===== verification/Books.thy ===== *)
theory Books
  imports Store_Effects Onboarding Authorization Scheduling Disputes Settling
begin

text \<open>
  What holds the components together: the ledger agrees with the receivables. \<open>book_weight\<close>
  says what a receivable in its state contributes to an account; the invariant \<open>books_ok\<close>
  says that each account's balance, per merchant and in total, is the sum of these
  contributions. Every use case keeps it, whether it succeeds or fails at any statement.
\<close>

section \<open>The invariant\<close>

definition live :: "rcv_status \<Rightarrow> bool" where
  "live st \<longleftrightarrow> st \<in> {RScheduled, RAnticipated, RSettled}"

definition book_weight :: "account \<Rightarrow> string \<Rightarrow> receivable \<Rightarrow> money" where
  "book_weight acc mid r =
     (if mid \<noteq> [] \<and> rcv_merchantID r \<noteq> mid then 0
      else case acc of
        PayableToMerchant \<Rightarrow> if rcv_status r = RScheduled then rcv_net r else 0
      | ReceivableFromIssuer \<Rightarrow> if live (rcv_status r) then - rcv_gross r else 0
      | RevenueFees \<Rightarrow> if live (rcv_status r) then rcv_fee r else 0
      | ChargebackLoss \<Rightarrow> if rcv_status r = RChargebacked \<and> rcv_anticipationID r \<noteq> [] then - rcv_net r else 0
      | _ \<Rightarrow> 0)"

definition booked :: "account \<Rightarrow> bool" where
  "booked acc \<longleftrightarrow> acc \<in> {PayableToMerchant, ReceivableFromIssuer, RevenueFees, ChargebackLoss}"

definition row_ok :: "receivable \<Rightarrow> bool" where
  "row_ok r \<longleftrightarrow> midnight (rcv_dueDate r) \<and> rcv_net r = rcv_gross r - rcv_fee r \<and> 0 \<le> sint (rcv_net r)
     \<and> (rcv_status r = RScheduled \<longrightarrow> rcv_anticipationID r = [])
     \<and> (rcv_status r = RAnticipated \<longrightarrow> rcv_anticipationID r \<noteq> [])"

definition books_ok :: "tables \<Rightarrow> bool" where
  "books_ok d \<longleftrightarrow> distinct (map rcv_id (t_receivables d)) \<and> (\<forall>r \<in> set (t_receivables d). row_ok r)
     \<and> Balanced (t_ledger d)
     \<and> (\<forall>acc mid. booked acc \<longrightarrow>
          ledger_balance acc mid (t_ledger d) = (\<Sum>r\<leftarrow>t_receivables d. book_weight acc mid r))"

lemma books_ok_cong:
  "t_receivables d' = t_receivables d \<Longrightarrow> t_ledger d' = t_ledger d \<Longrightarrow> books_ok d \<Longrightarrow> books_ok d'"
  by (simp add: books_ok_def)

text \<open>A booking \<open>es\<close> for the change of the receivables \<open>rs\<close> into \<open>xs\<close>.\<close>

definition books_change :: "receivable list \<Rightarrow> receivable list \<Rightarrow> entry list \<Rightarrow> bool" where
  "books_change rs xs es \<longleftrightarrow> Balanced es \<and> (\<forall>x \<in> set xs. row_ok x)
     \<and> (\<forall>acc mid. booked acc \<longrightarrow> ledger_balance acc mid es
          = (\<Sum>x\<leftarrow>xs. book_weight acc mid x) - (\<Sum>r\<leftarrow>rs. book_weight acc mid r))"

lemma books_change_Nil [simp]: "books_change [] [] []"
  by (simp add: books_change_def Balanced_sums)

lemma books_change_append:
  "books_change rs xs es \<Longrightarrow> books_change rs' xs' es' \<Longrightarrow> books_change (rs @ rs') (xs @ xs') (es @ es')"
  by (auto simp: books_change_def Balanced_append)

lemma books_update:
  assumes ok: "books_ok (w_db w)" and ch: "books_change rs xs es"
    and up: "receivables_UpdateAll xs w = (Inr u, w')" "list_all2 changed_from rs xs" "distinct rs"
      "set rs \<subseteq> set (t_receivables (w_db w))"
    and w2: "t_receivables d = t_receivables (w_db w')" "t_ledger d = t_ledger (w_db w') @ es"
  shows "books_ok d"
proof -
  have dist: "distinct (map rcv_id (t_receivables (w_db w)))" using ok by (simp add: books_ok_def)
  note upd = UpdateAll_effect [OF up(1) dist up(2-4)]
  obtain rows0 where rows0: "w_db w' = (w_db w)\<lparr>t_receivables := rows0\<rparr>"
    "map rcv_id rows0 = map rcv_id (t_receivables (w_db w))"
    "set rows0 = (set (t_receivables (w_db w)) - set rs) \<union> set xs"
    using upd [of "\<lambda>_. 0 :: int"] by blast
  have bal: "ledger_balance acc mid (t_ledger d) = (\<Sum>r\<leftarrow>t_receivables d. book_weight acc mid r)"
    if "booked acc" for acc mid
  proof -
    have sums: "(\<Sum>r\<leftarrow>rows0. book_weight acc mid r) = (\<Sum>r\<leftarrow>t_receivables (w_db w). book_weight acc mid r)
        - (\<Sum>r\<leftarrow>rs. book_weight acc mid r) + (\<Sum>x\<leftarrow>xs. book_weight acc mid x)"
    proof -
      obtain rows where rows: "w_db w' = (w_db w)\<lparr>t_receivables := rows\<rparr>"
        "(\<Sum>r\<leftarrow>rows. book_weight acc mid r) = (\<Sum>r\<leftarrow>t_receivables (w_db w). book_weight acc mid r)
          - (\<Sum>r\<leftarrow>rs. book_weight acc mid r) + (\<Sum>x\<leftarrow>xs. book_weight acc mid x)"
        using upd [of "book_weight acc mid"] by blast
      have "t_receivables (w_db w') = rows" "t_receivables (w_db w') = rows0"
        by (simp add: rows(1), simp add: rows0(1))
      then show ?thesis using rows(2) by simp
    qed
    have old: "ledger_balance acc mid (t_ledger (w_db w)) = (\<Sum>r\<leftarrow>t_receivables (w_db w). book_weight acc mid r)"
      using ok that unfolding books_ok_def by blast
    have new: "ledger_balance acc mid es
        = (\<Sum>x\<leftarrow>xs. book_weight acc mid x) - (\<Sum>r\<leftarrow>rs. book_weight acc mid r)"
      using ch that unfolding books_change_def by blast
    show ?thesis using sums old new w2 by (simp add: rows0(1))
  qed
  have "Balanced (t_ledger d)"
    using ok ch by (simp add: w2 rows0(1) books_ok_def books_change_def Balanced_append)
  moreover have "\<forall>r \<in> set (t_receivables d). row_ok r"
    using ok ch unfolding w2 by (auto simp: rows0 books_ok_def books_change_def)
  ultimately show ?thesis using bal dist by (simp add: books_ok_def w2 rows0)
qed

section \<open>The bookings\<close>

lemma books_change_new:
  assumes "\<forall>x \<in> set xs. row_ok x \<and> rcv_status x = RScheduled"
  shows "books_change [] xs (ForScheduled uu xs now)"
proof -
  have "Balanced (ForScheduled uu xs now)"
    unfolding ForScheduled_def using assms by (intro ForScheduled_balanced) (auto simp: rcv_sound_def row_ok_def)
  moreover have "(\<Sum>r\<leftarrow>filter (\<lambda>r. mid = [] \<or> rcv_merchantID r = mid) xs. case acc of
        ReceivableFromIssuer \<Rightarrow> - rcv_gross r | PayableToMerchant \<Rightarrow> rcv_net r
      | RevenueFees \<Rightarrow> rcv_fee r | _ \<Rightarrow> 0) = (\<Sum>x\<leftarrow>xs. book_weight acc mid x)"
    if "booked acc" for acc mid
    using assms by (induction xs) (auto simp: book_weight_def live_def split: account.split)
  ultimately show ?thesis
    using assms by (auto simp: books_change_def ForScheduled_def ForScheduled_balance)
qed

lemma books_change_reversed:
  assumes "row_ok r" "rcv_status r = RScheduled" "rcv_status x \<in> {RCanceled, RChargebacked}"
    and x: "x = r\<lparr>rcv_status := rcv_status x, rcv_version := v, rcv_updatedAt := t\<rparr>"
  shows "books_change [r] [x] (ForChargeback uu r now)"
proof -
  have f: "rcv_net x = rcv_net r" "rcv_gross x = rcv_gross r" "rcv_fee x = rcv_fee r"
    "rcv_dueDate x = rcv_dueDate r" "rcv_anticipationID x = rcv_anticipationID r"
    "rcv_merchantID x = rcv_merchantID r"
    by (subst x, simp)+
  have "Balanced (ForChargeback uu r now)"
    using assms(1) by (simp add: Balanced_sums ForChargeback_def entry_defs row_ok_def)
  moreover have "ledger_balance acc mid (ForChargeback uu r now) = book_weight acc mid x - book_weight acc mid r"
    if "booked acc" for acc mid
    using assms(1-3) that
    by (cases acc) (auto simp: booked_def ledger_balance_Cons ForChargeback_def entry_defs book_weight_def f live_def row_ok_def)
  moreover have "row_ok x" using assms(1-3) by (auto simp: row_ok_def f)
  ultimately show ?thesis by (simp add: books_change_def)
qed

lemma books_change_anticipated:
  assumes "row_ok r" "rcv_status r = RAnticipated" "rcv_status x = RChargebacked"
    and x: "x = r\<lparr>rcv_status := rcv_status x, rcv_version := v, rcv_updatedAt := t\<rparr>"
  shows "books_change [r] [x] (ForChargebackAnticipated uu r now)"
proof -
  have f: "rcv_net x = rcv_net r" "rcv_gross x = rcv_gross r" "rcv_fee x = rcv_fee r"
    "rcv_dueDate x = rcv_dueDate r" "rcv_anticipationID x = rcv_anticipationID r"
    "rcv_merchantID x = rcv_merchantID r"
    by (subst x, simp)+
  have "Balanced (ForChargebackAnticipated uu r now)"
    using assms(1) by (simp add: Balanced_sums ForChargebackAnticipated_def entry_defs row_ok_def)
  moreover have "ledger_balance acc mid (ForChargebackAnticipated uu r now) = book_weight acc mid x - book_weight acc mid r"
    if "booked acc" for acc mid
    using assms(1-3) that
    by (cases acc) (auto simp: booked_def ledger_balance_Cons ForChargebackAnticipated_def entry_defs book_weight_def f live_def row_ok_def)
  moreover have "row_ok x" using assms(1-3) by (auto simp: row_ok_def f)
  ultimately show ?thesis by (simp add: books_change_def)
qed

section \<open>Reading receivables\<close>

lemma scan_ok: "row_ok r \<Longrightarrow> scanReceivable r = r"
  by (simp add: scanReceivable_def rcv_Restore_def row_ok_def)

lemma list_effect:
  assumes "receivables_list q w = (Inr rs, w')" "books_ok (w_db w)"
    and "set (q (t_receivables (w_db w))) \<subseteq> set (t_receivables (w_db w))"
  shows "w_db w' = w_db w" "rs = q (t_receivables (w_db w))"
proof -
  have eq: "w_db w' = w_db w" "rs = map scanReceivable (q (t_receivables (w_db w)))"
    using assms(1) by (auto simp: receivables_list_def)
  then show "w_db w' = w_db w" by simp
  show "rs = q (t_receivables (w_db w))"
    using assms(2,3) unfolding eq(2) by (intro map_idI) (auto simp: books_ok_def scan_ok)
qed

lemma ListByTransaction_effect:
  assumes "receivables_ListByTransaction i w = (Inr rs, w')" "books_ok (w_db w)"
  shows "w_db w' = w_db w" "distinct rs" "set rs = {r \<in> set (t_receivables (w_db w)). rcv_transactionID r = i}"
proof -
  have eq: "w_db w' = w_db w"
    "rs = sort_key rcv_installmentNo (filter (\<lambda>r. rcv_transactionID r = i) (t_receivables (w_db w)))"
    using list_effect [OF assms(1)[unfolded receivables_ListByTransaction_def] assms(2)] by auto
  have "distinct (t_receivables (w_db w))" using assms(2) by (simp add: books_ok_def distinct_map)
  then show "w_db w' = w_db w" "distinct rs" "set rs = {r \<in> set (t_receivables (w_db w)). rcv_transactionID r = i}"
    using eq by auto
qed

section \<open>Each use case keeps the books\<close>

definition keeps_books :: "'a dbm \<Rightarrow> bool" where
  "keeps_books m \<longleftrightarrow> (\<forall>w r w'. m w = (r, w') \<longrightarrow> books_ok (w_db w) \<longrightarrow> books_ok (w_db w'))"

definition body_keeps_books :: "'a dbm \<Rightarrow> bool" where
  "body_keeps_books m \<longleftrightarrow> (\<forall>w x w'. m w = (Inr x, w') \<longrightarrow> books_ok (w_db w) \<longrightarrow> books_ok (w_db w'))"

lemma keeps_booksD: "keeps_books m \<Longrightarrow> m w = (r, w') \<Longrightarrow> books_ok (w_db w) \<Longrightarrow> books_ok (w_db w')"
  by (simp add: keeps_books_def)

lemma Do_keeps_books: "body_keeps_books f \<Longrightarrow> keeps_books (Do f)"
  unfolding keeps_books_def
proof (intro allI impI)
  fix w r w' assume f: "body_keeps_books f" and run: "Do f w = (r, w')" and ok: "books_ok (w_db w)"
  show "books_ok (w_db w')"
  proof (cases r)
    case (Inl e)
    then show ?thesis using Do_Inl_db run ok by metis
  next
    case (Inr x)
    then obtain w2 where "f (w\<lparr>w_stmts := w_stmts w + 1\<rparr>) = (Inr x, w2)" "w' = w2\<lparr>w_stmts := w_stmts w2 + 1\<rparr>"
      using run by (auto simp: Do_Inr)
    then show ?thesis using f ok by (auto simp: body_keeps_books_def)
  qed
qed

lemma keeps_books_mbind:
  "keeps_books m \<Longrightarrow> (\<And>x. keeps_books (f x)) \<Longrightarrow> keeps_books (mbind m f)"
  unfolding keeps_books_def
proof (intro allI impI)
  fix w r w'
  assume m: "\<forall>w r w'. m w = (r, w') \<longrightarrow> books_ok (w_db w) \<longrightarrow> books_ok (w_db w')"
    and f: "\<And>x. \<forall>w r w'. f x w = (r, w') \<longrightarrow> books_ok (w_db w) \<longrightarrow> books_ok (w_db w')"
    and run: "mbind m f w = (r, w')" and ok: "books_ok (w_db w)"
  obtain r1 w1 where 1: "m w = (r1, w1)" by fastforce
  then have ok1: "books_ok (w_db w1)" using m ok by blast
  show "books_ok (w_db w')"
    using run ok1 f by (cases r1) (auto simp: mbind_def 1)
qed

text \<open>A program that leaves receivables and ledger alone keeps the books.\<close>

lemma same_booksD:
  "runs same_books m \<Longrightarrow> m w = (r, w') \<Longrightarrow> t_receivables (w_db w') = t_receivables (w_db w) \<and> t_ledger (w_db w') = t_ledger (w_db w)"
  using runsD [of same_books] by (fastforce simp: same_books_def)

lemma plain_keeps: "runs same_books m \<Longrightarrow> keeps_books m"
  unfolding keeps_books_def by (metis same_booksD books_ok_cong)

lemma plain_body: "runs same_books m \<Longrightarrow> body_keeps_books m"
  unfolding body_keeps_books_def by (metis same_booksD books_ok_cong)

lemma onboarding_keeps:
  "keeps_books (Onboard_Execute parse now cmd)" "keeps_books (Review_change change i)"
  unfolding Onboard_Execute_def Review_change_def by (rule plain_keeps, intro frame)+

lemma authorize_keeps: "keeps_books (Authorize_Execute vault issuer rules now now' cmd)"
  unfolding Authorize_Execute_def issuer_outcome_def store_body_def
  by (intro keeps_books_mbind Do_keeps_books plain_body plain_keeps frame)

lemma lifecycle_keeps: "keeps_books (Lifecycle_change change mid i)"
  unfolding Lifecycle_change_def change_body_def by (intro Do_keeps_books plain_body frame)

end
