(* ===== verification/Notifying.thy ===== *)
theory Notifying
  imports Frames
begin

text \<open>
  \<open>internal/application/notification/notify.go\<close>: delivering events to the merchant's
  webhook. HMAC-SHA256 and the HTTP sender are arguments; a payload that does not decode
  to an envelope is None.
\<close>

record envelope =
  env_EventID :: string
  env_MerchantID :: string

text \<open>\<open>hex.EncodeToString\<close>.\<close>

definition hex_digit :: "nat \<Rightarrow> char" where
  "hex_digit d = char_of (if d < 10 then 48 + d else 87 + d)"

definition hex_encode :: "string \<Rightarrow> string" where
  "hex_encode s = concat (map (\<lambda>c. [hex_digit (byte c div 16), hex_digit (byte c mod 16)]) s)"

definition Sign :: "(string \<Rightarrow> string \<Rightarrow> string) \<Rightarrow> string \<Rightarrow> string \<Rightarrow> string" where
  "Sign hmac secret body = hex_encode (hmac secret body)"

definition Verify :: "(string \<Rightarrow> string \<Rightarrow> string) \<Rightarrow> string \<Rightarrow> string \<Rightarrow> string \<Rightarrow> bool" where
  "Verify hmac secret body signature = (Sign hmac secret body = signature)"

type_synonym sender = "string \<Rightarrow> string \<Rightarrow> (string \<times> string) list \<Rightarrow> go_error option"

definition Notifier_Handle ::
  "(string \<Rightarrow> string \<Rightarrow> string) \<Rightarrow> sender \<Rightarrow> string \<Rightarrow> string \<Rightarrow> string \<Rightarrow> envelope option \<Rightarrow> unit dbm" where
  "Notifier_Handle hmac send secret eventType payload decoded =
     (case decoded of
        None \<Rightarrow> fail (Permanent (ErrorString ''evento sem merchant_id''))
      | Some env \<Rightarrow>
          if env_MerchantID env = [] then fail (Permanent (ErrorString ''evento sem merchant_id''))
          else (\<lambda>w. case merchants_FindByID (env_MerchantID env) w of
             (Inl err, w') \<Rightarrow> (Inl (if errors_Is err ErrNotFound then Permanent err else err), w')
           | (Inr m, w') \<Rightarrow>
               if m_webhookURL m = [] then (Inr (), w')
               else let headers = [(''Content-Type'', ''application/json''), (''X-Event-Id'', env_EventID env),
                          (''X-Event-Type'', eventType), (''X-Signature'', ''sha256='' @ Sign hmac secret payload)]
                    in (case send (m_webhookURL m) payload headers of
                         Some err \<Rightarrow> (Inl (Errorf [env_EventID env, m_id m] err), w')
                       | None \<Rightarrow> effect_log (Webhook (m_webhookURL m) payload headers) w')))"

context run_frame
begin

lemma run_Notifier [frame]:
  assumes "\<And>ef. runs R (effect_log ef)"
  shows "runs R (Notifier_Handle hmac send secret ty body decoded)"
proof (rule runsI)
  fix w r w' assume run: "Notifier_Handle hmac send secret ty body decoded w = (r, w')"
  show "R w w'"
  proof (cases decoded)
    case (Some env)
    obtain r1 w1 where 1: "merchants_FindByID (env_MerchantID env) w = (r1, w1)" by fastforce
    have "R w w1" using runsD [OF run_reads(1) 1] .
    moreover have "w' = w \<or> w' = w1 \<or> (\<exists>ef. effect_log ef w1 = (r, w'))"
      using run Some by (auto simp: Notifier_Handle_def 1 Let_def split: sum.splits option.splits if_splits)
    ultimately show ?thesis using R_refl R_trans runsD [OF assms] by blast
  qed (use run R_refl in \<open>simp add: Notifier_Handle_def\<close>)
qed

end

end
