(* ===== verification/Sample_Runs.thy ===== *)
theory Sample_Runs
  imports Store_Effects Scheduling
begin

text \<open>
  When the statements of a loop succeed, and a concrete run: the sample sale of
  \<open>Store.sample_world\<close> is scheduled. The properties of the use cases are applied to it.
\<close>

section \<open>When the loops succeed\<close>

lemma SaveAll_run:
  assumes "\<And>n. w_faults w n = None" "\<forall>x \<in> set xs. receivable_ok (w_db w) x"
    and "distinct (map rcv_id (t_receivables (w_db w) @ xs))"
  shows "receivables_SaveAll xs w = (Inr (), w\<lparr>w_stmts := w_stmts w + length xs,
    w_db := (w_db w)\<lparr>t_receivables := t_receivables (w_db w) @ xs\<rparr>\<rparr>)"
  using assms
proof (induction xs arbitrary: w)
  case (Cons x xs)
  define w1 where "w1 = w\<lparr>w_stmts := w_stmts w + 1, w_db := (w_db w)\<lparr>t_receivables := t_receivables (w_db w) @ [x]\<rparr>\<rparr>"
  have "receivables_SaveAll xs w1 = (Inr (), w1\<lparr>w_stmts := w_stmts w1 + length xs,
    w_db := (w_db w1)\<lparr>t_receivables := t_receivables (w_db w1) @ xs\<rparr>\<rparr>)"
    using Cons.prems by (intro Cons.IH) (auto simp: w1_def receivable_ok_def)
  then show ?case using Cons.prems by (auto simp: w1_def insert_row_def)
qed simp

lemma ledger_insert_run:
  assumes "\<And>n. w_faults w n = None"
    and "\<forall>e \<in> set es. 0 \<le>s le_Debit e \<and> 0 \<le>s le_Credit e \<and> (le_Debit e = 0 \<or> le_Credit e = 0)"
    and "distinct (map le_ID (t_ledger (w_db w) @ es))"
  shows "ledger_insert es w = (Inr (), w\<lparr>w_stmts := w_stmts w + length es,
    w_db := (w_db w)\<lparr>t_ledger := t_ledger (w_db w) @ es\<rparr>\<rparr>)"
  using assms
proof (induction es arbitrary: w)
  case (Cons e es)
  define w1 where "w1 = w\<lparr>w_stmts := w_stmts w + 1, w_db := (w_db w)\<lparr>t_ledger := t_ledger (w_db w) @ [e]\<rparr>\<rparr>"
  have "ledger_insert es w1 = (Inr (), w1\<lparr>w_stmts := w_stmts w1 + length es,
    w_db := (w_db w1)\<lparr>t_ledger := t_ledger (w_db w1) @ es\<rparr>\<rparr>)"
    using Cons.prems by (intro Cons.IH) (auto simp: w1_def)
  then show ?case using Cons.prems by (auto simp: w1_def insert_row_def)
qed simp

lemma ForScheduled_ids:
  "map le_ID (ForScheduled_from uu k rs now) = map (\<lambda>i. NewID (uu i) ''le'') [k..<k + 3 * length rs]"
proof (induction rs arbitrary: k)
  case (Cons r rs)
  have "[k..<k + 3 * length (r # rs)] = [k, k + 1, k + 2] @ [k + 3..<k + 3 + 3 * length rs]"
    by (simp add: upt_conv_Cons eval_nat_numeral del: upt_Suc)
  then show ?case unfolding ForScheduled_from.simps map_append Cons.IH by (simp add: entry_defs)
qed simp

lemma ForScheduled_checks:
  "\<forall>r \<in> set rs. 0 \<le>s rcv_gross r \<and> 0 \<le>s rcv_net r \<and> 0 \<le>s rcv_fee r \<Longrightarrow>
     \<forall>e \<in> set (ForScheduled_from uu k rs now). 0 \<le>s le_Debit e \<and> 0 \<le>s le_Credit e \<and> (le_Debit e = 0 \<or> le_Credit e = 0)"
  by (induction rs arbitrary: k) (auto simp: entry_defs sle64)

lemma Schedule_ids:
  assumes "Schedule uu tx plan cal now = Inr rs" "uuid_distinct uu"
  shows "distinct (map rcv_id rs)"
  using assms unfolding Schedule_Inr by (auto simp: newReceivable_def distinct_map inj_on_def NewID_inj)

section \<open>Scheduling the sample sale\<close>

definition start_world :: world where
  "start_world = sample_world\<lparr>w_stmts := 1, w_uuids := \<lambda>_. sample_uuids\<rparr>"

definition captured_event :: tx_event where
  "captured_event = TransactionCaptured (NewBaseEvent ''9'' ''transaction.captured'' (tx_id sample_captured) 8)
     ''m_1'' 100000 Credit 3 ''VISA'' 7"

lemma sample_amounts:
  "r \<in> set sample_schedule \<Longrightarrow> 0 \<le>s rcv_gross r \<and> 0 \<le>s rcv_net r \<and> 0 \<le>s rcv_fee r"
proof -
  have "Split 100000 3 = [33334, 33333, 33333]" "Split (ApplyBps 100000 350) 3 = [1168, 1166, 1166]"
    by (simp_all add: Split_eq ApplyBps_def div64_def numeral_eq_Suc)
  then have "map rcv_gross sample_schedule = [33334, 33333, 33333]" "map rcv_fee sample_schedule = [1168, 1166, 1166]"
    by (simp_all add: sample_schedule_def Schedule_def sample_tx_defs sample_MDR newReceivable_def Let_def
        upt_rec numeral_eq_Suc)
  moreover assume "r \<in> set sample_schedule"
  then have "rcv_gross r \<in> set (map rcv_gross sample_schedule)" "rcv_fee r \<in> set (map rcv_fee sample_schedule)"
    "rcv_net r \<in> set (map rcv_net sample_schedule)" by auto
  ultimately have "rcv_gross r \<in> {33334, 33333}" "rcv_fee r \<in> {1168, 1166}" "rcv_net r \<in> {32166, 32167}"
    by (simp_all add: sample_nets)
  then show "0 \<le>s rcv_gross r \<and> 0 \<le>s rcv_net r \<and> 0 \<le>s rcv_fee r" by (auto simp: sle64)
qed

lemma start_ids: "tx_id sample_captured = NewID ''7'' ''tx''" "tx_merchantID sample_captured = ''m_1''"
  "m_id sample_active = ''m_1''" "m_feePlan sample_active = sample_plan"
  by (simp_all add: sample_tx_defs sample_active_def sample_merchant_def touch_def)

lemma start_toDomain: "merchant_toDomain sample_active = Inr sample_active"
  using sample_plan_new
  by (simp add: merchant_toDomain_def merchant_Restore_def sample_active_def sample_merchant_def touch_def)
    (simp add: sample_plan_def)

lemma find_start: "processed_MarkIfNew consumerName i start_world
    = (Inr True, start_world\<lparr>w_stmts := 2, w_db := sample_tables\<lparr>t_processed := [(consumerName, i)]\<rparr>\<rparr>)"
  by (simp add: processed_MarkIfNew_def start_world_def sample_world_def sample_tables_def)

lemma sample_bookings:
  defines "es \<equiv> ForScheduled sample_uuids sample_schedule 8"
  assumes "\<And>n. w_faults w n = None" "t_ledger (w_db w) = []"
  shows "ledger_Append es w = (Inr (), w\<lparr>w_stmts := w_stmts w + length es, w_db := (w_db w)\<lparr>t_ledger := es\<rparr>\<rparr>)"
proof -
  have "distinct (map le_ID es)"
    using sample_uuids_distinct by (simp add: es_def ForScheduled_def ForScheduled_ids distinct_map inj_on_def NewID_inj)
  moreover have "Balanced es"
    unfolding es_def ForScheduled_def using Schedule_members [OF sample_schedule]
    by (intro ForScheduled_balanced) (simp add: rcv_sound_def)
  moreover have "\<forall>e \<in> set es. 0 \<le>s le_Debit e \<and> 0 \<le>s le_Credit e \<and> (le_Debit e = 0 \<or> le_Credit e = 0)"
    unfolding es_def ForScheduled_def using sample_amounts by (intro ForScheduled_checks) blast
  ultimately show ?thesis using ledger_insert_run [of w es] assms(2,3) by (simp add: ledger_Append_def)
qed

lemma sample_announced: "\<exists>e. NewReceivablesScheduled (sample_uuids 0) sample_schedule 8 = Some e"
  using sample_nets unfolding NewReceivablesScheduled_def by (simp split: list.split)  (auto dest: sym)

lemma captured_run:
  "\<exists>w. captured_body BrazilCalendar 8 captured_event start_world = (Inr sample_schedule, w)
     \<and> t_receivables (w_db w) = sample_schedule \<and> w_faults w = (\<lambda>_. None)"
proof -
  define w1 where "w1 = start_world\<lparr>w_stmts := 2, w_db := sample_tables\<lparr>t_processed := [(consumerName, NewID ''9'' ''evt'')]\<rparr>\<rparr>"
  define w2 where "w2 = w1\<lparr>w_stmts := 4, w_draws := 1\<rparr>"
  define w3 where "w3 = w2\<lparr>w_stmts := w_stmts w2 + length sample_schedule,
    w_db := (w_db w2)\<lparr>t_receivables := t_receivables (w_db w2) @ sample_schedule\<rparr>\<rparr>"
  define w4 where "w4 = w3\<lparr>w_draws := 2\<rparr>"
  define es where "es = ForScheduled sample_uuids sample_schedule 8"
  define w5 where "w5 = w4\<lparr>w_stmts := w_stmts w4 + length es, w_db := (w_db w4)\<lparr>t_ledger := t_ledger (w_db w4) @ es\<rparr>\<rparr>"
  define w6 where "w6 = w5\<lparr>w_draws := 3\<rparr>"
  note ws = w1_def w2_def w3_def w4_def w5_def w6_def start_world_def sample_world_def sample_tables_def
  have 1: "processed_MarkIfNew consumerName (ev_ID (te_base captured_event)) start_world = (Inr True, w1)"
    by (simp add: captured_event_def NewBaseEvent_def find_start w1_def)
  have 2: "transactions_FindByID (te_merchant captured_event) (ev_Aggregate (te_base captured_event)) w1
      = (Inr sample_captured, w1\<lparr>w_stmts := 3\<rparr>)"
    by (simp add: transactions_FindByID_def transactions_find_def captured_event_def NewBaseEvent_def start_ids ws)
  have 3: "merchants_FindByID (te_merchant captured_event) (w1\<lparr>w_stmts := 3\<rparr>) = (Inr sample_active, w1\<lparr>w_stmts := 4\<rparr>)"
    by (simp add: merchants_FindByID_def captured_event_def start_ids start_toDomain ws)
  have 4: "fresh (w1\<lparr>w_stmts := 4\<rparr>) = (Inr sample_uuids, w2)" by (simp add: fresh_def ws)
  have 5: "receivables_SaveAll sample_schedule w2 = (Inr (), w3)"
    unfolding w3_def using Schedule_ids [OF sample_schedule sample_uuids_distinct] Schedule_members [OF sample_schedule]
    by (intro SaveAll_run) (auto simp: ws receivable_ok_def start_ids)
  have 6: "fresh w3 = (Inr sample_uuids, w4)" by (simp add: fresh_def ws)
  have 7: "ledger_Append es w4 = (Inr (), w5)"
    unfolding es_def using sample_bookings [of w4] by (simp add: w5_def es_def) (simp add: ws)
  have 8: "fresh w5 = (Inr sample_uuids, w6)" by (simp add: fresh_def ws)
  obtain e where 9: "NewReceivablesScheduled (sample_uuids 0) sample_schedule 8 = Some e" using sample_announced by blast
  obtain w7 where 10: "outbox_Append [RcvEvent e] w6 = (Inr (), w7)" "t_receivables (w_db w7) = t_receivables (w_db w6)"
    "w_faults w7 = w_faults w6"
    by (simp add: Let_def ws insert_row_def)
  have plan: "Schedule sample_uuids sample_captured (m_feePlan sample_active) BrazilCalendar 8 = Inr sample_schedule"
    by (simp add: start_ids sample_schedule)
  have "captured_body BrazilCalendar 8 captured_event start_world = (Inr sample_schedule, w7)"
    unfolding captured_body_def mbind_def
    by (simp add: 1 2 3 4 5 6 7 [unfolded es_def] 8 9 10(1) plan del: outbox_Append.simps)
  moreover have "t_receivables (w_db w7) = sample_schedule" "w_faults w7 = (\<lambda>_. None)" by (simp_all add: 10(2,3) ws)
  ultimately show ?thesis by blast
qed

definition idle_world :: world where
  "idle_world = start_world\<lparr>w_stmts := 0\<rparr>"

lemma scheduled_run:
  "\<exists>w. Scheduler_Handle (\<lambda>_. False) BrazilCalendar 8 ''transaction.captured'' (Some captured_event) idle_world
     = (Inr (), w) \<and> t_receivables (w_db w) = sample_schedule \<and> w_faults w = (\<lambda>_. None)"
proof -
  obtain w where run: "captured_body BrazilCalendar 8 captured_event start_world = (Inr sample_schedule, w)"
    "t_receivables (w_db w) = sample_schedule" "w_faults w = (\<lambda>_. None)" using captured_run by blast
  have "idle_world\<lparr>w_stmts := w_stmts idle_world + 1\<rparr> = start_world" "w_faults idle_world = (\<lambda>_. None)"
    by (simp_all add: idle_world_def start_world_def sample_world_def)
  then have "Do (captured_body BrazilCalendar 8 captured_event) idle_world
      = (Inr sample_schedule, w\<lparr>w_stmts := w_stmts w + 1\<rparr>)"
    unfolding Do_Inr using run by auto
  then show ?thesis using run by (simp add: Scheduler_Handle_def onCaptured_def mbind_def)
qed

end
