(* ===== verification/Accounting.thy ===== *)
theory Accounting
  imports Books Notifying Sample_Runs
begin

text \<open>
  Each use case that moves money keeps the books: scheduling, cancelling, anticipating,
  charging back and settling. Together with \<open>Books\<close> this covers every operation that
  writes to the database.
\<close>

lemma if_run: "(if b then m else n) w = x \<longleftrightarrow> (b \<longrightarrow> m w = x) \<and> (\<not> b \<longrightarrow> n w = x)"
  by simp

section \<open>Scheduling\<close>

lemma ForScheduled_nonneg:
  "\<forall>e \<in> set (ForScheduled_from uu k rs now). 0 \<le> sint (le_Debit e) \<and> 0 \<le> sint (le_Credit e)
   \<Longrightarrow> \<forall>r \<in> set rs. 0 \<le> sint (rcv_net r)"
  by (induction rs arbitrary: k) (auto simp: entry_defs)

lemma Schedule_row_ok:
  assumes "Schedule uu tx plan BrazilCalendar now = Inr rs" "\<forall>r \<in> set rs. 0 \<le> sint (rcv_net r)"
  shows "\<forall>r \<in> set rs. row_ok r \<and> rcv_status r = RScheduled"
proof -
  obtain c where "tx_capturedAt tx = Some c" using assms(1) unfolding Schedule_Inr by blast
  then have "\<forall>r \<in> set rs. midnight (rcv_dueDate r)" using brazil.schedule_due(1) [OF assms(1)] by blast
  then show ?thesis using Schedule_members [OF assms(1)] assms(2) by (simp add: row_ok_def)
qed

lemma books_insert:
  assumes "books_ok d" "books_change [] rs es"
    and "distinct (map rcv_id (t_receivables d @ rs))"
    and "t_receivables d' = t_receivables d @ rs" "t_ledger d' = t_ledger d @ es"
  shows "books_ok d'"
  using assms unfolding books_ok_def books_change_def by (auto simp: Balanced_append)

lemma captured_body_new:
  assumes run: "captured_body cal now ev w = (Inr rs, w')"
    and 1: "processed_MarkIfNew consumerName (ev_ID (te_base ev)) w = (Inr True, w1)"
  obtains tx w2 m w3 uu w4 w5 uu' w6 w7 uu'' w8 e where
    "transactions_FindByID (te_merchant ev) (ev_Aggregate (te_base ev)) w1 = (Inr tx, w2)"
    "merchants_FindByID (te_merchant ev) w2 = (Inr m, w3)" "fresh w3 = (Inr uu, w4)"
    "Schedule uu tx (m_feePlan m) cal now = Inr rs" "receivables_SaveAll rs w4 = (Inr (), w5)"
    "fresh w5 = (Inr uu', w6)" "ledger_Append (ForScheduled uu' rs now) w6 = (Inr (), w7)" "fresh w7 = (Inr uu'', w8)"
    "NewReceivablesScheduled (uu'' 0) rs now = Some e" "outbox_Append [RcvEvent e] w8 = (Inr (), w')"
proof -
  obtain tx w2 m w3 uu w4 rs' w5 u6 w6 uu' w7 u8 w8 uu'' w9 e w10 u where
    2: "transactions_FindByID (te_merchant ev) (ev_Aggregate (te_base ev)) w1 = (Inr tx, w2)" and
    3: "merchants_FindByID (te_merchant ev) w2 = (Inr m, w3)" and 4: "fresh w3 = (Inr uu, w4)" and
    5: "(case Schedule uu tx (m_feePlan m) cal now of
          Inl err \<Rightarrow> fail (Permanent err) | Inr rs \<Rightarrow> ret rs) w4 = (Inr rs', w5)" and
    6: "receivables_SaveAll rs' w5 = (Inr u6, w6)" and 7: "fresh w6 = (Inr uu', w7)" and
    8: "ledger_Append (ForScheduled uu' rs' now) w7 = (Inr u8, w8)" and
    9: "fresh w8 = (Inr uu'', w9)" and
    10: "outbox_Append [RcvEvent e] w10 = (Inr u, w')" "rs' = rs" and
    11: "(case NewReceivablesScheduled (uu'' 0) rs' now of
              None \<Rightarrow> fail (ErrorString ''panic'') | Some e \<Rightarrow> ret e) w9 = (Inr e, w10)"
    using run unfolding captured_body_def mbind_Inr if_run 1 ret_simps prod.inject sum.inject by blast
  have "Schedule uu tx (m_feePlan m) cal now = Inr rs" "w5 = w4" using 5 10(2) by (auto split: sum.splits)
  moreover have "NewReceivablesScheduled (uu'' 0) rs now = Some e" "w10 = w9" using 11 10(2) by (auto split: option.splits)
  ultimately show ?thesis using that 2 3 4 6 7 8 9 10 by (metis (full_types) old.unit.exhaust)
qed

lemma captured_keeps: "body_keeps_books (captured_body BrazilCalendar now ev)"
  unfolding body_keeps_books_def
proof (intro allI impI)
  fix w x w'
  assume run: "captured_body BrazilCalendar now ev w = (Inr x, w')" and ok: "books_ok (w_db w)"
  obtain isNew w1 where 1: "processed_MarkIfNew consumerName (ev_ID (te_base ev)) w = (Inr isNew, w1)"
    using run unfolding captured_body_def mbind_Inr by blast
  note same1 = same_booksD [OF plain_writes(10) 1]
  show "books_ok (w_db w')"
  proof (cases isNew)
    case False
    then have "w' = w1" using run 1 unfolding captured_body_def by (auto simp: mbind_def)
    then show ?thesis using ok same1 books_ok_cong by blast
  next
    case True
    then have first: "processed_MarkIfNew consumerName (ev_ID (te_base ev)) w = (Inr True, w1)" using 1 by simp
    obtain tx w2 m w3 uu w4 w5 uu' w6 w7 uu'' w8 e where
      2: "transactions_FindByID (te_merchant ev) (ev_Aggregate (te_base ev)) w1 = (Inr tx, w2)" and
      3: "merchants_FindByID (te_merchant ev) w2 = (Inr m, w3)" and 4: "fresh w3 = (Inr uu, w4)" and
      5: "Schedule uu tx (m_feePlan m) BrazilCalendar now = Inr x" and
      6: "receivables_SaveAll x w4 = (Inr (), w5)" and 7: "fresh w5 = (Inr uu', w6)" and
      8: "ledger_Append (ForScheduled uu' x now) w6 = (Inr (), w7)" and 9: "fresh w7 = (Inr uu'', w8)" and
      10: "outbox_Append [RcvEvent e] w8 = (Inr (), w')"
      by (rule captured_body_new [OF run first])
    have before: "t_receivables (w_db w4) = t_receivables (w_db w)" "t_ledger (w_db w4) = t_ledger (w_db w)"
      using same1 same_booksD [OF plain.run_reads(2) 2] same_booksD [OF plain.run_reads(1) 3] same_booksD [OF plain.run_fresh 4]
      by simp_all
    note saved = SaveAll_effect [OF 6]
    note booked = ledger_Append_effect [OF 8]
    have new: "\<forall>r \<in> set x. row_ok r \<and> rcv_status r = RScheduled"
      using Schedule_row_ok [OF 5] ForScheduled_nonneg booked unfolding ForScheduled_def by blast
    have dist: "distinct (map rcv_id (t_receivables (w_db w)))" using ok by (simp add: books_ok_def)
    have rows: "t_receivables (w_db w') = t_receivables (w_db w) @ x"
      "t_ledger (w_db w') = t_ledger (w_db w) @ ForScheduled uu' x now"
      using saved booked before 7 9 same_booksD [OF plain_outbox 10] by simp_all
    have "distinct (map rcv_id (t_receivables (w_db w) @ x))" using saved dist before by simp
    then show ?thesis using books_insert [OF ok books_change_new [OF new] _ rows] by blast
  qed
qed

text \<open>The loops over the receivables of a transaction.\<close>

lemma changed_status:
  "rcv_Cancel now r = Inr x \<Longrightarrow> x = r\<lparr>rcv_status := RCanceled, rcv_version := rcv_version r + 1, rcv_updatedAt := now\<rparr>"
  "rcv_Chargeback now r = Inr x \<Longrightarrow> x = r\<lparr>rcv_status := RChargebacked, rcv_version := rcv_version r + 1, rcv_updatedAt := now\<rparr>"
  by (simp_all add: rcv_Cancel_def rcv_Chargeback_def rcv_transition_def split: if_splits)

lemma ForChargeback_cancel: "rcv_Cancel now r = Inr x \<Longrightarrow> ForChargeback uu x t = ForChargeback uu r t"
  by (drule changed_status(1)) (simp add: ForChargeback_def)

lemma cancel_loop_books:
  "cancel_loop uu k now rs = Inr (xs, es) \<Longrightarrow> \<forall>r \<in> set rs. row_ok r \<Longrightarrow>
     list_all2 changed_from (filter (\<lambda>r. rcv_status r = RScheduled) rs) xs
     \<and> books_change (filter (\<lambda>r. rcv_status r = RScheduled) rs) xs es"
proof (induction rs arbitrary: k xs es)
  case (Cons r rs)
  show ?case
  proof (cases "rcv_status r = RScheduled")
    case True
    then obtain x xs' es' where x: "rcv_Cancel now r = Inr x" and
      rest: "cancel_loop uu (k + 3) now rs = Inr (xs', es')" "xs = x # xs'"
        "es = ForChargeback (\<lambda>i. uu (k + i)) x now @ es'"
      using Cons.prems(1) by (auto split: sum.splits)
    have "books_change [r] [x] (ForChargeback (\<lambda>i. uu (k + i)) r now)"
      using changed_status(1) [OF x] Cons.prems(2) True
      by (intro books_change_reversed [where v = "rcv_version r + 1" and t = now]) simp_all
    then show ?thesis
      using Cons.IH [OF rest(1)] Cons.prems(2) True rest(2,3) x
        books_change_append [of "[r]" "[x]" _ _ xs' es'] rcv_step_changed [OF rcv_cancel [OF x]]
      by (simp add: ForChargeback_cancel)
  qed (use Cons in simp)
qed simp

lemma chargeback_loop_books:
  "chargeback_loop uu k now rs = Inr (xs, es) \<Longrightarrow> \<forall>r \<in> set rs. row_ok r \<Longrightarrow>
     list_all2 changed_from (filter (\<lambda>r. rcv_status r = RScheduled \<or> rcv_status r = RAnticipated) rs) xs
     \<and> books_change (filter (\<lambda>r. rcv_status r = RScheduled \<or> rcv_status r = RAnticipated) rs) xs es"
proof (induction rs arbitrary: k xs es)
  case (Cons r rs)
  show ?case
  proof (cases "rcv_status r = RScheduled \<or> rcv_status r = RAnticipated")
    case True
    then obtain x xs' es' where x: "rcv_Chargeback now r = Inr x" and
      rest: "chargeback_loop uu (k + 3) now rs = Inr (xs', es')" "xs = x # xs'"
        "es = (if rcv_status r = RScheduled then ForChargeback (\<lambda>i. uu (k + i)) r now
               else ForChargebackAnticipated (\<lambda>i. uu (k + i)) r now) @ es'"
      using Cons.prems(1) by (auto split: sum.splits)
    have "books_change [r] [x] (ForChargeback (\<lambda>i. uu (k + i)) r now)" if "rcv_status r = RScheduled"
      using changed_status(2) [OF x] Cons.prems(2) that
      by (intro books_change_reversed [where v = "rcv_version r + 1" and t = now]) simp_all
    moreover have "books_change [r] [x] (ForChargebackAnticipated (\<lambda>i. uu (k + i)) r now)"
      if "rcv_status r = RAnticipated"
      using changed_status(2) [OF x] Cons.prems(2) that
      by (intro books_change_anticipated [where v = "rcv_version r + 1" and t = now]) simp_all
    ultimately show ?thesis
      using Cons.IH [OF rest(1)] Cons.prems(2) True rest(2,3)
        books_change_append [of "[r]" "[x]" _ _ xs' es'] rcv_step_changed [OF rcv_chargeback [OF x]]
      by auto
  qed (use Cons in simp)
qed simp

text \<open>Rows chosen from the table, changed, written back and booked.\<close>

lemma books_loop:
  assumes ok: "books_ok (w_db w)" and rows: "distinct rs" "set rs \<subseteq> set (t_receivables (w_db w))"
    and up: "receivables_UpdateAll xs w = (Inr u, w1)" "ledger_Append es w1 = (Inr u', w2)"
    and loop: "list_all2 changed_from rs xs" "books_change rs xs es"
  shows "books_ok (w_db w2)"
  using books_update [OF ok loop(2) up(1) loop(1) rows, where d = "w_db w2"] ledger_Append_effect [OF up(2)] by simp

lemma canceled_keeps: "body_keeps_books (canceled_body now ev)"
  unfolding body_keeps_books_def
proof (intro allI impI)
  fix w x w'
  assume run: "canceled_body now ev w = (Inr x, w')" and ok: "books_ok (w_db w)"
  obtain isNew w1 where 1: "processed_MarkIfNew consumerName (ev_ID (te_base ev)) w = (Inr isNew, w1)"
    using run unfolding canceled_body_def mbind_Inr by blast
  have ok1: "books_ok (w_db w1)" using same_booksD [OF plain_writes(10) 1] ok books_ok_cong by blast
  show "books_ok (w_db w')"
  proof (cases isNew)
    case False
    then have "w' = w1" using run 1 unfolding canceled_body_def by (auto simp: mbind_def)
    then show ?thesis using ok1 by simp
  next
    case True
    obtain rs w2 uu w3 xs es where
      2: "receivables_ListByTransaction (ev_Aggregate (te_base ev)) w1 = (Inr rs, w2)" and 3: "fresh w2 = (Inr uu, w3)"
      and loop: "cancel_loop uu 0 now rs = Inr (xs, es)"
      and rest: "(if xs = [] then ret () else mbind (receivables_UpdateAll xs) (\<lambda>_. ledger_Append es)) w3 = (Inr x, w')"
      using run True unfolding canceled_body_def mbind_Inr if_run 1 lift_result_simps prod.inject sum.inject
        split_paired_Ex prod.case by blast
    note listed = ListByTransaction_effect [OF 2 ok1]
    have ok3: "books_ok (w_db w3)" "set rs \<subseteq> set (t_receivables (w_db w3))"
      using ok1 listed 3 by auto
    have rows: "\<forall>r \<in> set rs. row_ok r" using ok3 by (auto simp: books_ok_def)
    show ?thesis
    proof (cases "xs = []")
      case False
      then obtain u w4 where up: "receivables_UpdateAll xs w3 = (Inr u, w4)" "ledger_Append es w4 = (Inr x, w')"
        using rest by auto
      have sel: "distinct (filter (\<lambda>r. rcv_status r = RScheduled) rs)"
        "set (filter (\<lambda>r. rcv_status r = RScheduled) rs) \<subseteq> set (t_receivables (w_db w3))"
        using ok3(2) listed(2) by auto
      show ?thesis using books_loop [OF ok3(1) sel up] cancel_loop_books [OF loop rows] by blast
    qed (use rest ok3 in simp)
  qed
qed

section \<open>Disputes\<close>

lemma open_keeps: "body_keeps_books (open_body now cmd)"
  unfolding body_keeps_books_def
proof (intro allI impI)
  fix w x w'
  assume run: "open_body now cmd w = (Inr x, w')" and ok: "books_ok (w_db w)"
  obtain tx w1 uu w2 tx1 cb u3 w3 u4 w4 rs w5 uu' w6 xs es u7 w7 u8 where
    1: "transactions_FindByIDForUpdate (opc_MerchantID cmd) (opc_TransactionID cmd) w = (Inr tx, w1)"
    and 2: "fresh w1 = (Inr uu, w2)" and 3: "transactions_Update tx1 w2 = (Inr u3, w3)"
    and 4: "chargebacks_Create cb w3 = (Inr u4, w4)"
    and 5: "receivables_ListByTransaction (tx_id tx1) w4 = (Inr rs, w5)" and 6: "fresh w5 = (Inr uu', w6)"
    and loop: "chargeback_loop uu' 0 now rs = Inr (xs, es)"
    and 7: "(if length xs > 0 then mbind (receivables_UpdateAll xs) (\<lambda>_. ledger_Append es) else ret ()) w6 = (Inr u7, w7)"
    and 8: "outbox_Append (map TxEvent (fst (tx_PullEvents tx1)) @ map CbEvent (fst (cb_PullEvents cb))) w7 = (Inr u8, w')"
    using run unfolding open_body_def mbind_Inr lift_result_simps ret_simps prod.inject sum.inject
      split_paired_Ex prod.case by blast
  have "books_ok (w_db w4)"
    using books_ok_cong [OF _ _ ok] same_booksD [OF plain.run_reads(3) 1] same_booksD [OF plain.run_fresh 2]
      same_booksD [OF plain_writes(4) 3] same_booksD [OF plain_writes(8) 4] by simp
  note listed = ListByTransaction_effect [OF 5 this]
  have ok6: "books_ok (w_db w6)" "set rs \<subseteq> set (t_receivables (w_db w6))"
    using \<open>books_ok (w_db w4)\<close> listed 6 by auto
  have rows: "\<forall>r \<in> set rs. row_ok r" using ok6 by (auto simp: books_ok_def)
  have "books_ok (w_db w7)"
  proof (cases "length xs > 0")
    case True
    then obtain u9 w8 where up: "receivables_UpdateAll xs w6 = (Inr u9, w8)" "ledger_Append es w8 = (Inr u7, w7)"
      using 7 by auto
    have sel: "distinct (filter (\<lambda>r. rcv_status r = RScheduled \<or> rcv_status r = RAnticipated) rs)"
      "set (filter (\<lambda>r. rcv_status r = RScheduled \<or> rcv_status r = RAnticipated) rs) \<subseteq> set (t_receivables (w_db w6))"
      using ok6(2) listed(2) by auto
    show ?thesis using books_loop [OF ok6(1) sel up] chargeback_loop_books [OF loop rows] by blast
  qed (use 7 ok6 in simp)
  then show "books_ok (w_db w')" using same_booksD [OF plain_outbox 8] books_ok_cong by blast
qed

lemma FindForUpdate_effect:
  assumes "receivables_FindForUpdate mid ids w = (Inr rs, w')" "books_ok (w_db w)"
  shows "w_db w' = w_db w" "distinct rs" "set rs = {r \<in> set (t_receivables (w_db w)). rcv_merchantID r = mid \<and> rcv_id r \<in> set ids}"
proof -
  have eq: "w_db w' = w_db w"
    "rs = sort_key rcv_id (filter (\<lambda>r. rcv_merchantID r = mid \<and> rcv_id r \<in> set ids) (t_receivables (w_db w)))"
    using list_effect [OF assms(1)[unfolded receivables_FindForUpdate_def] assms(2)] by auto
  have "distinct (t_receivables (w_db w))" using assms(2) by (simp add: books_ok_def distinct_map)
  then show "w_db w' = w_db w" "distinct rs"
    "set rs = {r \<in> set (t_receivables (w_db w)). rcv_merchantID r = mid \<and> rcv_id r \<in> set ids}"
    using eq by auto
qed

text \<open>What a simulation and its confirmation give, as one step.\<close>

lemma Simulate_effect:
  assumes "Simulate uuid mid rs today rate pv = Inr a"
  shows "ant_id a = NewID uuid ''ant'' \<and> ant_merchantID a = mid \<and> ant_gross a = (\<Sum>r\<leftarrow>rs. rcv_net r)
    \<and> ant_gross a = ant_net a + ant_discount a \<and> (\<forall>r \<in> set rs. rcv_merchantID r = mid \<and> rcv_status r = RScheduled)"
  using assms by (auto simp: Simulate_def simulate_loop_Inr IsAnticipable_def split: if_splits)

lemma Confirm_effect:
  assumes "ant_Confirm uuid rs now a = (None, a', rs')"
  shows "rs' = map (\<lambda>r. r\<lparr>rcv_status := RAnticipated, rcv_version := rcv_version r + 1,
           rcv_updatedAt := now, rcv_anticipationID := ant_id a\<rparr>) rs
    \<and> (\<forall>r \<in> set rs. rcv_status r = RScheduled) \<and> ant_id a' = ant_id a \<and> ant_merchantID a' = ant_merchantID a
    \<and> ant_gross a' = ant_gross a \<and> ant_net a' = ant_net a \<and> ant_discount a' = ant_discount a"
proof -
  have run: "length rs = length (ant_items a)" "confirm_loop (ant_id a) now rs = (None, rs')"
    using assms by (auto simp: ant_Confirm_def split: if_splits prod.splits option.splits)
  then have "\<forall>r \<in> set rs. rcv_status r = RScheduled" using confirm_loop_err [of rs "ant_id a" now] by fastforce
  then show ?thesis
    using assms run confirm_loop_ok [of rs "ant_id a" now] by (auto simp: ant_Confirm_def split: if_splits)
qed

lemma books_change_anticipation:
  fixes now :: time and i :: string
  assumes rows: "\<forall>r \<in> set rs. row_ok r \<and> rcv_status r = RScheduled \<and> rcv_merchantID r = ant_merchantID a"
    and a: "ant_gross a = (\<Sum>r\<leftarrow>rs. rcv_net r)" "ant_gross a = ant_net a + ant_discount a" "i \<noteq> []"
  defines "f \<equiv> \<lambda>r. r\<lparr>rcv_status := RAnticipated, rcv_version := rcv_version r + 1,
           rcv_updatedAt := now, rcv_anticipationID := i\<rparr>"
  shows "books_change rs (map f rs) (ForAnticipation uu a now)"
proof -
  have "Balanced (ForAnticipation uu a now)" by (simp add: Balanced_sums ForAnticipation_def entry_defs a(2))
  moreover have "\<forall>x \<in> set (map f rs). row_ok x" using rows a(3) by (auto simp: f_def row_ok_def)
  moreover have "ledger_balance acc mid (ForAnticipation uu a now)
      = (\<Sum>x\<leftarrow>map f rs. book_weight acc mid x) - (\<Sum>r\<leftarrow>rs. book_weight acc mid r)" if "booked acc" for acc mid
  proof -
    have "(\<Sum>x\<leftarrow>map f rs. book_weight acc mid x) - (\<Sum>r\<leftarrow>rs. book_weight acc mid r)
        = (if acc = PayableToMerchant \<and> (mid = [] \<or> mid = ant_merchantID a) then - (\<Sum>r\<leftarrow>rs. rcv_net r) else 0)"
      using rows that by (induction rs) (auto simp: f_def book_weight_def booked_def live_def)
    then show ?thesis
      using a(1) that by (auto simp: ForAnticipation_def ledger_balance_Cons entry_defs booked_def)
  qed
  ultimately show ?thesis by (simp add: books_change_def)
qed

lemma anticipated_changed:
  "list_all2 changed_from rs (map (\<lambda>r. r\<lparr>rcv_status := RAnticipated, rcv_version := rcv_version r + 1,
           rcv_updatedAt := now, rcv_anticipationID := i\<rparr>) rs)"
  by (simp add: list.rel_map changed_from_def rcv_columns_def list.rel_refl_strong)

lemma request_keeps: "body_keeps_books (request_body check_liens pv now mid ids m)"
  unfolding body_keeps_books_def
proof (intro allI impI)
  fix w x w'
  assume run: "request_body check_liens pv now mid ids m w = (Inr x, w')" and ok: "books_ok (w_db w)"
  obtain rs w1 where 1: "receivables_FindForUpdate mid ids w = (Inr rs, w1)"
    using run unfolding request_body_def mbind_Inr by blast
  have len: "\<not> length rs \<noteq> length ids"
    using run 1 unfolding request_body_def by (auto simp: mbind_def split: if_splits)
  obtain uu w2 a u3 w3 a' rs' w4 u5 w5 u6 w6 uu' w7 u8 w8 u9 where 2: "fresh w1 = (Inr uu, w2)"
    and sim: "Simulate (uu 0) mid rs now (fp_anticipationRateMonth (m_feePlan m)) pv = Inr a"
    and 3: "w2 = w3"
    and conf: "(case ant_Confirm (uu 1) rs now a of
                (Some err, _) \<Rightarrow> fail err | (None, a', rs') \<Rightarrow> ret (a', rs')) w3 = (Inr (a', rs'), w4)"
    and 5: "anticipations_Create a' w4 = (Inr u5, w5)" and 6: "receivables_UpdateAll rs' w5 = (Inr u6, w6)"
    and 7: "fresh w6 = (Inr uu', w7)" and 8: "ledger_Append (ForAnticipation uu' a' now) w7 = (Inr u8, w8)"
    and 9: "outbox_Append (map AntEvent (fst (ant_PullEvents a'))) w8 = (Inr u9, w')"
    using run len unfolding request_body_def mbind_Inr if_run 1 lift_result_simps ret_simps prod.inject sum.inject
      split_paired_Ex prod.case by blast
  have conf': "ant_Confirm (uu 1) rs now a = (None, a', rs')" "w4 = w3"
    using conf by (auto split: prod.splits option.splits)
  note listed = FindForUpdate_effect [OF 1 ok]
  note sim' = Simulate_effect [OF sim]
  note con = Confirm_effect [OF conf'(1)]
  have ok5: "books_ok (w_db w5)" "set rs \<subseteq> set (t_receivables (w_db w5))"
    using books_ok_cong [OF _ _ ok] ok listed 2 3 conf'(2) same_booksD [OF plain_writes(7) 5] by auto
  have change: "books_change rs rs' (ForAnticipation uu' a' now)"
    unfolding con [THEN conjunct1]
    using sim' con ok5 by (intro books_change_anticipation) (auto simp: books_ok_def)
  have "list_all2 changed_from rs rs'" unfolding con [THEN conjunct1] by (rule anticipated_changed)
  moreover have "w_db w8 = (w_db w6)\<lparr>t_ledger := t_ledger (w_db w6) @ ForAnticipation uu' a' now\<rparr>"
    using ledger_Append_effect [OF 8] 7 by simp
  ultimately have "books_ok (w_db w8)"
    using books_update [OF ok5(1) change 6 _ listed(2) ok5(2), where d = "w_db w8"] by simp
  then show "books_ok (w_db w')" using same_booksD [OF plain_outbox 9] books_ok_cong by blast
qed

section \<open>Settling\<close>

text \<open>
  The amounts that make the arithmetic of a settlement exact: what the table owes in all
  stays below 2^63 centavos. The other services: the registry reports no negative lien, and
  the order of a map's keys is some order of them.
\<close>

definition within_range :: "tables \<Rightarrow> bool" where
  "within_range d \<longleftrightarrow> (\<Sum>r\<leftarrow>t_receivables d. sint (rcv_net r)) < 2 ^ 63"

definition services_ok :: "services \<Rightarrow> bool" where
  "services_ok sv \<longleftrightarrow> (\<forall>mid day ls. sv_check_liens sv mid day = Inr ls \<longrightarrow> (\<forall>l \<in> set ls. 0 \<le> sint (l_Amount l)))
     \<and> (\<forall>ids. distinct ids \<longrightarrow> distinct (sv_order sv ids) \<and> set (sv_order sv ids) = set ids)"

lemma nets_bound:
  assumes "books_ok d" "within_range d" "distinct rs" "set rs \<subseteq> set (t_receivables d)"
  shows "(\<Sum>r\<leftarrow>rs. sint (rcv_net r)) < 2 ^ 63"
proof -
  have dist: "distinct (t_receivables d)" and nn: "\<forall>r \<in> set (t_receivables d). 0 \<le> sint (rcv_net r)"
    using assms(1) by (auto simp: books_ok_def distinct_map row_ok_def)
  have "(\<Sum>r\<leftarrow>rs. sint (rcv_net r)) = (\<Sum>r \<in> set rs. sint (rcv_net r))"
    using assms(3) by (simp add: sum_list_distinct_conv_sum_set)
  also have "\<dots> \<le> (\<Sum>r \<in> set (t_receivables d). sint (rcv_net r))"
    using assms(4) nn by (intro sum_mono2) auto
  also have "\<dots> = (\<Sum>r\<leftarrow>t_receivables d. sint (rcv_net r))"
    using dist by (simp add: sum_list_distinct_conv_sum_set)
  finally show ?thesis using assms(2) by (simp add: within_range_def)
qed

lemma Build_paid:
  assumes "Build uu date m rs ls now = Inr s"
    and "\<forall>r \<in> set rs. 0 \<le> sint (rcv_net r)" "(\<Sum>r\<leftarrow>rs. sint (rcv_net r)) < 2 ^ 63"
    and "\<forall>l \<in> set ls. 0 \<le> sint (l_Amount l)"
  shows "stl_toMerchant s + stl_toCreditors s = sum_list (nets_of RScheduled rs)
    \<and> (\<forall>r \<in> set rs. rcv_merchantID r = stl_merchantID s \<and> rcv_status r \<in> {RScheduled, RAnticipated})"
proof -
  obtain k p p' s1 s2 where b: "rs \<noteq> []" "\<forall>r \<in> set rs. settleable (m_id m) (DateOnly date) r"
    "p = sum_list (nets_of RScheduled rs)"
    "s1 = stl_Restore (NewID (uu 0) ''stl'') (DateOnly date) (m_id m) (\<Sum>r\<leftarrow>rs. rcv_net r) 0 0
       (sum_list (nets_of RAnticipated rs)) [] (map rcv_id rs) SPending '''' '''' now now 1"
    "build_liens uu 1 p s1 ls = (k, p', s2)"
    "s = (if 0 <s p' then s2\<lparr>stl_orders := stl_orders s2 @ [\<lparr>o_ID = NewID (uu k) ''ord'',
            o_Kind = ToMerchant, o_Beneficiary = m_legalName m,
            o_BankAccount = m_bankAccount m, o_Amount = p'\<rparr>], stl_toMerchant := p'\<rparr> else s2)"
    using Build_Inr [OF assms(1)] by metis
  have part: "(\<Sum>n\<leftarrow>nets_of RScheduled rs. sint n) \<le> (\<Sum>r\<leftarrow>rs. sint (rcv_net r))"
    using assms(2) by (induction rs) auto
  have "sint p = (\<Sum>n\<leftarrow>nets_of RScheduled rs. sint n)"
    using assms(2,3) part sum_list_sint [of "nets_of RScheduled rs" "\<lambda>n. n"] unfolding b(3) by (auto simp: nets_of_def)
  then have "0 \<le> sint p" using assms(2) by (auto simp: nets_of_def intro!: sum_list_nonneg)
  then have lien: "0 \<le> sint p'" "stl_toCreditors s2 = p - p'" "stl_toMerchant s2 = 0" "stl_merchantID s2 = m_id m"
    using build_liens_spec [OF b(5) _ assms(4)] by (auto simp: b(4) stl_Restore_def)
  have "p' = 0" if "\<not> 0 <s p'" using that lien(1) by (simp add: sless64 sint_eq_iff64)
  then show ?thesis using lien b(2,3) by (auto simp: b(6) settleable_def)
qed

lemma settle_all_effect:
  "settle_all i now rs = Inr rs' \<Longrightarrow> rs' = map (\<lambda>r. r\<lparr>rcv_status := RSettled, rcv_version := rcv_version r + 1,
     rcv_updatedAt := now, rcv_settlementID := i\<rparr>) rs"
  by (induction rs arbitrary: rs') (auto simp: rcv_Settle_def rcv_transition_def split: sum.splits if_splits)

lemma settled_changed:
  "list_all2 changed_from rs (map (\<lambda>r. r\<lparr>rcv_status := RSettled, rcv_version := rcv_version r + 1,
     rcv_updatedAt := now, rcv_settlementID := i\<rparr>) rs)"
  by (simp add: list.rel_map changed_from_def rcv_columns_def list.rel_refl_strong)

lemma books_change_settlement:
  fixes now :: time and i :: string
  assumes rows: "\<forall>r \<in> set rs. row_ok r \<and> rcv_merchantID r = stl_merchantID s \<and> rcv_status r \<in> {RScheduled, RAnticipated}"
    and paid: "stl_toMerchant s + stl_toCreditors s = sum_list (nets_of RScheduled rs)"
  defines "f \<equiv> \<lambda>r. r\<lparr>rcv_status := RSettled, rcv_version := rcv_version r + 1,
     rcv_updatedAt := now, rcv_settlementID := i\<rparr>"
  shows "books_change rs (map f rs) (ForSettlement uu s now)"
proof -
  have "Balanced (ForSettlement uu s now)" by (simp add: Balanced_sums ForSettlement_def Let_def entry_defs)
  moreover have "\<forall>x \<in> set (map f rs). row_ok x" using rows by (auto simp: f_def row_ok_def)
  moreover have "ledger_balance acc mid (ForSettlement uu s now)
      = (\<Sum>x\<leftarrow>map f rs. book_weight acc mid x) - (\<Sum>r\<leftarrow>rs. book_weight acc mid r)" if "booked acc" for acc mid
  proof -
    have "(\<Sum>x\<leftarrow>map f rs. book_weight acc mid x) - (\<Sum>r\<leftarrow>rs. book_weight acc mid r)
        = (if acc = PayableToMerchant \<and> (mid = [] \<or> mid = stl_merchantID s) then - sum_list (nets_of RScheduled rs) else 0)"
      using rows that by (induction rs) (auto simp: f_def book_weight_def booked_def live_def)
    then show ?thesis
      using paid that by (auto simp: ForSettlement_def Let_def ledger_balance_Cons entry_defs booked_def)
  qed
  ultimately show ?thesis by (simp add: books_change_def)
qed

lemma plain_send [frame]: "runs same_books (send_to_bank sv s)"
  unfolding send_to_bank_def by (intro frame)

lemma within_range_cong: "t_receivables d' = t_receivables d \<Longrightarrow> within_range d' = within_range d"
  by (simp add: within_range_def)

lemma settle_update:
  assumes ok: "books_ok (w_db w)" "within_range (w_db w)"
    and rows: "distinct rs" "set rs \<subseteq> set (t_receivables (w_db w))"
    and s: "\<forall>r \<in> set rs. rcv_merchantID r = stl_merchantID s \<and> rcv_status r \<in> {RScheduled, RAnticipated}"
      "stl_toMerchant s + stl_toCreditors s = sum_list (nets_of RScheduled rs)"
    and run: "settle_all i now rs = Inr rs'" "receivables_UpdateAll rs' w = (Inr u, w')"
    and d: "t_receivables d = t_receivables (w_db w')" "t_ledger d = t_ledger (w_db w') @ ForSettlement uu s now"
  shows "books_ok d \<and> within_range d \<and> set (t_receivables (w_db w)) - set rs \<subseteq> set (t_receivables d)"
proof -
  have "\<forall>r \<in> set rs. row_ok r" using ok(1) rows(2) by (auto simp: books_ok_def)
  then have change: "books_change rs rs' (ForSettlement uu s now)"
    unfolding settle_all_effect [OF run(1)] using s by (intro books_change_settlement) auto
  have chg: "list_all2 changed_from rs rs'" unfolding settle_all_effect [OF run(1)] by (rule settled_changed)
  have dist: "distinct (map rcv_id (t_receivables (w_db w)))" using ok(1) by (simp add: books_ok_def)
  obtain rows' where rows': "w_db w' = (w_db w)\<lparr>t_receivables := rows'\<rparr>"
    "set rows' = (set (t_receivables (w_db w)) - set rs) \<union> set rs'"
    "(\<Sum>r\<leftarrow>rows'. sint (rcv_net r)) = (\<Sum>r\<leftarrow>t_receivables (w_db w). sint (rcv_net r))
       - (\<Sum>r\<leftarrow>rs. sint (rcv_net r)) + (\<Sum>x\<leftarrow>rs'. sint (rcv_net x))"
    using UpdateAll_effect [OF run(2) dist chg rows, of "\<lambda>r. sint (rcv_net r)"] by blast
  have "(\<Sum>x\<leftarrow>rs'. sint (rcv_net x)) = (\<Sum>r\<leftarrow>rs. sint (rcv_net r))"
    unfolding settle_all_effect [OF run(1)] by (simp add: o_def)
  then have "within_range d" using ok(2) rows'(1,3) d(1) by (simp add: within_range_def)
  moreover have "books_ok d" using books_update [OF ok(1) change run(2) chg rows d] .
  ultimately show ?thesis using rows'(1,2) d(1) by auto
qed

lemma send_to_bank_Inr:
  "send_to_bank sv s w = (Inr sent, w') \<Longrightarrow> w_db w' = w_db w \<and> (case sv_send sv s of
     Inl e \<Rightarrow> sent = Inl e \<and> w' = w | Inr ref \<Rightarrow> sent = Inr ref \<and> w_effects w' = w_effects w @ [BankFile s])"
  by (auto simp: send_to_bank_def effect_log_def split: sum.splits)

lemma ForSettlement_cong:
  "stl_toMerchant s' = stl_toMerchant s \<Longrightarrow> stl_toCreditors s' = stl_toCreditors s \<Longrightarrow>
   stl_merchantID s' = stl_merchantID s \<Longrightarrow> stl_id s' = stl_id s \<Longrightarrow> ForSettlement uu s' now = ForSettlement uu s now"
  by (simp add: ForSettlement_def Let_def)

text \<open>What follows the bank's answer: its refusal is recorded, or everything is marked as settled.\<close>

lemma refused_rest:
  assumes "mbind (lift_result (MarkFailed uid reason now s)) (\<lambda>s1.
     mbind (settlements_Update s1) (\<lambda>_.
     mbind (outbox_Append (map StlEvent (fst (stl_PullEvents s1)))) (\<lambda>_. ret rep''))) w = (Inr rep', w')"
  shows "same_books w w' \<and> w_effects w' = w_effects w \<and> rep' = rep''"
proof -
  have "runs same_books (mbind (lift_result (MarkFailed uid reason now s)) (\<lambda>s1.
      mbind (settlements_Update s1) (\<lambda>_. mbind (outbox_Append (map StlEvent (fst (stl_PullEvents s1)))) (\<lambda>_. ret rep''))))"
    "runs same_effects (mbind (lift_result (MarkFailed uid reason now s)) (\<lambda>s1.
      mbind (settlements_Update s1) (\<lambda>_. mbind (outbox_Append (map StlEvent (fst (stl_PullEvents s1)))) (\<lambda>_. ret rep''))))"
    by (intro frame)+
  then have "same_books w w'" "same_effects w w'" using assms by (blast dest: runsD)+
  moreover have "rep' = rep''" using assms unfolding mbind_Inr ret_simps by auto
  ultimately show ?thesis by (simp add: same_effects_def)
qed

lemma paid_rest:
  assumes "mbind (lift_result (MarkSent ref now s)) (\<lambda>s1.
     mbind (lift_result (MarkConfirmed uid now s1)) (\<lambda>s2.
     mbind (lift_result (settle_all (stl_id s2) now rs)) (\<lambda>rs'.
     mbind (receivables_UpdateAll rs') (\<lambda>_.
     mbind (settlements_Update s2) (\<lambda>_.
     mbind fresh (\<lambda>uu''.
     mbind (if length (ForSettlement uu'' s2 now) > 0 then ledger_Append (ForSettlement uu'' s2 now) else ret ()) (\<lambda>_.
     mbind (outbox_Append (map StlEvent (fst (stl_PullEvents s2)))) (\<lambda>_.
     ret (report_of s2))))))))) w7 = (Inr rep', w')"
  obtains s2 rs' w8 uu'' u where "stl_toMerchant s2 = stl_toMerchant s" "stl_toCreditors s2 = stl_toCreditors s"
    "settle_all (stl_id s) now rs = Inr rs'" "receivables_UpdateAll rs' w7 = (Inr u, w8)"
    "t_receivables (w_db w') = t_receivables (w_db w8)" "t_ledger (w_db w') = t_ledger (w_db w8) @ ForSettlement uu'' s now"
    "w_effects w' = w_effects w7" "rep' = report_of s2"
proof -
  obtain s1 s2 rs' u8 w8 u9 w9 uu'' w10 u11 w11 u12 where
    sent: "MarkSent ref now s = Inr s1" "MarkConfirmed uid now s1 = Inr s2"
    and settled: "settle_all (stl_id s2) now rs = Inr rs'"
    and 8: "receivables_UpdateAll rs' w7 = (Inr u8, w8)" and 9: "settlements_Update s2 w8 = (Inr u9, w9)"
    and 10: "fresh w9 = (Inr uu'', w10)"
    and 11: "(if length (ForSettlement uu'' s2 now) > 0 then ledger_Append (ForSettlement uu'' s2 now) else ret ()) w10 = (Inr u11, w11)"
    and 12: "outbox_Append (map StlEvent (fst (stl_PullEvents s2))) w11 = (Inr u12, w')" and report: "report_of s2 = rep'"
    using assms unfolding mbind_Inr lift_result_simps ret_simps prod.inject sum.inject by blast
  have s2: "stl_toMerchant s2 = stl_toMerchant s" "stl_toCreditors s2 = stl_toCreditors s"
    "stl_merchantID s2 = stl_merchantID s" "stl_id s2 = stl_id s"
    using sent by (auto simp: MarkSent_def MarkConfirmed_def stl_refuse_def split: if_splits)
  have led: "t_ledger (w_db w11) = t_ledger (w_db w8) @ ForSettlement uu'' s2 now
      \<and> t_receivables (w_db w11) = t_receivables (w_db w8)"
    using 11 ledger_Append_effect [of "ForSettlement uu'' s2 now" w10 u11 w11] same_booksD [OF plain_writes(6) 9] 10
    by (auto split: if_splits)
  have tables: "t_receivables (w_db w') = t_receivables (w_db w8)"
    "t_ledger (w_db w') = t_ledger (w_db w8) @ ForSettlement uu'' s now"
    using led same_booksD [OF plain_outbox 12] ForSettlement_cong [OF s2] by simp_all
  have q: "runs same_effects (if b then ledger_Append es else ret ())" for b es by (intro frame)
  have "w_effects w' = w_effects w7"
    using runsD [OF quiet.run_loops(2) 8] runsD [OF quiet.run_writes(6) 9] 10 runsD [OF q 11] runsD [OF quiet.run_outbox 12]
    by (simp add: same_effects_def)
  then show thesis using that [OF s2(1,2) settled [unfolded s2(4)] 8 tables] report by simp
qed

lemma settleMerchant_cases:
  assumes run: "settleMerchant sv day now mid rs rep w = (Inr rep', w')"
  obtains (refused) m liens uu s e where
      "sv_check_liens sv mid day = Inr liens" "Build uu day m rs liens now = Inr s" "sv_send sv s = Inl e"
      "same_books w w'" "w_effects w' = w_effects w" "rep_Paid rep' = rep_Paid rep"
    | (paid) m liens uu s ref rs' w7 w8 uu'' u where
      "sv_check_liens sv mid day = Inr liens" "Build uu day m rs liens now = Inr s" "sv_send sv s = Inr ref"
      "same_books w w7" "settle_all (stl_id s) now rs = Inr rs'" "receivables_UpdateAll rs' w7 = (Inr u, w8)"
      "t_receivables (w_db w') = t_receivables (w_db w8)"
      "t_ledger (w_db w') = t_ledger (w_db w8) @ ForSettlement uu'' s now"
      "w_effects w' = w_effects w @ [BankFile s]"
      "rep_Paid rep' = rep_Paid rep + (stl_toMerchant s + stl_toCreditors s)"
proof -
  obtain m w1 liens w2 uu w3 s w4 u5 w5 sent w6 uu' w7 where
    1: "wrap [mid] (merchants_FindByID mid) w = (Inr m, w1)"
    and 2: "wrap [mid] (lift_result (sv_check_liens sv mid day)) w1 = (Inr liens, w2)"
    and 3: "fresh w2 = (Inr uu, w3)" and 4: "lift_result (Build uu day m rs liens now) w3 = (Inr s, w4)"
    and 5: "settlements_Create s w4 = (Inr u5, w5)" and 6: "send_to_bank sv s w5 = (Inr sent, w6)"
    and 7: "fresh w6 = (Inr uu', w7)"
    and rest: "(case sent of
           Inl sendErr \<Rightarrow>
             mbind (lift_result (MarkFailed (uu' 0) (sv_error_text sv sendErr) now s)) (\<lambda>s1.
             mbind (settlements_Update s1) (\<lambda>_.
             mbind (outbox_Append (map StlEvent (fst (stl_PullEvents s1)))) (\<lambda>_.
             ret (rep\<lparr>rep_Merchants := rep_Merchants rep + 1, rep_Failed := rep_Failed (rep\<lparr>rep_Merchants := rep_Merchants rep + 1\<rparr>) + 1\<rparr>))))
         | Inr ref \<Rightarrow>
             mbind (lift_result (MarkSent ref now s)) (\<lambda>s1.
             mbind (lift_result (MarkConfirmed (uu' 0) now s1)) (\<lambda>s2.
             mbind (lift_result (settle_all (stl_id s2) now rs)) (\<lambda>rs'.
             mbind (receivables_UpdateAll rs') (\<lambda>_.
             mbind (settlements_Update s2) (\<lambda>_.
             mbind fresh (\<lambda>uu''.
             mbind (if length (ForSettlement uu'' s2 now) > 0 then ledger_Append (ForSettlement uu'' s2 now) else ret ()) (\<lambda>_.
             mbind (outbox_Append (map StlEvent (fst (stl_PullEvents s2)))) (\<lambda>_.
             ret ((rep\<lparr>rep_Merchants := rep_Merchants rep + 1\<rparr>)\<lparr>
                    rep_Settlements := rep_Settlements (rep\<lparr>rep_Merchants := rep_Merchants rep + 1\<rparr>) + 1,
                    rep_Paid := rep_Paid (rep\<lparr>rep_Merchants := rep_Merchants rep + 1\<rparr>)
                      + (stl_toMerchant s2 + stl_toCreditors s2),
                    rep_Retained := rep_Retained (rep\<lparr>rep_Merchants := rep_Merchants rep + 1\<rparr>)
                      + stl_retained s2\<rparr>)))))))))) w7 = (Inr rep', w')"
    using run unfolding settleMerchant_def Let_def mbind_Inr by blast
  have eff5: "w_effects w5 = w_effects w"
    using runsD [OF quiet.run_wrap [OF quiet.run_reads(1)] 1] 2 3 4 runsD [OF quiet.run_writes(5) 5] by (auto simp: same_effects_def)
  note bank = send_to_bank_Inr [OF 6]
  have before: "same_books w w7"
    using same_booksD [OF plain.run_wrap [OF plain.run_reads(1)] 1] same_booksD [OF plain.run_fresh 3]
      same_booksD [OF plain_writes(5) 5] same_booksD [OF plain_send 6] same_booksD [OF plain.run_fresh 7] 2 4
    by (simp add: same_books_def)
  have liens: "sv_check_liens sv mid day = Inr liens" and built: "Build uu day m rs liens now = Inr s"
    using 2 4 by simp_all
  show ?thesis
  proof (cases sent)
    case (Inl e)
    note rest' = refused_rest [OF rest [unfolded Inl sum.case]]
    show ?thesis using rest' refused liens built bank before eff5 7 Inl by (auto simp: same_books_def split: sum.splits)
  next
    case (Inr ref)
    from rest [unfolded Inr sum.case] show ?thesis
    proof (rule paid_rest [where report_of = "\<lambda>s2. (rep\<lparr>rep_Merchants := rep_Merchants rep + 1\<rparr>)\<lparr>
                    rep_Settlements := rep_Settlements (rep\<lparr>rep_Merchants := rep_Merchants rep + 1\<rparr>) + 1,
                    rep_Paid := rep_Paid (rep\<lparr>rep_Merchants := rep_Merchants rep + 1\<rparr>) + (stl_toMerchant s2 + stl_toCreditors s2),
                    rep_Retained := rep_Retained (rep\<lparr>rep_Merchants := rep_Merchants rep + 1\<rparr>) + stl_retained s2\<rparr>"])
      fix s2 rs' w8 uu'' u
      assume fin: "stl_toMerchant s2 = stl_toMerchant s" "stl_toCreditors s2 = stl_toCreditors s"
        "settle_all (stl_id s) now rs = Inr rs'" "receivables_UpdateAll rs' w7 = (Inr u, w8)"
        "t_receivables (w_db w') = t_receivables (w_db w8)" "t_ledger (w_db w') = t_ledger (w_db w8) @ ForSettlement uu'' s now"
        "w_effects w' = w_effects w7"
        "rep' = (rep\<lparr>rep_Merchants := rep_Merchants rep + 1\<rparr>)\<lparr>
                    rep_Settlements := rep_Settlements (rep\<lparr>rep_Merchants := rep_Merchants rep + 1\<rparr>) + 1,
                    rep_Paid := rep_Paid (rep\<lparr>rep_Merchants := rep_Merchants rep + 1\<rparr>) + (stl_toMerchant s2 + stl_toCreditors s2),
                    rep_Retained := rep_Retained (rep\<lparr>rep_Merchants := rep_Merchants rep + 1\<rparr>) + stl_retained s2\<rparr>"
      then show ?thesis using paid [OF liens built _ before fin(3-6)] bank Inr eff5 7 by (auto split: sum.splits)
    qed
  qed
qed

lemma settle_merchant_books:
  assumes run: "settleMerchant sv day now mid rs rep w = (Inr rep', w')" and sv: "services_ok sv"
    and ok: "books_ok (w_db w)" "within_range (w_db w)"
    and rows: "distinct rs" "set rs \<subseteq> set (t_receivables (w_db w))"
  shows "books_ok (w_db w') \<and> within_range (w_db w') \<and> set (t_receivables (w_db w)) - set rs \<subseteq> set (t_receivables (w_db w'))"
  using run
proof (cases rule: settleMerchant_cases)
  case (refused m liens uu s e)
  then have same: "t_receivables (w_db w') = t_receivables (w_db w)" "t_ledger (w_db w') = t_ledger (w_db w)"
    by (simp_all add: same_books_def)
  show ?thesis using books_ok_cong [OF same ok(1)] within_range_cong [OF same(1)] ok(2) unfolding same(1) by blast
next
  case (paid m liens uu s ref rs' w7 w8 uu'' u)
  have nn: "\<forall>r \<in> set rs. 0 \<le> sint (rcv_net r)" using ok(1) rows(2) by (auto simp: books_ok_def row_ok_def)
  have liens: "\<forall>l \<in> set liens. 0 \<le> sint (l_Amount l)" using paid(1) sv by (auto simp: services_ok_def)
  note amounts = Build_paid [OF paid(2) nn nets_bound [OF ok rows] liens]
  have same: "t_receivables (w_db w7) = t_receivables (w_db w)" "t_ledger (w_db w7) = t_ledger (w_db w)"
    using paid(4) by (simp_all add: same_books_def)
  have ok7: "books_ok (w_db w7)" "within_range (w_db w7)" "set rs \<subseteq> set (t_receivables (w_db w7))"
    using books_ok_cong [OF same ok(1)] within_range_cong [OF same(1)] ok(2) rows(2) same by auto
  show ?thesis
    using settle_update [OF ok7(1,2) rows(1) ok7(3) _ _ paid(5,6), where d = "w_db w'" and uu = uu'' and s = s] amounts paid(7,8) same(1)
    by simp
qed

lemma settle_merchants_books:
  "settle_merchants sv day now rs mids rep w = (Inr rep', w') \<Longrightarrow> services_ok sv \<Longrightarrow> books_ok (w_db w) \<Longrightarrow>
     within_range (w_db w) \<Longrightarrow> distinct mids \<Longrightarrow> distinct rs \<Longrightarrow>
     set (filter (\<lambda>r. rcv_merchantID r \<in> set mids) rs) \<subseteq> set (t_receivables (w_db w)) \<Longrightarrow>
     books_ok (w_db w') \<and> within_range (w_db w')"
proof (induction mids arbitrary: w rep)
  case (Cons mid mids)
  define mine where "mine = filter (\<lambda>r. rcv_merchantID r = mid) rs"
  obtain rep1 w1 where 1: "settleMerchant sv day now mid mine rep w = (Inr rep1, w1)" and
    rest: "settle_merchants sv day now rs mids rep1 w1 = (Inr rep', w')"
    using Cons.prems(1) unfolding settle_merchants.simps mbind_Inr mine_def by blast
  have sel: "distinct mine" "set mine \<subseteq> set (t_receivables (w_db w))"
    using Cons.prems(6,7) by (auto simp: mine_def)
  note step = settle_merchant_books [OF 1 Cons.prems(2-4) sel]
  have "set (filter (\<lambda>r. rcv_merchantID r \<in> set mids) rs) \<subseteq> set (t_receivables (w_db w)) - set mine"
    using Cons.prems(5,7) by (auto simp: mine_def)
  then show ?case using Cons.IH [OF rest Cons.prems(2)] step Cons.prems(5,6) by auto
qed simp

lemma ListDue_effect:
  assumes "receivables_ListDueOnForUpdate day limit w = (Inr rs, w')" "books_ok (w_db w)"
  shows "w_db w' = w_db w" "distinct rs" "set rs \<subseteq> set (t_receivables (w_db w))"
    "\<forall>r \<in> set rs. due_on (w_locked w) day r"
proof -
  define sel where "sel = sort_key (\<lambda>r. (rcv_merchantID r, rcv_id r)) (filter (due_on (w_locked w) day) (t_receivables (w_db w)))"
  have sub: "set (take (nat limit) sel) \<subseteq> set (filter (due_on (w_locked w) day) (t_receivables (w_db w)))"
    using set_take_subset [of "nat limit" sel] by (simp add: sel_def)
  have eq: "w_db w' = w_db w" "rs = take (nat limit) sel"
    using list_effect [OF assms(1)[unfolded receivables_ListDueOnForUpdate_def] assms(2)] sub by (auto simp: sel_def)
  have "distinct (t_receivables (w_db w))" using assms(2) by (simp add: books_ok_def distinct_map)
  then have "distinct sel" by (simp add: sel_def)
  then show "distinct rs" "w_db w' = w_db w" "set rs \<subseteq> set (t_receivables (w_db w))"
    "\<forall>r \<in> set rs. due_on (w_locked w) day r" using eq sub by auto
qed

lemma batch_body_books:
  assumes run: "batch_body sv n day now rep w = (Inr x, w')" and sv: "services_ok sv"
    and ok: "books_ok (w_db w)" "within_range (w_db w)"
  shows "books_ok (w_db w') \<and> within_range (w_db w')"
proof -
  obtain rs w1 where 1: "receivables_ListDueOnForUpdate day n w = (Inr rs, w1)" and
    rest: "(if length rs = 0 then ret (0, rep)
     else mbind (settle_merchants sv day now rs (sv_order sv (remdups (map rcv_merchantID rs))) rep)
       (\<lambda>rep'. ret (length rs, rep'))) w1 = (Inr x, w')"
    using run unfolding batch_body_def mbind_Inr by blast
  note listed = ListDue_effect [OF 1 ok(1)]
  show ?thesis
  proof (cases "length rs = 0")
    case False
    define mids where "mids = sv_order sv (remdups (map rcv_merchantID rs))"
    have mids: "distinct mids" "set mids = set (map rcv_merchantID rs)"
      using sv by (auto simp: services_ok_def mids_def)
    obtain rep' where run': "settle_merchants sv day now rs mids rep w1 = (Inr rep', w')"
      using rest False by (auto simp: mids_def)
    show ?thesis
      by (rule settle_merchants_books [OF run' sv]) (use listed ok mids in auto)
  qed (use rest listed(1) ok in simp)
qed

lemma batch_books:
  assumes run: "batch sv n day now rep w = (r, w')" and sv: "services_ok sv"
    and ok: "books_ok (w_db w)" "within_range (w_db w)"
  shows "books_ok (w_db w') \<and> within_range (w_db w')"
proof (cases r)
  case (Inl e)
  then show ?thesis using Do_Inl_db run ok unfolding batch_def by metis
next
  case (Inr x)
  then obtain w2 where "batch_body sv n day now rep (w\<lparr>w_stmts := w_stmts w + 1\<rparr>) = (Inr x, w2)"
    "w' = w2\<lparr>w_stmts := w_stmts w2 + 1\<rparr>"
    using run by (auto simp: batch_def Do_Inr)
  then show ?thesis using batch_body_books [OF _ sv] ok by fastforce
qed

lemma execute_loop_books:
  "execute_loop fuel sv n day clock rep w = Some (r, w') \<Longrightarrow> services_ok sv \<Longrightarrow> books_ok (w_db w) \<Longrightarrow>
     within_range (w_db w) \<Longrightarrow> books_ok (w_db w') \<and> within_range (w_db w')"
proof (induction fuel arbitrary: rep w)
  case (Suc fuel)
  obtain r1 w1 where 1: "batch sv n day (clock (w_stmts w)) rep w = (r1, w1)" by fastforce
  note step = batch_books [OF 1 Suc.prems(2-4)]
  show ?case
  proof (cases r1)
    case (Inl e)
    then show ?thesis using Suc.prems(1) step by (simp add: 1)
  next
    case (Inr p)
    then show ?thesis
      using Suc.prems(1) step Suc.IH [OF _ Suc.prems(2)] by (cases p) (auto simp: 1 split: if_splits)
  qed
qed simp

lemma SettleDue_books:
  assumes "SettleDue_Execute fuel sv cal acquire n clock date w = Some (r, w')" "services_ok sv"
    "books_ok (w_db w)" "within_range (w_db w)"
  shows "books_ok (w_db w')"
proof (cases "IsBusinessDay cal (DateOnly date) \<and> acquire (lock_key (DateOnly date)) = Inr True")
  case True
  then obtain r1 w1 rep where "execute_loop fuel sv n (DateOnly date) clock rep
      (w\<lparr>w_effects := w_effects w @ [LockTaken (lock_key (DateOnly date))]\<rparr>) = Some (r1, w1)" "w_db w' = w_db w1"
    using assms(1) by (fastforce simp: SettleDue_Execute_def Let_def split: option.splits)
  then show ?thesis using execute_loop_books [OF _ assms(2)] assms(3,4) by fastforce
qed (use assms(1,3) in \<open>auto simp: SettleDue_Execute_def Let_def split: if_splits sum.splits\<close>)

section \<open>Every run\<close>

lemma scheduler_keeps: "keeps_books (Scheduler_Handle register BrazilCalendar now ty payload)"
proof -
  have "keeps_books (onCaptured register BrazilCalendar now ev)" for ev
    unfolding onCaptured_def
    by (rule keeps_books_mbind) (intro Do_keeps_books captured_keeps, rule plain_keeps, intro frame)
  moreover have "keeps_books (onCanceled now ev)" for ev
    unfolding onCanceled_def by (intro Do_keeps_books canceled_keeps)
  moreover have "keeps_books (fail e)" "keeps_books (ret y)" for e :: go_error and y :: 'a
    by (rule plain_keeps, intro frame)+
  ultimately show ?thesis unfolding Scheduler_Handle_def keeps_books_def by (auto split: option.splits if_splits)
qed

lemma simulate_keeps: "keeps_books (Anticipate_Simulate pv now mid ids)"
  unfolding Anticipate_Simulate_def by (rule plain_keeps, intro frame)

lemma request_all_keeps: "keeps_books (Anticipate_Request check_liens transfer pv now mid ids)"
  unfolding Anticipate_Request_def
  by (intro keeps_books_mbind Do_keeps_books request_keeps) (rule plain_keeps, intro frame)+

lemma notifier_keeps: "keeps_books (Notifier_Handle hmac send secret ty payload decoded)"
  by (rule plain_keeps) (intro frame)

text \<open>
  One use case, run to its end, in any state and whatever fails in it. The requests, the
  clock, the answers of the other services and the events delivered are arbitrary.
  \<open>acq_environment\<close> is another process taking row locks, or the database starting to fail.
\<close>

inductive acq_step :: "world \<Rightarrow> world \<Rightarrow> bool" where
  acq_onboard: "Onboard_Execute url_Parse now oc w = (rm, w') \<Longrightarrow> acq_step w w'"
| acq_approve: "Review_Approve now i w = (rm, w') \<Longrightarrow> acq_step w w'"
| acq_block: "Review_Block now i w = (rm, w') \<Longrightarrow> acq_step w w'"
| acq_settings: "Review_UpdateSettings url_Parse now us w = (rm, w') \<Longrightarrow> acq_step w w'"
| acq_authorize: "Authorize_Execute vault issuer rules now now' ac w = (rt, w') \<Longrightarrow> acq_step w w'"
| acq_capture: "Lifecycle_Capture now mid i w = (rt, w') \<Longrightarrow> acq_step w w'"
| acq_cancel: "Lifecycle_Cancel now mid i w = (rt, w') \<Longrightarrow> acq_step w w'"
| acq_schedule: "Scheduler_Handle register BrazilCalendar now ty payload w = (ru, w') \<Longrightarrow> acq_step w w'"
| acq_simulate: "Anticipate_Simulate pv now mid ids w = (ra, w') \<Longrightarrow> acq_step w w'"
| acq_request: "Anticipate_Request check_liens transfer pv now mid ids w = (ra, w') \<Longrightarrow> acq_step w w'"
| acq_open: "Open_Execute now opc w = (rc, w') \<Longrightarrow> acq_step w w'"
| acq_settle: "SettleDue_Execute fuel sv BrazilCalendar acquire n clock date w = Some (rr, w') \<Longrightarrow>
     services_ok sv \<Longrightarrow> within_range (w_db w) \<Longrightarrow> acq_step w w'"
| acq_notify: "Notifier_Handle hmac send secret ty' body decoded w = (ru, w') \<Longrightarrow> acq_step w w'"
| acq_environment: "w' = w\<lparr>w_faults := faults, w_locked := locked\<rparr> \<Longrightarrow> acq_step w w'"

inductive acq_reach :: "world \<Rightarrow> world \<Rightarrow> bool" where
  acq_refl: "acq_reach w w"
| acq_next: "acq_reach w w' \<Longrightarrow> acq_step w' w'' \<Longrightarrow> acq_reach w w''"

lemma acq_step_books: "acq_step w w' \<Longrightarrow> books_ok (w_db w) \<Longrightarrow> books_ok (w_db w')"
proof (induction rule: acq_step.induct)
  case (acq_open now opc w rc w')
  then show ?case using keeps_booksD [OF Do_keeps_books [OF open_keeps]] by (simp add: Open_Execute_def)
next
  case (acq_settle fuel sv acquire n clock date w rr w')
  then show ?case using SettleDue_books by blast
qed (auto dest: onboarding_keeps [THEN keeps_booksD] authorize_keeps [THEN keeps_booksD]
    lifecycle_keeps [THEN keeps_booksD] scheduler_keeps [THEN keeps_booksD] simulate_keeps [THEN keeps_booksD]
    request_all_keeps [THEN keeps_booksD] notifier_keeps [THEN keeps_booksD]
    simp: Review_Approve_def Review_Block_def Review_UpdateSettings_def Lifecycle_Capture_def Lifecycle_Cancel_def)

lemma acq_reach_books: "acq_reach w w' \<Longrightarrow> books_ok (w_db w) \<Longrightarrow> books_ok (w_db w')"
  by (induction rule: acq_reach.induct) (auto dest: acq_step_books)

lemma books_ok_empty: "t_receivables d = [] \<Longrightarrow> t_ledger d = [] \<Longrightarrow> books_ok d"
  by (simp add: books_ok_def Balanced_sums)

lemma books_ok_payable:
  assumes "books_ok d"
  shows "ledger_balance PayableToMerchant mid (t_ledger d)
     = sum_list (nets_of RScheduled (filter (\<lambda>r. mid = [] \<or> rcv_merchantID r = mid) (t_receivables d)))"
proof -
  have "(\<Sum>r\<leftarrow>rs. book_weight PayableToMerchant mid r)
      = sum_list (nets_of RScheduled (filter (\<lambda>r. mid = [] \<or> rcv_merchantID r = mid) rs))" for rs
    by (induction rs) (auto simp: book_weight_def)
  then show ?thesis using assms by (simp add: books_ok_def booked_def)
qed

text \<open>C1: the books agree with the receivables in every state the program can reach from a
  database without receivables, whatever is requested, whichever service refuses and
  wherever the database fails: the ledger as a whole is balanced; what the ledger owes to
  each merchant, and to all together, is the sum of the nets of the scheduled receivables;
  and what it claims from the issuers and shows as fee revenue are the gross amounts and
  fees of the receivables that were neither canceled nor charged back. A settlement is
  run only while the nets of all receivables together stay below 2^63 centavos, and no
  lien is negative.\<close>

theorem books_agree:
  assumes "acq_reach w0 w" "t_receivables (w_db w0) = []" "t_ledger (w_db w0) = []"
  shows "Balanced (t_ledger (w_db w))
    \<and> ledger_balance PayableToMerchant mid (t_ledger (w_db w))
        = Sum (map rcv_net (filter (\<lambda>r. (mid = [] \<or> rcv_merchantID r = mid) \<and> rcv_status r = RScheduled)
             (t_receivables (w_db w))))
    \<and> ledger_balance ReceivableFromIssuer [] (t_ledger (w_db w))
        = - Sum (map rcv_gross (filter (\<lambda>r. rcv_status r \<in> {RScheduled, RAnticipated, RSettled}) (t_receivables (w_db w))))
    \<and> ledger_balance RevenueFees [] (t_ledger (w_db w))
        = Sum (map rcv_fee (filter (\<lambda>r. rcv_status r \<in> {RScheduled, RAnticipated, RSettled}) (t_receivables (w_db w))))"
proof -
  have ok: "books_ok (w_db w)" using acq_reach_books [OF assms(1)] books_ok_empty assms(2,3) by blast
  have weights: "(\<Sum>r\<leftarrow>rs. book_weight ReceivableFromIssuer [] r)
      = - sum_list (map rcv_gross (filter (\<lambda>r. rcv_status r \<in> {RScheduled, RAnticipated, RSettled}) rs))"
    "(\<Sum>r\<leftarrow>rs. book_weight RevenueFees [] r)
      = sum_list (map rcv_fee (filter (\<lambda>r. rcv_status r \<in> {RScheduled, RAnticipated, RSettled}) rs))" for rs
    by (induction rs) (auto simp: book_weight_def live_def)
  have "Balanced (t_ledger (w_db w))" using ok by (simp add: books_ok_def)
  moreover have "ledger_balance acc mid (t_ledger (w_db w)) = (\<Sum>r\<leftarrow>t_receivables (w_db w). book_weight acc mid r)"
    if "booked acc" for acc mid using ok that unfolding books_ok_def by blast
  ultimately show ?thesis
    using books_ok_payable [OF ok, of mid] weights
    by (simp add: Sum_eq_sum_list booked_def nets_of_def conj_commute)
qed

theorem books_agree_witness:
  "\<exists>w. acq_reach idle_world w \<and> ledger_balance PayableToMerchant ''m_1'' (t_ledger (w_db w)) = 96500"
proof -
  obtain w where run: "Scheduler_Handle (\<lambda>_. False) BrazilCalendar 8 ''transaction.captured'' (Some captured_event)
      idle_world = (Inr (), w)" "t_receivables (w_db w) = sample_schedule"
    using scheduled_run by blast
  have reach: "acq_reach idle_world w" by (rule acq_next [OF acq_refl acq_schedule [OF run(1)]])
  have "t_receivables (w_db idle_world) = []" "t_ledger (w_db idle_world) = []"
    by (simp_all add: idle_world_def start_world_def sample_world_def sample_tables_def)
  note books = books_agree [OF reach this, of "''m_1''"]
  have "filter (\<lambda>r. (''m_1'' = [] \<or> rcv_merchantID r = ''m_1'') \<and> rcv_status r = RScheduled) sample_schedule = sample_schedule"
    using sample_schedule_facts by (intro filter_True) auto
  then show ?thesis using books reach sample_nets by (auto simp: run(2) Sum_eq_sum_list)
qed

end
