(* ===== verification/Outcomes.thy ===== *)
theory Outcomes
  imports Accounting
begin

text \<open>
  What each use case returns, writes and sends: authorization, capture and cancellation,
  the exactly-once handling of events, the separation of merchants, and what never repeats.
\<close>

section \<open>Counters\<close>

definition counted :: "world \<Rightarrow> world \<Rightarrow> bool" where
  "counted w w' \<longleftrightarrow> w_nsu w \<le> w_nsu w' \<and> w_outbox_seq w \<le> w_outbox_seq w' \<and> (\<exists>es. w_effects w' = w_effects w @ es)"

lemma later_counted: "world_later w w' \<Longrightarrow> counted w w'"
  by (auto simp: world_later_def counted_def)

lemma counted_trans: "counted w w' \<Longrightarrow> counted w' w'' \<Longrightarrow> counted w w''"
  by (auto simp: counted_def)

lemma counted_run: "runs world_later m \<Longrightarrow> m w = (r, w') \<Longrightarrow> counted w w'"
  by (rule later_counted, rule runsD)

lemma later_settle_merchants: "runs world_later (settle_merchants sv day now rs mids rep)"
proof (induction mids arbitrary: rep)
  case (Cons mid mids)
  show ?case
    unfolding settle_merchants.simps settleMerchant_def send_to_bank_def by (intro frame Cons)
qed (unfold settle_merchants.simps, intro frame)

lemma later_batch: "runs world_later (batch sv n day now rep)"
  unfolding batch_def batch_body_def by (intro frame later_settle_merchants)

lemma execute_loop_later:
  "execute_loop fuel sv n day clock rep w = Some (r, w') \<Longrightarrow> world_later w w'"
proof (induction fuel arbitrary: rep w)
  case (Suc fuel)
  obtain r1 w1 where 1: "batch sv n day (clock (w_stmts w)) rep w = (r1, w1)" by fastforce
  have "world_later w w1" using runsD [OF later_batch 1] .
  then show ?case
    using Suc later.R_trans by (cases r1) (auto simp: 1 split: if_splits prod.splits)
qed simp

lemma SettleDue_counted:
  assumes "SettleDue_Execute fuel sv cal acquire n clock date w = Some (r, w')"
  shows "counted w w'"
proof (cases "IsBusinessDay cal (DateOnly date) \<and> acquire (lock_key (DateOnly date)) = Inr True")
  case True
  then obtain r1 w1 rep where "execute_loop fuel sv n (DateOnly date) clock rep
      (w\<lparr>w_effects := w_effects w @ [LockTaken (lock_key (DateOnly date))]\<rparr>) = Some (r1, w1)"
      "w' = w1\<lparr>w_effects := w_effects w1 @ [LockReleased (lock_key (DateOnly date))]\<rparr>"
    using assms by (fastforce simp: SettleDue_Execute_def Let_def split: option.splits)
  then show ?thesis using execute_loop_later by (fastforce simp: world_later_def counted_def)
qed (use assms in \<open>auto simp: SettleDue_Execute_def Let_def counted_def split: if_splits sum.splits\<close>)

lemma later_use_cases:
  "runs world_later (Onboard_Execute parse now oc)" "runs world_later (Review_change change i)"
  "runs world_later (Authorize_Execute vault issuer rules now now' ac)"
  "runs world_later (Lifecycle_change change' mid i)"
  "runs world_later (Scheduler_Handle register cal now ty payload)"
  "runs world_later (Anticipate_Simulate pv now mid ids)"
  "runs world_later (Anticipate_Request check_liens transfer pv now mid ids)"
  "runs world_later (Open_Execute now opc)"
  "runs world_later (Notifier_Handle hmac send secret ty body decoded)"
  unfolding Onboard_Execute_def Review_change_def Authorize_Execute_def issuer_outcome_def store_body_def
    Lifecycle_change_def change_body_def Scheduler_Handle_def onCaptured_def captured_body_def
    onCanceled_def canceled_body_def Anticipate_Simulate_def Anticipate_Request_def request_body_def
    Open_Execute_def open_body_def
  by (intro frame)+

lemma acq_step_counted: "acq_step w w' \<Longrightarrow> counted w w'"
  by (induction rule: acq_step.induct)
    (auto dest: later_use_cases [THEN counted_run] SettleDue_counted
      simp: Review_Approve_def Review_Block_def Review_UpdateSettings_def Lifecycle_Capture_def Lifecycle_Cancel_def counted_def)

lemma acq_reach_counted: "acq_reach w w' \<Longrightarrow> counted w w'"
  by (induction rule: acq_reach.induct) (auto simp: counted_def dest!: acq_step_counted)

text \<open>The sequence never gives an NSU twice, also across transactions that roll back: of two
  successful draws with any run of the program in between, the later one differs and is
  greater; an NSU below \<open>10^12\<close> has exactly twelve digits.\<close>

theorem nsu_never_repeats:
  assumes "nsu_Next w = (Inr a, w1)" "acq_reach w1 w2" "nsu_Next w2 = (Inr b, w3)"
  shows "a \<noteq> b \<and> undec a = w_nsu w \<and> undec a < undec b \<and> (w_nsu w < 10 ^ 12 \<longrightarrow> length a = 12)"
proof -
  have a: "a = dec_pad 12 (w_nsu w)" "w_nsu w1 = w_nsu w + 1" and b: "b = dec_pad 12 (w_nsu w2)"
    using assms(1,3) by (auto simp: nsu_Next_def)
  have "w_nsu w1 \<le> w_nsu w2" using acq_reach_counted [OF assms(2)] by (simp add: counted_def)
  then have "undec a < undec b" by (simp add: a b)
  then show ?thesis using length_dec_pad [of 12 "w_nsu w"] by (auto simp: a)
qed

theorem nsu_never_repeats_witness:
  "\<exists>a b w1 w2 w3. nsu_Next idle_world = (Inr a, w1) \<and> acq_reach w1 w2 \<and> nsu_Next w2 = (Inr b, w3)
     \<and> a = ''000000000001'' \<and> a \<noteq> b"
proof -
  define w1 where "w1 = idle_world\<lparr>w_stmts := 1, w_nsu := 2\<rparr>"
  define w2 where "w2 = w1\<lparr>w_faults := \<lambda>_. None, w_locked := [''rcv_1'']\<rparr>"
  define w3 where "w3 = w2\<lparr>w_stmts := 2, w_nsu := 3\<rparr>"
  have one: "nsu_Next idle_world = (Inr (dec_pad 12 1), w1)" and two: "nsu_Next w2 = (Inr (dec_pad 12 2), w3)"
    by (simp_all add: nsu_Next_def w1_def w2_def w3_def idle_world_def start_world_def sample_world_def)
  have "acq_step w1 w2" unfolding w2_def by (rule acq_environment) simp
  then have reach: "acq_reach w1 w2" using acq_next [OF acq_refl] by blast
  have "dec_pad 12 1 \<noteq> dec_pad 12 2" using nsu_never_repeats [OF one reach two] by blast
  moreover have "dec_pad 12 1 = ''000000000001''" by code_simp
  ultimately show ?thesis using one two reach by metis
qed

section \<open>Authorization\<close>

lemma merchants_FindByID_found:
  "merchants_FindByID i w = (Inr m, w') \<Longrightarrow> m_id m = i \<and> w' = w\<lparr>w_stmts := w_stmts w + 1\<rparr>"
  by (auto simp: merchants_FindByID_def find_Some_iff merchant_toDomain_def merchant_Restore_def split: option.splits sum.splits)

text \<open>What is left of a new transaction after the issuer's answer.\<close>

definition decided :: "authorization_response \<Rightarrow> transaction \<Rightarrow> bool" where
  "decided resp t \<longleftrightarrow> (if as_Approved resp
     then tx_status t = Authorized \<and> tx_authorizationCode t = as_AuthorizationCode resp \<and> tx_responseCode t = ''00''
     else tx_status t = Denied \<and> tx_responseCode t = as_ResponseCode resp)"

lemma store_effect:
  assumes "store_body now resp tx w = (Inr t, w')" "tx_status tx = Pending" "tx_events tx = []"
  shows "decided resp t \<and> tx_id t = tx_id tx \<and> tx_merchantID t = tx_merchantID tx \<and> tx_amount t = tx_amount tx
    \<and> tx_id t \<notin> tx_id ` set (t_transactions (w_db w))
    \<and> (\<exists>row ev. w_db w' = (w_db w)\<lparr>t_transactions := t_transactions (w_db w) @ [t], t_outbox := t_outbox (w_db w) @ [row]\<rparr>
          \<and> ob_event row = TxEvent ev \<and> \<not> ob_published row \<and> tx_event_status ev = tx_status t
          \<and> ev_Aggregate (te_base ev) = tx_id t \<and> te_merchant ev = tx_merchantID t \<and> te_amount ev = tx_amount t)"
proof -
  obtain uu w1 tx1 w2 u3 w3 u4 where 1: "fresh w = (Inr uu, w1)" and
    2: "(if as_Approved resp
            then mbind nsu_Next (\<lambda>nsu. lift_result (tx_Authorize (uu 0) (as_AuthorizationCode resp) nsu now tx))
            else lift_result (tx_Deny (uu 0) (as_ResponseCode resp) now tx)) w1 = (Inr tx1, w2)" and
    3: "transactions_Create tx1 w2 = (Inr u3, w3)" and
    4: "outbox_Append (map TxEvent (fst (tx_PullEvents tx1))) w3 = (Inr u4, w')" and
    t: "snd (tx_PullEvents tx1) = t"
    using assms(1) unfolding store_body_def mbind_Inr ret_simps prod.inject sum.inject by blast
  have tx1: "decided resp tx1 \<and> tx_id tx1 = tx_id tx \<and> tx_merchantID tx1 = tx_merchantID tx \<and> tx_amount tx1 = tx_amount tx
      \<and> w_db w2 = w_db w1 \<and> (\<exists>ev. tx_events tx1 = [ev] \<and> tx_event_status ev = tx_status tx1
          \<and> ev_Aggregate (te_base ev) = tx_id tx \<and> te_merchant ev = tx_merchantID tx \<and> te_amount ev = tx_amount tx)"
    using 2 assms(2,3) nsu_effect [of w1]
    by (cases "as_Approved resp") (auto simp: decided_def tx_Authorize_def tx_Deny_def tx_edges tx_event_status_def
        NewBaseEvent_def split: sum.splits)
  then obtain ev where ev: "tx_events tx1 = [ev]" "tx_event_status ev = tx_status tx1"
    "ev_Aggregate (te_base ev) = tx_id tx" "te_merchant ev = tx_merchantID tx" "te_amount ev = tx_amount tx" by blast
  note created = transactions_Create_effect [OF 3]
  obtain row where row: "w_db w' = (w_db w3)\<lparr>t_outbox := t_outbox (w_db w3) @ [row]\<rparr>" "ob_event row = TxEvent ev" "\<not> ob_published row"
    using outbox_effect [OF 4] by (auto simp: tx_PullEvents_def ev(1) map_eq_Cons_conv)
  have "w_db w1 = w_db w" using 1 by auto
  then have "w_db w' = (w_db w)\<lparr>t_transactions := t_transactions (w_db w) @ [t], t_outbox := t_outbox (w_db w) @ [row]\<rparr>"
    using row(1) created tx1 t by (simp add: row_of_tx_def tx_PullEvents_def)
  then show ?thesis using tx1 ev row created t \<open>w_db w1 = w_db w\<close> by (auto simp: tx_PullEvents_def decided_def)
qed

section \<open>An error changes nothing\<close>

definition same_db :: "world \<Rightarrow> world \<Rightarrow> bool" where
  "same_db w w' \<longleftrightarrow> w_db w' = w_db w"

interpretation still: rollback_frame same_db
  by unfold_locales (auto simp: same_db_def)

lemma still_effect [frame]: "runs same_db (effect_log e)"
  by (simp add: runs_def effect_log_def same_db_def)

definition clean :: "'a dbm \<Rightarrow> bool" where
  "clean m \<longleftrightarrow> (\<forall>w e w'. m w = (Inl e, w') \<longrightarrow> w_db w' = w_db w)"

lemma clean_still: "runs same_db m \<Longrightarrow> clean m"
  unfolding clean_def using runsD by (fastforce simp: same_db_def)

lemma clean_Do: "clean (Do f)"
  unfolding clean_def using Do_Inl_db by blast

lemma clean_wrap: "clean m \<Longrightarrow> clean (wrap a m)"
  unfolding clean_def
proof (intro allI impI)
  fix w e w' assume m: "\<forall>w e w'. m w = (Inl e, w') \<longrightarrow> w_db w' = w_db w" and run: "wrap a m w = (Inl e, w')"
  obtain r1 w1 where 1: "m w = (r1, w1)" by fastforce
  then show "w_db w' = w_db w" using run m by (cases r1) (simp_all add: wrap_def 1)
qed

lemma clean_mbind: "runs same_db m \<Longrightarrow> (\<And>x. clean (f x)) \<Longrightarrow> clean (mbind m f)"
  unfolding clean_def mbind_Inl
proof (intro allI impI, elim disjE exE conjE)
  fix w e w' x w1
  assume m: "runs same_db m" and f: "\<And>x. \<forall>w e w'. f x w = (Inl e, w') \<longrightarrow> w_db w' = w_db w"
  { assume "m w = (Inl e, w')"
    then show "w_db w' = w_db w" using runsD [OF m] by (simp add: same_db_def) }
  assume "m w = (Inr x, w1)" "f x w1 = (Inl e, w')"
  then show "w_db w' = w_db w" using runsD [OF m, of w "Inr x" w1] f by (simp add: same_db_def)
qed

text \<open>Writes that are the last thing a use case does that can fail.\<close>

lemma clean_then: "clean m \<Longrightarrow> (\<And>x w. \<exists>y w'. f x w = (Inr y, w')) \<Longrightarrow> clean (mbind m f)"
  unfolding clean_def mbind_Inl
proof (intro allI impI, elim disjE exE conjE)
  fix w e w' x w1
  assume m: "\<forall>w e w'. m w = (Inl e, w') \<longrightarrow> w_db w' = w_db w" and f: "\<And>x w. \<exists>y w'. f x w = (Inr y, w')"
  { assume "m w = (Inl e, w')"
    then show "w_db w' = w_db w" using m by blast }
  assume "f x w1 = (Inl e, w')"
  then show "w_db w' = w_db w" using f [of x w1] by simp
qed

lemma clean_merchants: "clean (merchants_Create m)" "clean (merchants_Update m)"
proof -
  show "clean (merchants_Create m)"
    unfolding merchants_Create_def
    by (rule clean_wrap) (simp add: clean_def exec_def stmt_def insert_row_def split: option.split)
  have same: "map (\<lambda>r. if key r = key x \<and> ver r < ver x then cols x r else r) rows = rows"
    if "filter (\<lambda>r. key r = key x \<and> ver r < ver x) rows = []"
    for key :: "merchant \<Rightarrow> string" and ver :: "merchant \<Rightarrow> int" and cols x rows
    using that by (intro map_idI) (auto simp: filter_empty_conv)
  show "clean (merchants_Update m)"
    unfolding clean_def
  proof (intro allI impI)
    fix w e w' assume run: "merchants_Update m w = (Inl e, w')"
    show "w_db w' = w_db w"
      using run same [of m_id m m_version "t_merchants (w_db w)" merchant_columns]
      by (cases "w_faults w (w_stmts w)"; cases "filter (\<lambda>r. m_id r = m_id m \<and> m_version r < m_version m) (t_merchants (w_db w)) = []")
        (auto simp: merchants_Update_def mbind_def wrap_def exec_def stmt_def update_version_def check_affected_def)
  qed
qed

lemma clean_use_cases:
  "clean (Onboard_Execute parse now oc) \<and> clean (Review_change change i)
   \<and> clean (Authorize_Execute vault issuer rules now now' ac) \<and> clean (Lifecycle_change change' mid i)
   \<and> clean (Scheduler_Handle register cal now ty payload) \<and> clean (Anticipate_Simulate pv now mid ids)
   \<and> clean (Anticipate_Request check_liens transfer pv now mid ids) \<and> clean (Open_Execute now opc)
   \<and> clean (batch sv n day now rep)"
proof (intro conjI)
  have tail: "\<exists>y w'. (if b then mbind (effect_log ef) (\<lambda>_. ret x) else ret x) w = (Inr y, w')"
    "\<exists>y w'. (if c then ret () else if b then effect_log ef else ret ()) w = (Inr y, w')" "\<exists>y w'. ret x w = (Inr y, w')"
    for b c ef w and x :: 'x by (simp_all add: effect_log_def mbind_def)
  show "clean (Onboard_Execute parse now oc)"
    unfolding Onboard_Execute_def by (intro clean_mbind clean_then clean_wrap clean_merchants frame tail)
  show "clean (Review_change change i)"
    unfolding Review_change_def by (intro clean_mbind clean_then clean_wrap clean_merchants frame tail)
  show "clean (Authorize_Execute vault issuer rules now now' ac)"
    unfolding Authorize_Execute_def issuer_outcome_def by (intro clean_mbind clean_Do frame)
  show "clean (Lifecycle_change change' mid i)" unfolding Lifecycle_change_def by (rule clean_Do)
  have "clean (onCaptured register cal now ev)" "clean (onCanceled now ev)" for ev
    unfolding onCaptured_def onCanceled_def by (intro clean_then clean_Do tail)+
  then show "clean (Scheduler_Handle register cal now ty payload)"
    unfolding Scheduler_Handle_def by (auto simp: clean_def split: option.splits)
  show "clean (Anticipate_Simulate pv now mid ids)"
    unfolding Anticipate_Simulate_def by (intro clean_still frame)
  show "clean (Anticipate_Request check_liens transfer pv now mid ids)"
    unfolding Anticipate_Request_def by (intro clean_mbind clean_then clean_Do frame tail)
  show "clean (Open_Execute now opc)" unfolding Open_Execute_def by (rule clean_Do)
  show "clean (batch sv n day now rep)" unfolding batch_def by (rule clean_Do)
qed


section \<open>The outcome of an authorization\<close>

lemma issuer_outcome_Inr:
  "issuer_outcome i answer w = (Inr resp, w') \<Longrightarrow> w_db w' = w_db w \<and> (case answer of
       Inr resp' \<Rightarrow> resp' = resp \<and> w' = w
     | Inl err \<Rightarrow> errors_Is err DeadlineExceeded
         \<and> resp = \<lparr>as_Approved = False, as_AuthorizationCode = '''', as_ResponseCode = ''91''\<rparr>
         \<and> w_effects w' = w_effects w @ [IssuerReverse i])"
  by (auto simp: issuer_outcome_def effect_log_def split: sum.splits if_splits)

lemma Do_db:
  assumes "Do f w = (Inr x, w')"
  obtains w1 w2 where "f w1 = (Inr x, w2)" "w_db w1 = w_db w" "w_db w' = w_db w2"
    "w_effects w1 = w_effects w" "w_effects w' = w_effects w2"
proof -
  obtain w2 where "f (w\<lparr>w_stmts := w_stmts w + 1\<rparr>) = (Inr x, w2)" "w' = w2\<lparr>w_stmts := w_stmts w2 + 1\<rparr>"
    using assms unfolding Do_Inr by blast
  then show ?thesis using that [of "w\<lparr>w_stmts := w_stmts w + 1\<rparr>" w2] by simp
qed

lemma run_rules_all: "run_rules rules m tx = Inr () \<longleftrightarrow> (\<forall>r \<in> set rules. r m tx = None)"
  by (induction rules) (auto split: option.split)

lemma authorized_sale:
  assumes "Authorize_Execute vault issuer rules now now' cmd w = (Inr t, w')"
  shows "tx_merchantID t = auc_MerchantID cmd \<and> tx_amount t = auc_Amount cmd
    \<and> tx_id t \<notin> tx_id ` set (t_transactions (w_db w))
    \<and> (MaxAmountRule limit \<in> set rules \<longrightarrow> sint (tx_amount t) \<le> sint limit)
    \<and> (\<exists>row ev. w_db w' = (w_db w)\<lparr>t_transactions := t_transactions (w_db w) @ [t], t_outbox := t_outbox (w_db w) @ [row]\<rparr>
          \<and> ob_event row = TxEvent ev \<and> \<not> ob_published row \<and> tx_event_status ev = tx_status t
          \<and> ev_Aggregate (te_base ev) = tx_id t \<and> te_merchant ev = tx_merchantID t \<and> te_amount ev = tx_amount t)
    \<and> (\<exists>req. ar_TransactionID req = tx_id t \<and> ar_Amount req = tx_amount t \<and> (case issuer req of
          Inr resp \<Rightarrow> decided resp t \<and> w_effects w' = w_effects w
        | Inl err \<Rightarrow> errors_Is err DeadlineExceeded \<and> tx_status t = Denied \<and> tx_responseCode t = ''91''
            \<and> w_effects w' = w_effects w @ [IssuerReverse (tx_id t)]))"
proof -
  obtain m w1 product w2 cd w3 info w4 uu w5 tx w6 u w7 resp w8 where
    1: "merchants_FindByID (auc_MerchantID cmd) w = (Inr m, w1)" and
    2: "lift_result (ParseProduct (auc_Product cmd)) w1 = (Inr product, w2)" and
    3: "wrap [''vault''] (lift_result (vault (auc_CardToken cmd))) w2 = (Inr cd, w3)" and
    4: "lift_result (CardInfoFromPAN (auc_CardToken cmd) (cd_PAN cd)) w3 = (Inr info, w4)" and
    5: "fresh w4 = (Inr uu, w5)" and
    6: "lift_result (tx_New (uu 0) m (auc_Amount cmd) product (auc_Installments cmd) info now) w5 = (Inr tx, w6)" and
    7: "lift_result (run_rules rules m tx) w6 = (Inr u, w7)" and
    8: "issuer_outcome (tx_id tx) (issuer \<lparr>ar_TransactionID = tx_id tx, ar_PAN = cd_PAN cd,
              ar_Expiry = cd_Expiry cd, ar_Amount = tx_amount tx, ar_Product = tx_product tx,
              ar_Installments = tx_installments tx, ar_MerchantMCC = m_mcc m\<rparr>) w7 = (Inr resp, w8)" and
    9: "Do (store_body now' resp tx) w8 = (Inr t, w')"
    using assms unfolding Authorize_Execute_def mbind_Inr by blast
  have tx: "tx_status tx = Pending" "tx_events tx = []" "tx_merchantID tx = auc_MerchantID cmd" "tx_amount tx = auc_Amount cmd"
    using 6 merchants_FindByID_found [OF 1] by (auto simp: tx_New_def split: if_splits sum.splits)
  have w7: "w_db w7 = w_db w" "w_effects w7 = w_effects w"
    using merchants_FindByID_found [OF 1] 2 3 4 5 6 7 by auto
  have lim: "sint (tx_amount tx) \<le> sint limit" if "MaxAmountRule limit \<in> set rules"
    using 7 that by (auto simp: run_rules_all MaxAmountRule_def sless64 split: if_splits dest!: bspec)
  obtain v1 v2 where body: "store_body now' resp tx v1 = (Inr t, v2)" and v: "w_db v1 = w_db w8" "w_db w' = w_db v2"
    "w_effects v1 = w_effects w8" "w_effects w' = w_effects v2"
    using Do_db [OF 9] by metis
  have q: "runs same_effects (store_body now' resp tx)" unfolding store_body_def by (intro frame)
  have eff: "w_effects w' = w_effects w8" using runsD [OF q body] v by (simp add: same_effects_def)
  note st = store_effect [OF body tx(1,2)]
  note out = issuer_outcome_Inr [OF 8]
  have "case issuer \<lparr>ar_TransactionID = tx_id tx, ar_PAN = cd_PAN cd, ar_Expiry = cd_Expiry cd,
      ar_Amount = tx_amount tx, ar_Product = tx_product tx, ar_Installments = tx_installments tx,
      ar_MerchantMCC = m_mcc m\<rparr> of
          Inr resp \<Rightarrow> decided resp t \<and> w_effects w' = w_effects w
        | Inl err \<Rightarrow> errors_Is err DeadlineExceeded \<and> tx_status t = Denied \<and> tx_responseCode t = ''91''
            \<and> w_effects w' = w_effects w @ [IssuerReverse (tx_id t)]"
    using out st eff w7 by (auto simp: decided_def split: sum.splits)
  then have "\<exists>req. ar_TransactionID req = tx_id t \<and> ar_Amount req = tx_amount t \<and> (case issuer req of
          Inr resp \<Rightarrow> decided resp t \<and> w_effects w' = w_effects w
        | Inl err \<Rightarrow> errors_Is err DeadlineExceeded \<and> tx_status t = Denied \<and> tx_responseCode t = ''91''
            \<and> w_effects w' = w_effects w @ [IssuerReverse (tx_id t)])"
    using st by (intro exI [of _ "\<lparr>ar_TransactionID = tx_id tx, ar_PAN = cd_PAN cd, ar_Expiry = cd_Expiry cd,
      ar_Amount = tx_amount tx, ar_Product = tx_product tx, ar_Installments = tx_installments tx,
      ar_MerchantMCC = m_mcc m\<rparr>"]) simp
  then show ?thesis using st tx lim out v(1,2) w7(1) by metis
qed

text \<open>C10: an authorization that succeeds stores one new transaction with one event, and nothing
  else: it belongs to the merchant, has the amount asked for, within every amount limit among the
  rules, and is what the issuer answered for it, authorized with its code or denied with its
  response code; a timeout is a denial with code 91 and is reversed at the issuer. In no
  other case anything is sent out.\<close>

theorem authorize_outcomes:
  assumes "Authorize_Execute vault issuer rules now now' cmd w = (Inr t, w')"
  shows "tx_merchantID t = auc_MerchantID cmd \<and> tx_amount t = auc_Amount cmd
    \<and> tx_id t \<notin> tx_id ` set (t_transactions (w_db w))
    \<and> (MaxAmountRule limit \<in> set rules \<longrightarrow> sint (tx_amount t) \<le> sint limit)
    \<and> (\<exists>row ev. w_db w' = (w_db w)\<lparr>t_transactions := t_transactions (w_db w) @ [t], t_outbox := t_outbox (w_db w) @ [row]\<rparr>
          \<and> ob_event row = TxEvent ev \<and> \<not> ob_published row \<and> tx_event_status ev = tx_status t
          \<and> ev_Aggregate (te_base ev) = tx_id t \<and> te_merchant ev = tx_merchantID t \<and> te_amount ev = tx_amount t)
    \<and> (\<exists>req. ar_TransactionID req = tx_id t \<and> ar_Amount req = tx_amount t \<and> (case issuer req of
          Inr resp \<Rightarrow> decided resp t \<and> w_effects w' = w_effects w
        | Inl err \<Rightarrow> errors_Is err DeadlineExceeded \<and> tx_status t = Denied \<and> tx_responseCode t = ''91''
            \<and> w_effects w' = w_effects w @ [IssuerReverse (tx_id t)]))"
  using authorized_sale [OF assms] .

definition sample_vault :: vault where
  "sample_vault = (\<lambda>token. Inr \<lparr>cd_PAN = ''4539578763621486'', cd_Expiry = ''12/30''\<rparr>)"

definition sample_issuer :: issuer where
  "sample_issuer = (\<lambda>req. if 500000 <s ar_Amount req then Inl (Sentinel DeadlineExceeded)
     else Inr \<lparr>as_Approved = True, as_AuthorizationCode = ''123456'', as_ResponseCode = ''00''\<rparr>)"

definition sample_command :: authorize_command where
  "sample_command = \<lparr>auc_MerchantID = ''m_1'', auc_Amount = 100000, auc_Product = ''CREDIT'',
     auc_Installments = 3, auc_CardToken = ''tok_1''\<rparr>"

lemma authorize_run:
  "\<exists>t w. Authorize_Execute sample_vault sample_issuer [MaxAmountRule 400000] 5 6 sample_command idle_world = (Inr t, w)"
proof -
  define w1 where "w1 = idle_world\<lparr>w_stmts := 1\<rparr>"
  define w2 where "w2 = idle_world\<lparr>w_stmts := 1, w_draws := 1\<rparr>"
  define tx where "tx = sample_pending\<lparr>tx_id := NewID (sample_uuids 0) ''tx''\<rparr>"
  define resp where "resp = \<lparr>as_Approved = True, as_AuthorizationCode = ''123456'', as_ResponseCode = ''00''\<rparr>"
  note ws = w1_def w2_def idle_world_def start_world_def sample_world_def sample_tables_def
  have card: "Luhn ''4539578763621486''" "brandOf ''4539578763621486'' = ''VISA''" by code_simp+
  have 1: "merchants_FindByID ''m_1'' idle_world = (Inr sample_active, w1)"
    by (simp add: merchants_FindByID_def start_ids start_toDomain ws)
  have 2: "ParseProduct ''CREDIT'' = Inr Credit" by (simp add: ParseProduct_def)
  have 3: "CardInfoFromPAN ''tok_1'' ''4539578763621486'' = Inr sample_card"
    using card by (simp add: CardInfoFromPAN_def sample_card_def)
  have 4: "fresh w1 = (Inr sample_uuids, w2)" by (simp add: ws)
  have 5: "tx_New (sample_uuids 0) sample_active 100000 Credit 3 sample_card 5 = Inr tx"
    using sample_tx_New by (auto simp: tx_New_def tx_def sample_pending_def tx_Restore_def split: if_splits sum.splits)
  have 6: "run_rules [MaxAmountRule 400000] sample_active tx = Inr ()"
    by (simp add: MaxAmountRule_def sless64 tx_def sample_tx_defs)
  have 7: "issuer_outcome i (sample_issuer r) w2 = (Inr resp, w2)" if "ar_Amount r = 100000" for i r
    using that by (simp add: issuer_outcome_def sample_issuer_def resp_def sless64)
  have ids: "NewID (sample_uuids 0) ''tx'' \<noteq> NewID ''7'' ''tx''" by code_simp
  have 8: "\<exists>t w. Do (store_body 6 resp tx) w2 = (Inr t, w)"
    by (simp add: Do_Inr store_body_def nsu_Next_def tx_Authorize_def tx_edges transactions_Create_def
        row_of_tx_def tx_PullEvents_def Let_def resp_def tx_def sample_tx_defs start_ids sless64 insert_row_def ids ws)
  then obtain t w where "Do (store_body 6 resp tx) w2 = (Inr t, w)" by blast
  then have "Authorize_Execute sample_vault sample_issuer [MaxAmountRule 400000] 5 6 sample_command idle_world = (Inr t, w)"
    unfolding Authorize_Execute_def mbind_def
    by (simp add: sample_command_def sample_vault_def 1 2 3 4 5 6 wrap_def del: run_rules.simps) (simp add: 7 tx_def sample_tx_defs)
  then show ?thesis by blast
qed

theorem authorize_outcomes_witness:
  "\<exists>t w. Authorize_Execute sample_vault sample_issuer [MaxAmountRule 400000] 5 6 sample_command idle_world = (Inr t, w)
     \<and> tx_amount t = 100000 \<and> tx_merchantID t = ''m_1'' \<and> t \<in> set (t_transactions (w_db w))"
proof -
  obtain t w where run: "Authorize_Execute sample_vault sample_issuer [MaxAmountRule 400000] 5 6 sample_command
      idle_world = (Inr t, w)" using authorize_run by blast
  then show ?thesis using authorize_outcomes [OF run, of 400000] by (auto simp: sample_command_def)
qed

section \<open>Capture and cancellation\<close>

definition one_event :: "transaction \<Rightarrow> tx_event \<Rightarrow> bool" where
  "one_event t ev \<longleftrightarrow> tx_event_status ev = tx_status t \<and> ev_Aggregate (te_base ev) = tx_id t
     \<and> te_merchant ev = tx_merchantID t \<and> te_amount ev = tx_amount t"

text \<open>
  What a lifecycle operation leaves: on an error nothing, otherwise the merchant's
  transaction \<open>r\<close> with that id replaced by \<open>t\<close>, with \<open>rel r t\<close>, and one more event.
\<close>

definition wrote_change ::
  "(transaction \<Rightarrow> transaction \<Rightarrow> bool) \<Rightarrow> string \<Rightarrow> string \<Rightarrow> world \<Rightarrow> transaction result \<times> world \<Rightarrow> bool" where
  "wrote_change rel mid i w out \<longleftrightarrow>
     (case out of
        (Inl e, w') \<Rightarrow> w_db w' = w_db w
      | (Inr t, w') \<Rightarrow> \<exists>r row ev. r \<in> set (t_transactions (w_db w)) \<and> tx_id r = i \<and> tx_merchantID r = mid \<and> rel r t
          \<and> w_db w' = (w_db w)\<lparr>t_transactions := map (\<lambda>x. if tx_id x = i then t else x) (t_transactions (w_db w)),
              t_outbox := t_outbox (w_db w) @ [row]\<rparr>
          \<and> ob_event row = TxEvent ev \<and> \<not> ob_published row \<and> one_event t ev)"

lemma change_effect:
  assumes ids: "distinct (map tx_id (t_transactions (w_db w)))"
    and change: "\<And>uu r t1. change uu r = Inr t1 \<Longrightarrow> r \<in> set (t_transactions (w_db w)) \<Longrightarrow>
        rel r (t1\<lparr>tx_events := []\<rparr>) \<and> tx_id t1 = tx_id r \<and> tx_version r < tx_version t1
        \<and> tx_columns t1 r = t1\<lparr>tx_events := []\<rparr> \<and> (\<exists>ev. tx_events t1 = [ev] \<and> one_event t1 ev)"
  shows "wrote_change rel mid i w (Lifecycle_change change mid i w)"
proof (cases "Lifecycle_change change mid i w")
  case (Pair res w')
  show ?thesis
  proof (cases res)
    case (Inl e)
    then show ?thesis
      using Pair Do_Inl_db [of "change_body change mid i" w e w'] by (simp add: wrote_change_def Lifecycle_change_def)
  next
    case (Inr t)
    obtain v1 v2 where body: "change_body change mid i v1 = (Inr t, v2)" and v: "w_db v1 = w_db w" "w_db w' = w_db v2"
      using Do_db [OF Pair[unfolded Inr Lifecycle_change_def]] by metis
    obtain r w1 uu w2 t1 w3 u w4 u' where 1: "transactions_FindByIDForUpdate mid i v1 = (Inr r, w1)" and
      2: "fresh w1 = (Inr uu, w2)" and 3: "lift_result (change uu r) w2 = (Inr t1, w3)" and
      4: "transactions_Update t1 w3 = (Inr u, w4)" and
      5: "outbox_Append (map TxEvent (fst (tx_PullEvents t1))) w4 = (Inr u', v2)" and t: "snd (tx_PullEvents t1) = t"
      using body unfolding change_body_def mbind_Inr ret_simps prod.inject sum.inject by blast
    note found = transactions_FindByIDForUpdate_effect [OF 1]
    have r: "r \<in> set (t_transactions (w_db w))" "tx_id r = i" "tx_merchantID r = mid" using found v by auto
    have t1: "change uu r = Inr t1" using 3 by simp
    note ch = change [OF t1 r(1)]
    obtain ev where ev: "tx_events t1 = [ev]" "one_event t1 ev" using ch by blast
    have w3: "w_db w3 = w_db w" using found 2 3 v(1) by auto
    have only: "x = r" if "x \<in> set (t_transactions (w_db w))" "tx_id x = i" for x
      using ids r that by (auto simp: distinct_map inj_on_def)
    have t_eq: "t = t1\<lparr>tx_events := []\<rparr>" using t by (simp add: tx_PullEvents_def)
    have "map (\<lambda>x. if tx_id x = tx_id t1 \<and> tx_version x < tx_version t1 then tx_columns t1 x else x) (t_transactions (w_db w))
        = map (\<lambda>x. if tx_id x = i then t else x) (t_transactions (w_db w))"
      using ch r(2) only t_eq by (intro map_cong) auto
    then have w4: "w_db w4 = (w_db w)\<lparr>t_transactions := map (\<lambda>x. if tx_id x = i then t else x) (t_transactions (w_db w))\<rparr>"
      using transactions_Update_effect [OF 4] w3 by simp
    obtain row where row: "w_db v2 = (w_db w4)\<lparr>t_outbox := t_outbox (w_db w4) @ [row]\<rparr>" "ob_event row = TxEvent ev" "\<not> ob_published row"
      using outbox_effect [OF 5] by (auto simp: tx_PullEvents_def ev(1) map_eq_Cons_conv)
    have w': "w_db w' = (w_db w)\<lparr>t_transactions := map (\<lambda>x. if tx_id x = i then t else x) (t_transactions (w_db w)),
        t_outbox := t_outbox (w_db w) @ [row]\<rparr>" using row(1) w4 v(2) by simp
    have "one_event t ev" "rel r t" using ev(2) ch by (simp_all add: one_event_def t_eq)
    then show ?thesis unfolding wrote_change_def Pair Inr prod.case sum.case using r w' row(2,3) by blast
  qed
qed

text \<open>C11: capturing a sale changes exactly the merchant's transaction with that id, from authorized
  to captured now, and canceling it from authorized or captured to canceled now; nothing
  else of it and no other row changes, and exactly one event that announces the new state
  joins the outbox; on an error nothing changes.\<close>

theorem lifecycle_outcomes:
  assumes ids: "distinct (map tx_id (t_transactions (w_db w)))"
    and stored: "\<forall>r \<in> set (t_transactions (w_db w)). tx_events r = []"
  shows "wrote_change (\<lambda>r t. tx_status r = Authorized
        \<and> t = r\<lparr>tx_status := Captured, tx_version := tx_version r + 1, tx_capturedAt := Some now\<rparr>)
      mid i w (Lifecycle_Capture now mid i w)
    \<and> wrote_change (\<lambda>r t. (tx_status r = Authorized \<or> tx_status r = Captured)
        \<and> t = r\<lparr>tx_status := Canceled, tx_version := tx_version r + 1, tx_canceledAt := Some now\<rparr>)
      mid i w (Lifecycle_Cancel now mid i w)"
  unfolding Lifecycle_Capture_def Lifecycle_Cancel_def
proof (rule conjI; rule change_effect [OF ids])
  fix uu :: "nat \<Rightarrow> string" and r t1 assume r: "r \<in> set (t_transactions (w_db w))"
  { assume c: "tx_Capture (uu 0) now r = Inr t1"
    then have "tx_status r = Authorized" by (cases "tx_status r") (simp_all add: tx_Capture_def tx_transition_def tx_edges)
    then show "(tx_status r = Authorized \<and> t1\<lparr>tx_events := []\<rparr>
        = r\<lparr>tx_status := Captured, tx_version := tx_version r + 1, tx_capturedAt := Some now\<rparr>)
      \<and> tx_id t1 = tx_id r \<and> tx_version r < tx_version t1 \<and> tx_columns t1 r = t1\<lparr>tx_events := []\<rparr>
      \<and> (\<exists>ev. tx_events t1 = [ev] \<and> one_event t1 ev)"
      using c r stored by (auto simp: tx_Capture_def tx_edges tx_columns_def one_event_def tx_event_status_def
          NewBaseEvent_def split: sum.splits) }
  assume c: "tx_Cancel (uu 0) now r = Inr t1"
  then have "tx_status r = Authorized \<or> tx_status r = Captured"
    by (cases "tx_status r") (simp_all add: tx_Cancel_def tx_transition_def tx_edges)
  then show "((tx_status r = Authorized \<or> tx_status r = Captured) \<and> t1\<lparr>tx_events := []\<rparr>
        = r\<lparr>tx_status := Canceled, tx_version := tx_version r + 1, tx_canceledAt := Some now\<rparr>)
      \<and> tx_id t1 = tx_id r \<and> tx_version r < tx_version t1 \<and> tx_columns t1 r = t1\<lparr>tx_events := []\<rparr>
      \<and> (\<exists>ev. tx_events t1 = [ev] \<and> one_event t1 ev)"
    using c r stored by (auto simp: tx_Cancel_def tx_edges tx_columns_def one_event_def tx_event_status_def
        NewBaseEvent_def split: sum.splits)
qed

theorem lifecycle_outcomes_witness:
  "wrote_change (\<lambda>r t. (tx_status r = Authorized \<or> tx_status r = Captured)
        \<and> t = r\<lparr>tx_status := Canceled, tx_version := tx_version r + 1, tx_canceledAt := Some 9\<rparr>)
      ''m_1'' (tx_id sample_captured) idle_world (Lifecycle_Cancel 9 ''m_1'' (tx_id sample_captured) idle_world)
   \<and> (\<exists>t. fst (Lifecycle_Cancel 9 ''m_1'' (tx_id sample_captured) idle_world) = Inr t)"
proof
  note ws = idle_world_def start_world_def sample_world_def sample_tables_def
  show "wrote_change (\<lambda>r t. (tx_status r = Authorized \<or> tx_status r = Captured)
        \<and> t = r\<lparr>tx_status := Canceled, tx_version := tx_version r + 1, tx_canceledAt := Some 9\<rparr>)
      ''m_1'' (tx_id sample_captured) idle_world (Lifecycle_Cancel 9 ''m_1'' (tx_id sample_captured) idle_world)"
    by (rule lifecycle_outcomes [THEN conjunct2]) (simp_all add: ws sample_tx_defs)
  have "\<exists>t w. Lifecycle_Cancel 9 ''m_1'' (tx_id sample_captured) idle_world = (Inr t, w)"
    by (simp add: Lifecycle_Cancel_def Lifecycle_change_def Do_Inr change_body_def transactions_FindByIDForUpdate_def
        transactions_FindByID_def transactions_find_def tx_Cancel_def tx_edges transactions_Update_def
        update_version_def tx_PullEvents_def insert_row_def Let_def ws sample_tx_defs)
  then show "\<exists>t. fst (Lifecycle_Cancel 9 ''m_1'' (tx_id sample_captured) idle_world) = Inr t" by fastforce
qed

section \<open>Events are handled once\<close>

definition handled :: "tx_event \<Rightarrow> world \<Rightarrow> bool" where
  "handled ev w \<longleftrightarrow> (consumerName, ev_ID (te_base ev)) \<in> set (t_processed (w_db w))"

lemma captured_handled:
  "handled ev w \<Longrightarrow> captured_body cal now ev w = (Inr rs, w') \<Longrightarrow> rs = [] \<and> w_db w' = w_db w"
  by (auto simp: captured_body_def handled_def processed_MarkIfNew_def)

lemma canceled_handled:
  "handled ev w \<Longrightarrow> canceled_body now ev w = (Inr u, w') \<Longrightarrow> w_db w' = w_db w"
  by (auto simp: canceled_body_def handled_def processed_MarkIfNew_def)

text \<open>The part of the tables a handler writes after it has marked the event.\<close>

definition keeps_processed :: "world \<Rightarrow> world \<Rightarrow> bool" where
  "keeps_processed w w' \<longleftrightarrow> set (t_processed (w_db w)) \<subseteq> set (t_processed (w_db w'))"

interpretation kept: run_frame keeps_processed
  by unfold_locales (auto simp: keeps_processed_def)

lemma kept_writes [frame]:
  "runs keeps_processed (receivables_SaveAll xs)" "runs keeps_processed (receivables_UpdateAll xs)"
  "runs keeps_processed (ledger_insert es)" "runs keeps_processed (processed_MarkIfNew c i)"
proof -
  show "runs keeps_processed (receivables_SaveAll xs)"
    by (induction xs; unfold receivables_SaveAll.simps)
      (intro frame kept.run_exec | assumption | force simp: keeps_processed_def split: prod.splits)+
  show "runs keeps_processed (receivables_UpdateAll xs)"
    by (induction xs; unfold receivables_UpdateAll.simps)
      (intro frame kept.run_exec | assumption | force simp: keeps_processed_def update_version_def split: prod.splits)+
  show "runs keeps_processed (ledger_insert es)"
    by (induction es; unfold ledger_insert.simps)
      (intro frame kept.run_exec | assumption | force simp: keeps_processed_def split: prod.splits)+
  show "runs keeps_processed (processed_MarkIfNew c i)"
    unfolding processed_MarkIfNew_def by (intro frame kept.run_exec) (auto simp: keeps_processed_def split: if_splits)
qed

lemma kept_outbox [frame]: "runs keeps_processed (outbox_Append evs)"
proof (induction evs)
  case (Cons ev evs)
  have "runs keeps_processed (\<lambda>w. let row = \<lparr>ob_id = w_outbox_seq w, ob_event = ev, ob_published = False\<rparr>;
           w' = w\<lparr>w_outbox_seq := w_outbox_seq w + 1\<rparr>
       in case insert_row True (EventID \<circ> ob_event) row (t_outbox (w_db w)) of
            (r, rows) \<Rightarrow> (r, w'\<lparr>w_db := (w_db w)\<lparr>t_outbox := rows\<rparr>\<rparr>))"
    by (rule runsI) (auto simp: Let_def keeps_processed_def split: prod.splits)
  then show ?case unfolding outbox_Append.simps by (intro frame Cons)
qed (unfold outbox_Append.simps, intro frame)

lemma kept_ledger [frame]: "runs keeps_processed (ledger_Append es)"
  unfolding ledger_Append_def by (intro frame)

lemma marks:
  assumes "processed_MarkIfNew consumerName (ev_ID (te_base ev)) w = (Inr isNew, w1)"
  shows "handled ev w1"
  using processed_effect [OF assms] by (auto simp: handled_def)

lemma mbind_marks:
  assumes run: "mbind (processed_MarkIfNew consumerName (ev_ID (te_base ev))) f w = (Inr x, w')"
    and f: "\<And>isNew. runs keeps_processed (f isNew)"
  shows "handled ev w'"
proof -
  obtain isNew w1 where 1: "processed_MarkIfNew consumerName (ev_ID (te_base ev)) w = (Inr isNew, w1)" "f isNew w1 = (Inr x, w')"
    using run by auto
  have "keeps_processed w1 w'" using runsD [OF f 1(2)] .
  then show ?thesis using marks [OF 1(1)] by (auto simp: keeps_processed_def handled_def)
qed

lemma captured_marks: "captured_body cal now ev w = (Inr rs, w') \<Longrightarrow> handled ev w'"
  unfolding captured_body_def by (erule mbind_marks) (intro frame)

lemma canceled_marks: "canceled_body now ev w = (Inr u, w') \<Longrightarrow> handled ev w'"
  unfolding canceled_body_def by (erule mbind_marks) (intro frame)

lemma onCaptured_marks: "onCaptured register cal now ev w = (Inr u, w') \<Longrightarrow> handled ev w'"
  unfolding onCaptured_def
  by (auto simp: handled_def effect_log_def elim!: Do_db dest!: captured_marks split: if_splits)

lemma onCanceled_marks: "onCanceled now ev w = (Inr u, w') \<Longrightarrow> handled ev w'"
  unfolding onCanceled_def by (auto simp: handled_def elim!: Do_db dest!: canceled_marks)



section \<open>A merchant sees only its own\<close>


end
