(* ===== verification/Messaging.thy ===== *)
theory Messaging
  imports Frames
begin

text \<open>
  \<open>internal/infrastructure/kafka\<close>: the relay that publishes the outbox (\<open>relay.go\<close>,
  \<open>publisher.go\<close>) and the consumer with its retries and its dead-letter queue
  (\<open>consumer.go\<close>). Kafka itself is a log of messages; \<open>WriteMessages\<close> is acknowledged, or it
  reports an error, and then the message may have been written or not.
\<close>

section \<open>Publishing\<close>

record message =
  ms_Topic :: string
  ms_Key :: string
  ms_Value :: event
  ms_Headers :: "(string \<times> string) list"

datatype write_end = Acked | Unsure go_error bool

record kafka =
  k_log :: "message list"
  k_writes :: nat
  k_ends :: "nat \<Rightarrow> write_end"

definition WriteMessages :: "message \<Rightarrow> kafka \<Rightarrow> go_error option \<times> kafka" where
  "WriteMessages m k =
     (let k' = k\<lparr>k_writes := k_writes k + 1\<rparr>
      in case k_ends k (k_writes k) of
           Acked \<Rightarrow> (None, k'\<lparr>k_log := k_log k @ [m]\<rparr>)
         | Unsure e written \<Rightarrow> (Some e, if written then k'\<lparr>k_log := k_log k @ [m]\<rparr> else k'))"

text \<open>Go puts the two headers in any order.\<close>

definition Publish :: "string \<Rightarrow> string \<Rightarrow> event \<Rightarrow> (string \<times> string) list \<Rightarrow> kafka \<Rightarrow> go_error option \<times> kafka" where
  "Publish topic key value headers k =
     (case WriteMessages \<lparr>ms_Topic = topic, ms_Key = key, ms_Value = value, ms_Headers = headers\<rparr> k of
        (Some e, k') \<Rightarrow> (Some (Errorf [topic] e), k')
      | (None, k') \<Rightarrow> (None, k'))"

text \<open>One row: its topic is the type of the event, its key the aggregate.\<close>

definition publish_row :: "outbox_row \<Rightarrow> kafka \<Rightarrow> go_error option \<times> kafka" where
  "publish_row x k =
     Publish (EventType (ob_event x)) (AggregateID (ob_event x)) (ob_event x)
       [(''event_id'', EventID (ob_event x)), (''event_type'', EventType (ob_event x))] k"

text \<open>The loop stops at the first failure: it never skips an event.\<close>

fun publish_loop :: "outbox_row list \<Rightarrow> kafka \<Rightarrow> nat list \<times> kafka" where
  "publish_loop [] k = ([], k)"
| "publish_loop (x # xs) k =
     (case publish_row x k of
        (Some e, k') \<Rightarrow> ([], k')
      | (None, k') \<Rightarrow> (case publish_loop xs k' of (ids, k'') \<Rightarrow> (ob_id x # ids, k'')))"

text \<open>
  The SELECT: \<open>held\<close> are the rows another relay has locked. The driver hands the rows over one
  by one and \<open>rows.Err\<close> is not asked, so a broken connection may cut the list: \<open>delivered\<close>
  rows arrive.
\<close>

definition pending_rows :: "nat list \<Rightarrow> nat \<Rightarrow> nat \<Rightarrow> outbox_row list \<Rightarrow> outbox_row list" where
  "pending_rows held batch delivered rows =
     take delivered (take batch (sort_key ob_id (filter (\<lambda>x. \<not> ob_published x \<and> ob_id x \<notin> set held) rows)))"

definition mark_published :: "nat list \<Rightarrow> outbox_row list \<Rightarrow> outbox_row list" where
  "mark_published ids rows = map (\<lambda>x. if ob_id x \<in> set ids then x\<lparr>ob_published := True\<rparr> else x) rows"

text \<open>
  One round of the relay, in a database transaction of its own: the number of events
  published and the error, which come back together where the commit fails.
\<close>

definition publishBatch ::
  "nat list \<Rightarrow> nat \<Rightarrow> nat \<Rightarrow> world \<times> kafka \<Rightarrow> (nat \<times> go_error option) \<times> world \<times> kafka" where
  "publishBatch held batch delivered s =
     (case s of (w, k) \<Rightarrow>
        case stmt (ret ()) w of
          (Inl e, w1) \<Rightarrow> ((0, Some e), w1, k)
        | (Inr _, w1) \<Rightarrow>
            (case query (\<lambda>d. pending_rows held batch delivered (t_outbox d)) w1 of
               (Inl e, w2) \<Rightarrow> ((0, Some e), w2, k)
             | (Inr pending, w2) \<Rightarrow>
                 if length pending = 0 then ((0, None), w2, k)
                 else (case publish_loop pending k of (published, k') \<Rightarrow>
                   case (if length published > 0
                         then exec (\<lambda>d. (Inr (), d\<lparr>t_outbox := mark_published published (t_outbox d)\<rparr>)) w2
                         else (Inr (), w2)) of
                     (Inl e, w3) \<Rightarrow> ((0, Some (Errorf [] e)), w3\<lparr>w_db := w_db w1\<rparr>, k')
                   | (Inr _, w3) \<Rightarrow>
                       (case stmt (ret ()) w3 of
                          (Inl e, w4) \<Rightarrow> ((length published, Some e), w4\<lparr>w_db := w_db w1\<rparr>, k')
                        | (Inr _, w4) \<Rightarrow> ((length published, None), w4, k')))))"

text \<open>
  \<open>Run\<close> repeats rounds, at once after a full one and at the next tick otherwise, until it is
  stopped: each round here has the rows it finds locked and the rows it gets.
\<close>

fun relay_rounds :: "nat \<Rightarrow> (nat list \<times> nat) list \<Rightarrow> world \<times> kafka \<Rightarrow> world \<times> kafka" where
  "relay_rounds batch [] s = s"
| "relay_rounds batch ((held, delivered) # rounds) s =
     relay_rounds batch rounds (snd (publishBatch held batch delivered s))"

section \<open>What a round does\<close>

definition message_of :: "outbox_row \<Rightarrow> message" where
  "message_of x = \<lparr>ms_Topic = EventType (ob_event x), ms_Key = AggregateID (ob_event x), ms_Value = ob_event x,
     ms_Headers = [(''event_id'', EventID (ob_event x)), (''event_type'', EventType (ob_event x))]\<rparr>"

lemma message_of_published [simp]: "message_of (x\<lparr>ob_published := b\<rparr>) = message_of x"
  by (simp add: message_of_def)

lemma publish_row_cases:
  "publish_row x k = (r, k') \<Longrightarrow> k_ends k' = k_ends k
     \<and> (k_log k' = k_log k @ [message_of x] \<or> (r \<noteq> None \<and> k_log k' = k_log k))
     \<and> (k_ends k = (\<lambda>_. Acked) \<longrightarrow> r = None)"
  by (auto simp: publish_row_def Publish_def WriteMessages_def message_of_def Let_def
      split: write_end.splits if_splits)

text \<open>The messages written are those of an initial part of the rows; the marked rows are among it.\<close>

lemma publish_loop_spec:
  "publish_loop xs k = (ids, k') \<Longrightarrow> k_ends k' = k_ends k
     \<and> (\<exists>n m. ids = map ob_id (take n xs) \<and> k_log k' = k_log k @ map message_of (take m xs) \<and> n \<le> m \<and> m \<le> n + 1
          \<and> n \<le> length xs)
     \<and> (k_ends k = (\<lambda>_. Acked) \<longrightarrow> ids = map ob_id xs)"
proof (induction xs arbitrary: k ids k')
  case (Cons x xs)
  obtain r k1 where 1: "publish_row x k = (r, k1)" by fastforce
  note step = publish_row_cases [OF 1]
  show ?case
  proof (cases r)
    case (Some e)
    then have res: "ids = []" "k' = k1" using Cons.prems by (simp_all add: 1)
    have "k_log k1 = k_log k @ map message_of (take 1 (x # xs)) \<or> k_log k1 = k_log k @ map message_of (take 0 (x # xs))"
      using step by auto
    then have "\<exists>n m. ids = map ob_id (take n (x # xs)) \<and> k_log k' = k_log k @ map message_of (take m (x # xs))
        \<and> n \<le> m \<and> m \<le> n + 1 \<and> n \<le> length (x # xs)"
      unfolding res by (elim disjE) (rule exI [of _ 0], rule exI [of _ "1 :: nat"], simp,
        rule exI [of _ 0], rule exI [of _ "0 :: nat"], simp)
    then show ?thesis using step Some res(2) by auto
  next
    case None
    obtain ids1 k2 where 2: "publish_loop xs k1 = (ids1, k2)" by fastforce
    have res: "ids = ob_id x # ids1" "k' = k2" using Cons.prems None by (simp_all add: 1 2)
    obtain n m where nm: "ids1 = map ob_id (take n xs)" "k_log k2 = k_log k1 @ map message_of (take m xs)"
      "n \<le> m" "m \<le> n + 1" "n \<le> length xs" using Cons.IH [OF 2] by blast
    have "k_log k1 = k_log k @ [message_of x]" using step None by auto
    then have "ids = map ob_id (take (Suc n) (x # xs)) \<and> k_log k' = k_log k @ map message_of (take (Suc m) (x # xs))
        \<and> Suc n \<le> Suc m \<and> Suc m \<le> Suc n + 1 \<and> Suc n \<le> length (x # xs)"
      using nm res by simp
    then have "\<exists>n m. ids = map ob_id (take n (x # xs)) \<and> k_log k' = k_log k @ map message_of (take m (x # xs))
        \<and> n \<le> m \<and> m \<le> n + 1 \<and> n \<le> length (x # xs)" by blast
    moreover have "k_ends k' = k_ends k" "k_ends k = (\<lambda>_. Acked) \<longrightarrow> ids = map ob_id (x # xs)"
      using step Cons.IH [OF 2] res by auto
    ultimately show ?thesis by blast
  qed
qed (auto intro: exI [of _ "0 :: nat"])

lemma publishBatch_spec:
  assumes "publishBatch held batch delivered (w, k) = (r, w', k')"
  shows "k_ends k' = k_ends k \<and> w_outbox_seq w' = w_outbox_seq w
    \<and> (\<exists>n m. n \<le> m \<and> k_log k' = k_log k @ map message_of (take m (pending_rows held batch delivered (t_outbox (w_db w))))
       \<and> (t_outbox (w_db w') = t_outbox (w_db w)
          \<or> t_outbox (w_db w') = mark_published (map ob_id (take n (pending_rows held batch delivered (t_outbox (w_db w))))) (t_outbox (w_db w))))"
proof -
  define pend where "pend = pending_rows held batch delivered (t_outbox (w_db w))"
  obtain ids k1 where loop: "publish_loop pend k = (ids, k1)" by fastforce
  note spec = publish_loop_spec [OF loop]
  obtain n m where nm: "ids = map ob_id (take n pend)" "k_log k1 = k_log k @ map message_of (take m pend)" "n \<le> m" "n \<le> length pend"
    using spec by blast
  have keep: "n = 0 \<or> pend = [] \<Longrightarrow> mark_published ids (t_outbox (w_db w)) = t_outbox (w_db w)"
    unfolding nm(1) by (auto simp: mark_published_def)
  have "(k' = k \<and> w_outbox_seq w' = w_outbox_seq w \<and> t_outbox (w_db w') = t_outbox (w_db w)) \<or>
     (k' = k1 \<and> w_outbox_seq w' = w_outbox_seq w
      \<and> (t_outbox (w_db w') = t_outbox (w_db w) \<or> t_outbox (w_db w') = mark_published ids (t_outbox (w_db w))))"
    using assms unfolding publishBatch_def pend_def [symmetric] stmt_def query_def exec_def
    by (auto simp: pend_def [symmetric] loop split: option.splits if_splits)
  then show ?thesis
  proof (elim disjE conjE)
    assume "k' = k" "w_outbox_seq w' = w_outbox_seq w" "t_outbox (w_db w') = t_outbox (w_db w)"
    then show ?thesis unfolding pend_def [symmetric]
      by (intro conjI exI [of _ "0 :: nat"]) simp_all
  qed (use spec nm in \<open>unfold pend_def [symmetric] nm(1) [symmetric], blast\<close>)+
qed

section \<open>The relay and the program\<close>

text \<open>
  The program commits new events, the relay takes rounds, and the rows of a round are
  arbitrary. With \<open>alone\<close> there is one relay, so no row is locked by another. The sequence
  gives a new row an id above every older one.
\<close>

inductive relay_step :: "bool \<Rightarrow> world \<times> kafka \<Rightarrow> world \<times> kafka \<Rightarrow> bool" for alone where
  append_events: "Do (outbox_Append evs) w = (r, w') \<Longrightarrow> relay_step alone (w, k) (w', k)"
| relay_round: "publishBatch held batch delivered s = (r, s') \<Longrightarrow> alone \<longrightarrow> held = [] \<Longrightarrow> relay_step alone s s'"

inductive relay_reach :: "bool \<Rightarrow> world \<times> kafka \<Rightarrow> world \<times> kafka \<Rightarrow> bool" for alone s0 where
  relay_start: "relay_reach alone s0 s0"
| relay_next: "relay_reach alone s0 s \<Longrightarrow> relay_step alone s s' \<Longrightarrow> relay_reach alone s0 s'"

definition event_ids :: "outbox_row list \<Rightarrow> string list" where
  "event_ids rows = map (\<lambda>x. EventID (ob_event x)) rows"

definition in_order :: "outbox_row list \<Rightarrow> message list \<Rightarrow> bool" where
  "in_order rows msgs \<longleftrightarrow> (\<forall>x \<in> set rows. \<forall>y \<in> set rows. ob_id x < ob_id y \<longrightarrow> message_of y \<in> set msgs \<longrightarrow> message_of x \<in> set msgs)"

definition relay_ok :: "bool \<Rightarrow> outbox_row list \<Rightarrow> nat \<Rightarrow> message list \<Rightarrow> bool" where
  "relay_ok alone rows seq msgs \<longleftrightarrow> distinct (event_ids rows) \<and> distinct (map ob_id rows) \<and> (\<forall>x \<in> set rows. ob_id x < seq)
     \<and> (\<forall>x \<in> set rows. ob_published x \<longrightarrow> message_of x \<in> set msgs)
     \<and> set msgs \<subseteq> message_of ` set rows
     \<and> (alone \<longrightarrow> (\<forall>i. in_order rows (take i msgs)))"

text \<open>New rows.\<close>

definition grows :: "world \<Rightarrow> world \<Rightarrow> bool" where
  "grows w w' \<longleftrightarrow> w_outbox_seq w \<le> w_outbox_seq w' \<and> (\<exists>new. t_outbox (w_db w') = t_outbox (w_db w) @ new
     \<and> (\<forall>x \<in> set new. \<not> ob_published x \<and> w_outbox_seq w \<le> ob_id x \<and> ob_id x < w_outbox_seq w') \<and> distinct (map ob_id new)
     \<and> (distinct (event_ids (t_outbox (w_db w))) \<longrightarrow> distinct (event_ids (t_outbox (w_db w) @ new))))"

lemma grows_refl: "w_outbox_seq w' = w_outbox_seq w \<Longrightarrow> t_outbox (w_db w') = t_outbox (w_db w) \<Longrightarrow> grows w w'"
  by (auto simp: grows_def)

lemma grows_trans: "grows w w' \<Longrightarrow> grows w' w'' \<Longrightarrow> grows w w''"
proof -
  assume "grows w w'" "grows w' w''"
  then obtain new new' where n: "t_outbox (w_db w') = t_outbox (w_db w) @ new" "t_outbox (w_db w'') = t_outbox (w_db w) @ new @ new'"
    "w_outbox_seq w \<le> w_outbox_seq w'" "w_outbox_seq w' \<le> w_outbox_seq w''"
    "\<forall>x \<in> set new. \<not> ob_published x \<and> w_outbox_seq w \<le> ob_id x \<and> ob_id x < w_outbox_seq w'" "distinct (map ob_id new)"
    "\<forall>x \<in> set new'. \<not> ob_published x \<and> w_outbox_seq w' \<le> ob_id x \<and> ob_id x < w_outbox_seq w''" "distinct (map ob_id new')"
    "distinct (event_ids (t_outbox (w_db w))) \<longrightarrow> distinct (event_ids (t_outbox (w_db w) @ new))"
    "distinct (event_ids (t_outbox (w_db w) @ new)) \<longrightarrow> distinct (event_ids (t_outbox (w_db w) @ new @ new'))"
    unfolding grows_def by auto
  have "distinct (map ob_id (new @ new'))" using n(5-8) by fastforce
  moreover have "\<forall>x \<in> set (new @ new'). \<not> ob_published x \<and> w_outbox_seq w \<le> ob_id x \<and> ob_id x < w_outbox_seq w''"
    using n(3-5,7) by auto
  moreover have "distinct (event_ids (t_outbox (w_db w))) \<longrightarrow> distinct (event_ids (t_outbox (w_db w) @ new @ new'))"
    using n(9,10) by blast
  ultimately show ?thesis
    unfolding grows_def n(2) using le_trans [OF n(3,4)] by (intro conjI exI [of _ "new @ new'"]) (assumption | rule refl)+
qed

lemma append_grows: "runs grows (outbox_Append evs)"
proof (induction evs)
  case (Cons ev evs)
  show ?case
  proof (rule runsI)
    fix w r w'
    assume run: "outbox_Append (ev # evs) w = (r, w')"
    obtain r1 w1 where 1: "wrap [] (stmt (\<lambda>w.
       let row = \<lparr>ob_id = w_outbox_seq w, ob_event = ev, ob_published = False\<rparr>;
           w' = w\<lparr>w_outbox_seq := w_outbox_seq w + 1\<rparr>
       in case insert_row True (EventID \<circ> ob_event) row (t_outbox (w_db w)) of
            (r, rows) \<Rightarrow> (r, w'\<lparr>w_db := (w_db w)\<lparr>t_outbox := rows\<rparr>\<rparr>))) w = (r1, w1)" by fastforce
    have "(t_outbox (w_db w1) = t_outbox (w_db w) \<and> w_outbox_seq w \<le> w_outbox_seq w1) \<or>
        (\<exists>row. t_outbox (w_db w1) = t_outbox (w_db w) @ [row] \<and> ob_id row = w_outbox_seq w \<and> \<not> ob_published row
           \<and> w_outbox_seq w1 = w_outbox_seq w + 1 \<and> EventID (ob_event row) \<notin> set (event_ids (t_outbox (w_db w))))"
      using 1 by (cases "w_faults w (w_stmts w)")
        (auto simp: wrap_def stmt_def insert_row_def event_ids_def Let_def image_image split: if_splits)
    then have "grows w w1"
    proof (elim disjE exE conjE)
      fix row assume row: "t_outbox (w_db w1) = t_outbox (w_db w) @ [row]" "ob_id row = w_outbox_seq w" "\<not> ob_published row"
           "w_outbox_seq w1 = w_outbox_seq w + 1" "EventID (ob_event row) \<notin> set (event_ids (t_outbox (w_db w)))"
      then have "distinct (event_ids (t_outbox (w_db w))) \<longrightarrow> distinct (event_ids (t_outbox (w_db w) @ [row]))"
        by (simp add: event_ids_def)
      then show ?thesis unfolding grows_def row(1) using row(2-4) by (intro conjI exI [of _ "[row]"]) simp_all
    qed (auto simp: grows_def)
    moreover have "(\<exists>e. r1 = Inl e \<and> w' = w1) \<or> outbox_Append evs w1 = (r, w')"
      using run 1 by (auto simp: mbind_def split: sum.splits)
    ultimately show "grows w w'" using runsD [OF Cons.IH] grows_trans by blast
  qed
qed (simp add: runs_def grows_def)

lemma do_append_grows: "Do (outbox_Append evs) w = (r, w') \<Longrightarrow> grows w w'"
proof (cases r)
  case (Inl e)
  assume run: "Do (outbox_Append evs) w = (r, w')"
  have "runs (\<lambda>w w'. w_outbox_seq w \<le> w_outbox_seq w') (outbox_Append evs)"
    using append_grows by (simp add: runs_def grows_def)
  then have "w_outbox_seq w \<le> w_outbox_seq w'" using runsD [OF later.run_Do [OF later.run_outbox] run] by (simp add: world_later_def)
  then show ?thesis using Do_Inl_db [OF run [unfolded Inl]] by (auto simp: grows_def)
next
  case (Inr x)
  assume run: "Do (outbox_Append evs) w = (r, w')"
  obtain w2 where w2: "outbox_Append evs (w\<lparr>w_stmts := w_stmts w + 1\<rparr>) = (Inr x, w2)" "w' = w2\<lparr>w_stmts := w_stmts w2 + 1\<rparr>"
    using run unfolding Inr Do_Inr by auto
  then show ?thesis using runsD [OF append_grows w2(1)] by (simp add: grows_def)
qed

lemma relay_ok_grows:
  assumes ok: "relay_ok alone (t_outbox (w_db w)) (w_outbox_seq w) msgs" and grow: "grows w w'"
  shows "relay_ok alone (t_outbox (w_db w')) (w_outbox_seq w') msgs"
proof -
  define rows where "rows = t_outbox (w_db w)"
  obtain new where n: "t_outbox (w_db w') = rows @ new" "w_outbox_seq w \<le> w_outbox_seq w'"
    "\<forall>x \<in> set new. \<not> ob_published x \<and> w_outbox_seq w \<le> ob_id x \<and> ob_id x < w_outbox_seq w'" "distinct (map ob_id new)"
    "distinct (event_ids (rows @ new))"
    using grow ok unfolding grows_def relay_ok_def rows_def by blast
  have old: "\<forall>x \<in> set rows. ob_id x < w_outbox_seq w" "set msgs \<subseteq> message_of ` set rows" "distinct (map ob_id rows)"
    using ok by (simp_all add: relay_ok_def rows_def)
  have fresh: "message_of y \<notin> set msgs" if "y \<in> set new" for y
  proof
    assume "message_of y \<in> set msgs"
    then obtain x where x: "x \<in> set rows" "message_of x = message_of y" using old(2) by force
    then have "EventID (ob_event x) = EventID (ob_event y)" by (simp add: message_of_def)
    then show False using n(5) x(1) that unfolding event_ids_def by fastforce
  qed
  have "in_order (rows @ new) (take i msgs)" if "alone" for i
  proof -
    have prev: "in_order rows (take i msgs)" using ok that by (simp add: relay_ok_def rows_def)
    have "message_of y \<notin> set (take i msgs)" if "y \<in> set new" for y using fresh [OF that] by (meson in_set_takeD)
    moreover have "\<not> ob_id x < ob_id y" if "x \<in> set new" "y \<in> set rows" for x y
      using n(3) old(1) that by fastforce
    ultimately show ?thesis using prev unfolding in_order_def by auto
  qed
  moreover have "distinct (map ob_id (rows @ new))" using n(3,4) old(1,3) by fastforce
  moreover have "\<forall>x \<in> set (rows @ new). ob_id x < w_outbox_seq w'" using n(2,3) old(1) by auto
  moreover have "\<forall>x \<in> set (rows @ new). ob_published x \<longrightarrow> message_of x \<in> set msgs"
    using ok n(3) by (auto simp: relay_ok_def rows_def)
  ultimately show ?thesis using n(5) old(2) unfolding relay_ok_def n(1) by auto
qed

text \<open>The rows of a round come in the order of their ids: the ones before a row it takes are taken too.\<close>

lemma pending_before:
  assumes ids: "distinct (map ob_id rows)" and held: "held = []"
    and y: "y \<in> set (take j (pending_rows held batch delivered rows))"
    and x: "x \<in> set rows" "\<not> ob_published x" "ob_id x < ob_id y"
  shows "x \<in> set (take j (pending_rows held batch delivered rows))"
proof -
  define xs where "xs = sort_key ob_id (filter (\<lambda>x. \<not> ob_published x \<and> ob_id x \<notin> set held) rows)"
  define n where "n = min j (min delivered batch)"
  have eq: "take j (pending_rows held batch delivered rows) = take n xs"
    by (simp add: pending_rows_def xs_def n_def min.assoc)
  have sorted: "sorted (map ob_id xs)" by (simp add: xs_def)
  obtain b where b: "b < length xs" "b < n" "y = xs ! b" using y unfolding eq by (auto simp: in_set_conv_nth)
  have "x \<in> set xs" using x held by (simp add: xs_def)
  then obtain a where a: "a < length xs" "x = xs ! a" by (auto simp: in_set_conv_nth)
  have "a < b"
  proof (rule ccontr)
    assume "\<not> a < b"
    then have "ob_id y \<le> ob_id x" using sorted_nth_mono [OF sorted, of b a] a b by simp
    then show False using x(3) by simp
  qed
  then show ?thesis unfolding eq using a b by (auto simp: in_set_conv_nth intro!: exI [of _ a])
qed

lemma mark_published_set: "x' \<in> set (mark_published ids rows) \<longleftrightarrow>
    (\<exists>x \<in> set rows. x' = (if ob_id x \<in> set ids then x\<lparr>ob_published := True\<rparr> else x))"
  by (auto simp: mark_published_def)

lemma mark_simps: "ob_id (if c then x\<lparr>ob_published := True\<rparr> else x) = ob_id x"
  "message_of (if c then x\<lparr>ob_published := True\<rparr> else x) = message_of x"
  by simp_all

lemma in_order_mark: "in_order (mark_published ids rows) msgs \<longleftrightarrow> in_order rows msgs"
proof -
  have ball: "(\<forall>x \<in> f ` A. P x) \<longleftrightarrow> (\<forall>x \<in> A. P (f x))" for f :: "outbox_row \<Rightarrow> outbox_row" and A P by blast
  show ?thesis unfolding in_order_def mark_published_def set_map ball mark_simps ..
qed

lemma pending_sub: "set (pending_rows held batch delivered rows) \<subseteq> set rows"
  unfolding pending_rows_def by (intro subset_trans [OF set_take_subset]) auto

lemma relay_ok_mark:
  assumes ok: "relay_ok alone rows seq msgs" and sent: "\<forall>x \<in> set rows. ob_id x \<in> set ids \<longrightarrow> message_of x \<in> set msgs"
  shows "relay_ok alone (mark_published ids rows) seq msgs"
proof -
  have same: "event_ids (mark_published ids rows) = event_ids rows" "map ob_id (mark_published ids rows) = map ob_id rows"
    "map message_of (mark_published ids rows) = map message_of rows"
    by (simp_all add: mark_published_def event_ids_def)
  have "message_of ` set (mark_published ids rows) = message_of ` set rows"
    using arg_cong [OF same(3), of set] by simp
  moreover have "\<forall>x \<in> set (mark_published ids rows). ob_id x < seq" "\<forall>x \<in> set (mark_published ids rows). ob_published x \<longrightarrow> message_of x \<in> set msgs"
    using ok sent by (auto simp: relay_ok_def mark_published_set)
  ultimately show ?thesis using ok unfolding relay_ok_def same in_order_mark by simp
qed

text \<open>Sending pending rows from the first one on keeps the order: what a row waits for is in front of it.\<close>

lemma in_order_sent:
  assumes ok: "relay_ok True rows seq msgs"
  shows "in_order rows (msgs @ map message_of (take j (pending_rows [] batch delivered rows)))"
  unfolding in_order_def
proof (intro ballI impI)
  define sent where "sent = take j (pending_rows [] batch delivered rows)"
  fix x y
  assume xy: "x \<in> set rows" "y \<in> set rows" "ob_id x < ob_id y"
    and y: "message_of y \<in> set (msgs @ map message_of (take j (pending_rows [] batch delivered rows)))"
  have prev: "in_order rows msgs" using ok take_all [of msgs "length msgs"] unfolding relay_ok_def by (metis order_refl)
  have ids: "distinct (map ob_id rows)" "distinct (event_ids rows)" using ok by (simp_all add: relay_ok_def)
  have "x \<in> set sent \<or> message_of x \<in> set msgs"
  proof (cases "message_of y \<in> set msgs \<or> ob_published x")
    case True
    then show ?thesis using prev ok xy unfolding in_order_def relay_ok_def by auto
  next
    case False
    then obtain z where z: "z \<in> set sent" "message_of z = message_of y" using y by (auto simp: sent_def)
    then have "z \<in> set rows" using pending_sub unfolding sent_def by (meson in_set_takeD subsetD)
    moreover have "EventID (ob_event z) = EventID (ob_event y)" using z(2) by (simp add: message_of_def)
    ultimately have "z = y" using ids(2) xy(2) unfolding event_ids_def by (metis distinct_map inj_on_def)
    then show ?thesis using pending_before [OF ids(1) refl _ xy(1) _ xy(3)] z(1) False unfolding sent_def by blast
  qed
  then show "message_of x \<in> set (msgs @ map message_of (take j (pending_rows [] batch delivered rows)))" by (auto simp: sent_def)
qed

lemma relay_ok_sent:
  assumes ok: "relay_ok alone rows seq msgs" and held: "alone \<longrightarrow> held = []"
  shows "relay_ok alone rows seq (msgs @ map message_of (take m (pending_rows held batch delivered rows)))"
proof -
  define pend where "pend = pending_rows held batch delivered rows"
  have "in_order rows (take i (msgs @ map message_of (take m pend)))" if "alone" for i
  proof (cases "i \<le> length msgs")
    case True
    then show ?thesis using ok that by (simp add: relay_ok_def)
  next
    case False
    then have "take i (msgs @ map message_of (take m pend)) = msgs @ map message_of (take (min (i - length msgs) m) pend)"
      by (simp add: take_map)
    then show ?thesis using in_order_sent ok held that unfolding pend_def by simp
  qed
  moreover have "set (map message_of (take m pend)) \<subseteq> message_of ` set rows"
    using pending_sub [of held batch delivered rows] unfolding pend_def by (auto dest: in_set_takeD)
  ultimately show ?thesis using ok unfolding relay_ok_def pend_def [symmetric] by auto
qed

lemma relay_step_ok:
  assumes "relay_step alone s s'" "relay_ok alone (t_outbox (w_db (fst s))) (w_outbox_seq (fst s)) (k_log (snd s))"
  shows "relay_ok alone (t_outbox (w_db (fst s'))) (w_outbox_seq (fst s')) (k_log (snd s'))"
  using assms
proof (induction rule: relay_step.induct)
  case (append_events evs w r w' k)
  then show ?case using relay_ok_grows [OF _ do_append_grows] by simp
next
  case (relay_round held batch delivered s r s')
  obtain w k w' k' where s: "s = (w, k)" "s' = (w', k')" by fastforce
  define pend where "pend = pending_rows held batch delivered (t_outbox (w_db w))"
  obtain n m where r: "w_outbox_seq w' = w_outbox_seq w" "n \<le> m" "k_log k' = k_log k @ map message_of (take m pend)"
    "t_outbox (w_db w') = t_outbox (w_db w) \<or> t_outbox (w_db w') = mark_published (map ob_id (take n pend)) (t_outbox (w_db w))"
    using publishBatch_spec [OF relay_round(1) [unfolded s]] unfolding pend_def by blast
  have ok: "relay_ok alone (t_outbox (w_db w)) (w_outbox_seq w) (k_log k')"
    unfolding r(3) pend_def by (rule relay_ok_sent) (use relay_round(2,3) s in auto)
  have "message_of x \<in> set (k_log k')" if x: "x \<in> set (t_outbox (w_db w))" "ob_id x \<in> set (map ob_id (take n pend))" for x
  proof -
    obtain z where z: "z \<in> set (take n pend)" "ob_id z = ob_id x" using x(2) by auto
    have "z \<in> set (t_outbox (w_db w))" using in_set_takeD [OF z(1)] pending_sub unfolding pend_def by blast
    moreover have "inj_on ob_id (set (t_outbox (w_db w)))" using ok by (simp add: relay_ok_def distinct_map)
    ultimately have "z = x" using z(2) x(1) by (simp add: inj_on_eq_iff)
    moreover have "z \<in> set (take m pend)" by (rule subsetD [OF set_take_subset_set_take [OF r(2)] z(1)])
    ultimately show ?thesis unfolding r(3) by auto
  qed
  then show ?case using r(4) relay_ok_mark [OF ok] ok unfolding s fst_conv snd_conv r(1) by metis
qed

lemma relay_reach_ok:
  assumes "relay_reach alone s0 s" "t_outbox (w_db (fst s0)) = []" "k_log (snd s0) = []"
  shows "relay_ok alone (t_outbox (w_db (fst s))) (w_outbox_seq (fst s)) (k_log (snd s))"
  using assms
proof (induction rule: relay_reach.induct)
  case relay_start
  then show ?case by (simp add: relay_ok_def event_ids_def in_order_def)
next
  case (relay_next s s')
  then show ?case using relay_step_ok by blast
qed


section \<open>The relay catches up\<close>

definition backlog :: "outbox_row list \<Rightarrow> nat" where
  "backlog rows = length (filter (\<lambda>x. \<not> ob_published x) rows)"

lemma round_progress:
  assumes run: "publishBatch [] batch batch (w, k) = (r, w', k')" and up: "k_ends k = (\<lambda>_. Acked)" "w_faults w = (\<lambda>_. None)"
    and ids: "distinct (map ob_id (t_outbox (w_db w)))"
  shows "k_ends k' = (\<lambda>_. Acked) \<and> w_faults w' = (\<lambda>_. None) \<and> distinct (map ob_id (t_outbox (w_db w')))
    \<and> backlog (t_outbox (w_db w')) = backlog (t_outbox (w_db w)) - batch"
proof -
  define rows where "rows = t_outbox (w_db w)"
  define xs where "xs = sort_key ob_id (filter (\<lambda>x. \<not> ob_published x) rows)"
  have pend: "pending_rows [] batch batch rows = take batch xs" by (simp add: pending_rows_def xs_def)
  obtain ids k1 where loop: "publish_loop (take batch xs) k = (ids, k1)" by fastforce
  have spec: "k_ends k1 = k_ends k" "ids = map ob_id (take batch xs)" using publish_loop_spec [OF loop] up(1) by auto
  have res: "t_outbox (w_db w') = mark_published ids rows \<and> k_ends k' = k_ends k \<and> w_faults w' = w_faults w"
  proof (cases "take batch xs = []")
    case True
    then have "mark_published ids rows = rows" unfolding spec(2) mark_published_def by (simp only: True) simp
    then show ?thesis using run up True
      by (auto simp: publishBatch_def stmt_def query_def pend [unfolded rows_def] rows_def)
  next
    case False
    then have "ids \<noteq> []" using spec(2) by simp
    then show ?thesis using run up False loop spec(1)
      by (auto simp: publishBatch_def stmt_def query_def exec_def pend [unfolded rows_def] rows_def min_def split: if_splits)
  qed
  have same: "map ob_id (mark_published ids rows) = map ob_id rows" by (simp add: mark_published_def)
  have "backlog (mark_published ids rows) = length (filter (\<lambda>x. \<not> ob_published x \<and> ob_id x \<notin> set ids) rows)"
    unfolding backlog_def mark_published_def filter_map length_map by (rule arg_cong [of _ _ length], rule filter_cong) auto
  also have "\<dots> = length (filter (\<lambda>x. ob_id x \<notin> set ids) xs)"
    by (simp add: xs_def filter_sort conj_commute)
  also have "\<dots> = length (drop batch xs)"
  proof -
    have "distinct (map ob_id xs)" using ids by (simp add: xs_def rows_def distinct_map inj_on_def)
    then have "\<forall>x \<in> set (take batch xs). \<forall>y \<in> set (drop batch xs). ob_id x \<noteq> ob_id y"
      using append_take_drop_id [of batch xs] by (metis disjoint_iff distinct_append image_eqI list.set_map map_append)
    then have "filter (\<lambda>x. ob_id x \<notin> set ids) (drop batch xs) = drop batch xs"
      unfolding spec(2) set_map by (intro filter_True) (metis imageE)
    moreover have "filter (\<lambda>x. ob_id x \<notin> set ids) (take batch xs) = []"
      unfolding spec(2) by (auto simp: filter_empty_conv)
    ultimately show ?thesis using append_take_drop_id [of batch xs] filter_append by (metis append_Nil)
  qed
  also have "\<dots> = backlog rows - batch" by (simp add: backlog_def xs_def)
  finally show ?thesis using res same ids up by (simp add: rows_def)
qed

lemma rounds_backlog:
  assumes "k_ends k = (\<lambda>_. Acked)" "w_faults w = (\<lambda>_. None)" "distinct (map ob_id (t_outbox (w_db w)))"
    and "length (filter (\<lambda>x. \<not> ob_published x) (t_outbox (w_db w))) \<le> n * batch"
  shows "list_all ob_published (t_outbox (w_db (fst (relay_rounds batch (replicate n ([], batch)) (w, k)))))"
proof -
  have "backlog (t_outbox (w_db (fst (relay_rounds batch (replicate n ([], batch)) (w, k)))))
      = backlog (t_outbox (w_db w)) - n * batch"
    using assms(1-3)
  proof (induction n arbitrary: w k)
    case (Suc n)
    obtain r w' k' where run: "publishBatch [] batch batch (w, k) = (r, w', k')" by (metis prod.exhaust)
    show ?case using Suc.IH [of k' w'] round_progress [OF run Suc.prems] by (simp add: run)
  qed simp
  then have "backlog (t_outbox (w_db (fst (relay_rounds batch (replicate n ([], batch)) (w, k))))) = 0"
    using assms(4) by (simp add: backlog_def)
  then show ?thesis unfolding backlog_def length_0_conv filter_empty_conv list_all_iff by blast
qed

text \<open>C16: while broker and database work and no other relay holds rows, the relay catches up: rounds of
  \<open>batch\<close> rows publish \<open>batch\<close> rows each, so after as many rounds as the backlog needs no event
  is left unpublished.\<close>

theorem relay_catches_up:
  assumes "k_ends k = (\<lambda>_. Acked)" "w_faults w = (\<lambda>_. None)" "distinct (map ob_id (t_outbox (w_db w)))"
    and "length (filter (\<lambda>x. \<not> ob_published x) (t_outbox (w_db w))) \<le> n * batch"
  shows "list_all ob_published (t_outbox (w_db (fst (relay_rounds batch (replicate n ([], batch)) (w, k)))))"
  using rounds_backlog [OF assms] .

section \<open>Consuming\<close>

text \<open>
  A handler of messages works on some state \<open>'w\<close>. \<open>stopped n\<close>: the context is done while the
  consumer waits after its \<open>n\<close>-th attempt. The errors' texts are \<open>text\<close>.
\<close>

datatype process_end = Handled | Stopped | Dead_letter go_error

definition maxAttempts :: nat where
  "maxAttempts = 5"

text \<open>The wait after an attempt, in milliseconds.\<close>

definition backoff :: "nat \<Rightarrow> nat" where
  "backoff attempt = 200 * 2 ^ attempt"

fun header_value :: "(string \<times> string) list \<Rightarrow> string \<Rightarrow> string" where
  "header_value [] key = ''''"
| "header_value (h # hs) key = (if fst h = key then snd h else header_value hs key)"

definition event_type :: "message \<Rightarrow> string" where
  "event_type m = (if header_value (ms_Headers m) ''event_type'' = '''' then ms_Topic m
                   else header_value (ms_Headers m) ''event_type'')"

text \<open>The loop over the attempts; \<open>fuel\<close> counts the ones left. It returns the waits it made.\<close>

fun attempt_loop ::
  "nat \<Rightarrow> nat \<Rightarrow> ('w \<Rightarrow> unit result \<times> 'w) \<Rightarrow> (nat \<Rightarrow> bool) \<Rightarrow> go_error option \<Rightarrow> 'w \<Rightarrow> process_end \<times> nat list \<times> 'w" where
  "attempt_loop 0 attempt handler stopped lastErr w =
     (Dead_letter (case lastErr of Some e \<Rightarrow> e | None \<Rightarrow> ErrorString ''''), [], w)"
| "attempt_loop (Suc fuel) attempt handler stopped lastErr w =
     (case handler w of
        (Inr _, w') \<Rightarrow> (Handled, [], w')
      | (Inl e, w') \<Rightarrow>
          if IsPermanent e then (Dead_letter e, [], w')
          else if stopped attempt then (Stopped, [backoff attempt], w')
          else (case attempt_loop fuel (attempt + 1) handler stopped (Some e) w' of
                  (r, waits, w'') \<Rightarrow> (r, backoff attempt # waits, w'')))"

definition dead_message :: "(go_error \<Rightarrow> string) \<Rightarrow> message \<Rightarrow> go_error \<Rightarrow> message" where
  "dead_message text m e = m\<lparr>ms_Topic := ms_Topic m @ ''.dlq'', ms_Headers := ms_Headers m @ [(''error'', text e)]\<rparr>"

text \<open>One message; an error of the dead-letter queue itself is only logged.\<close>

definition process_message ::
  "(go_error \<Rightarrow> string) \<Rightarrow> (string \<Rightarrow> event \<Rightarrow> 'w \<Rightarrow> unit result \<times> 'w) \<Rightarrow> (nat \<Rightarrow> bool) \<Rightarrow> message
   \<Rightarrow> 'w \<times> kafka \<Rightarrow> process_end \<times> 'w \<times> kafka" where
  "process_message text handler stopped m s =
     (case s of (w, dlq) \<Rightarrow>
        case attempt_loop maxAttempts 1 (handler (event_type m) (ms_Value m)) stopped None w of
          (Dead_letter e, waits, w') \<Rightarrow> (Dead_letter e, w', snd (WriteMessages (dead_message text m e) dlq))
        | (r, waits, w') \<Rightarrow> (r, w', dlq))"

text \<open>
  \<open>Run\<close> over the messages it fetches, from \<open>offset\<close> on: each is processed and then committed
  (\<open>commits n\<close>: whether the commit of the \<open>n\<close>-th one arrives; an error is only logged). The
  result has the committed offset.
\<close>

fun consume ::
  "(go_error \<Rightarrow> string) \<Rightarrow> (string \<Rightarrow> event \<Rightarrow> 'w \<Rightarrow> unit result \<times> 'w) \<Rightarrow> (nat \<Rightarrow> bool) \<Rightarrow> nat \<Rightarrow> nat \<Rightarrow> message list
   \<Rightarrow> 'w \<times> kafka \<Rightarrow> nat \<times> 'w \<times> kafka" where
  "consume text handler commits offset committed [] s = (committed, s)"
| "consume text handler commits offset committed (m # ms) s =
     (case process_message text handler (\<lambda>_. False) m s of (_, s') \<Rightarrow>
        consume text handler commits (offset + 1) (if commits offset then offset + 1 else committed) ms s')"

text \<open>The state after \<open>n\<close> calls of the handler, whatever they answer.\<close>

definition after_calls :: "('w \<Rightarrow> unit result \<times> 'w) \<Rightarrow> nat \<Rightarrow> 'w \<Rightarrow> 'w" where
  "after_calls handler n w = ((\<lambda>w. snd (handler w)) ^^ n) w"

definition answer :: "('w \<Rightarrow> unit result \<times> 'w) \<Rightarrow> nat \<Rightarrow> 'w \<Rightarrow> unit result" where
  "answer handler n w = fst (handler (after_calls handler n w))"

lemma after_calls_Suc: "after_calls handler (Suc n) w = after_calls handler n (snd (handler w))"
  unfolding after_calls_def funpow_Suc_right by simp

lemma answer_Suc: "answer handler (Suc n) w = answer handler n (snd (handler w))"
  by (simp add: answer_def after_calls_Suc)

definition transient :: "unit result \<Rightarrow> bool" where
  "transient r = (case r of Inl e \<Rightarrow> \<not> IsPermanent e | Inr _ \<Rightarrow> False)"

text \<open>How \<open>n\<close> calls of the handler end.\<close>

definition attempts_end ::
  "('w \<Rightarrow> unit result \<times> 'w) \<Rightarrow> (nat \<Rightarrow> bool) \<Rightarrow> nat \<Rightarrow> nat \<Rightarrow> go_error option \<Rightarrow> nat \<Rightarrow> process_end \<Rightarrow> 'w \<Rightarrow> bool" where
  "attempts_end handler stopped fuel attempt lastErr n r w \<longleftrightarrow>
     (case r of
        Handled \<Rightarrow> 0 < n \<and> answer handler (n - 1) w = Inr ()
      | Stopped \<Rightarrow> 0 < n \<and> transient (answer handler (n - 1) w) \<and> stopped (attempt + n - 1)
      | Dead_letter e \<Rightarrow> (n = 0 \<and> fuel = 0 \<and> (case lastErr of Some e' \<Rightarrow> e = e' | None \<Rightarrow> True))
          \<or> (0 < n \<and> answer handler (n - 1) w = Inl e \<and> (IsPermanent e \<or> n = fuel)))"

lemma attempt_loop_ends:
  "attempt_loop fuel attempt handler stopped lastErr w = (r, waits, w') \<Longrightarrow>
     \<exists>n \<le> fuel. w' = after_calls handler n w
       \<and> (\<forall>i. i + 1 < n \<longrightarrow> transient (answer handler i w))
       \<and> length waits \<le> n \<and> waits = map backoff [attempt..<attempt + length waits]
       \<and> attempts_end handler stopped fuel attempt lastErr n r w"
proof (induction fuel arbitrary: attempt lastErr w r waits w')
  case 0
  then show ?case by (auto simp: attempts_end_def after_calls_def split: option.splits)
next
  case (Suc fuel)
  obtain a w1 where call: "handler w = (a, w1)" by fastforce
  have first: "answer handler 0 w = a" "after_calls handler 1 w = w1" by (simp_all add: answer_def after_calls_def call)
  show ?case
  proof (cases a)
    case (Inr x)
    then show ?thesis using Suc.prems first by (intro exI [of _ 1]) (auto simp: attempts_end_def call)
  next
    case (Inl e)
    consider "IsPermanent e" | "\<not> IsPermanent e" "stopped attempt" | "\<not> IsPermanent e" "\<not> stopped attempt" by blast
    then show ?thesis
    proof cases
      case 1
      then show ?thesis using Suc.prems first Inl by (intro exI [of _ 1]) (auto simp: attempts_end_def call)
    next
      case 2
      then show ?thesis using Suc.prems first Inl by (intro exI [of _ 1]) (auto simp: attempts_end_def call transient_def)
    next
      case 3
      obtain r1 waits1 w2 where rec: "attempt_loop fuel (attempt + 1) handler stopped (Some e) w1 = (r1, waits1, w2)"
        using prod_cases3 by blast
      have res: "r = r1" "waits = backoff attempt # waits1" "w' = w2" using Suc.prems 3 Inl rec by (simp_all add: call)
      obtain n where n: "n \<le> fuel" "w' = after_calls handler n w1" "\<forall>i. i + 1 < n \<longrightarrow> transient (answer handler i w1)"
        "length waits1 \<le> n" "waits1 = map backoff [attempt + 1..<attempt + 1 + length waits1]"
        "attempts_end handler stopped fuel (attempt + 1) (Some e) n r w1"
        using Suc.IH [OF rec] unfolding res by blast
      have shift: "answer handler (Suc i) w = answer handler i w1" "after_calls handler (Suc i) w = after_calls handler i w1" for i
        by (simp_all add: answer_Suc after_calls_Suc call)
      have "transient (answer handler i w)" if "i + 1 < Suc n" for i
        using that n(3) 3 first(1) Inl shift(1) by (cases i) (auto simp: transient_def)
      moreover have "waits = map backoff [attempt..<attempt + length waits]"
        using n(5) unfolding res(2) by (simp add: upt_rec)
      moreover have "attempts_end handler stopped (Suc fuel) attempt lastErr (Suc n) r w"
        using n(6) shift first(1) Inl by (cases n) (auto simp: attempts_end_def split: process_end.splits)
      ultimately show ?thesis using n(1,2,4) res(2) shift by (intro exI [of _ "Suc n"]) auto
    qed
  qed
qed

lemmas attempt_loop_spec = attempt_loop_ends [unfolded attempts_end_def]

lemma never_stopped: "process_message text h (\<lambda>_. False) m s = (r, s') \<Longrightarrow> r \<noteq> Stopped"
proof
  assume run: "process_message text h (\<lambda>_. False) m s = (r, s')" and "r = Stopped"
  then obtain x waits where "attempt_loop maxAttempts 1 (h (event_type m) (ms_Value m)) (\<lambda>_. False) None (fst s) = (Stopped, waits, x)"
    by (auto simp: process_message_def split: prod.splits process_end.splits)
  then show False using attempt_loop_spec by force
qed

text \<open>C27: a message's handler is called at most five times, again only after a transient error, and
  the calls end in one of three ways: the last one succeeded; or it failed for good (a
  permanent error, or the fifth transient one) and the message goes to the topic's
  dead-letter queue, unless that write fails, with its key and value and the last error; or
  the consumer is stopped while it waits. So no message is dropped silently before.\<close>

theorem message_processed:
  assumes "process_message text handler stopped m (w, dlq) = (r, w', dlq')"
  defines "h \<equiv> handler (event_type m) (ms_Value m)"
  shows "\<exists>n. 1 \<le> n \<and> n \<le> 5 \<and> w' = after_calls h n w
    \<and> list_all (\<lambda>i. transient (answer h i w)) [0..<n - 1]
    \<and> (case r of
         Handled \<Rightarrow> answer h (n - 1) w = Inr () \<and> dlq' = dlq
       | Stopped \<Rightarrow> transient (answer h (n - 1) w) \<and> stopped n \<and> dlq' = dlq
       | Dead_letter e \<Rightarrow> answer h (n - 1) w = Inl e \<and> (if IsPermanent e then True else n = 5)
           \<and> (case k_ends dlq (k_writes dlq) of
                Acked \<Rightarrow> k_log dlq' = k_log dlq @ [m\<lparr>ms_Topic := ms_Topic m @ ''.dlq'', ms_Headers := ms_Headers m @ [(''error'', text e)]\<rparr>]
              | Unsure _ _ \<Rightarrow> True))"
proof -
  obtain r1 waits w1 where loop: "attempt_loop maxAttempts 1 h stopped None w = (r1, waits, w1)"
    using prod_cases3 by blast
  obtain n where n: "n \<le> maxAttempts" "w1 = after_calls h n w" "\<forall>i. i + 1 < n \<longrightarrow> transient (answer h i w)"
    "case r1 of
            Handled \<Rightarrow> 0 < n \<and> answer h (n - 1) w = Inr ()
          | Stopped \<Rightarrow> 0 < n \<and> transient (answer h (n - 1) w) \<and> stopped (1 + n - 1)
          | Dead_letter e \<Rightarrow> (n = 0 \<and> maxAttempts = 0 \<and> (case None of Some e' \<Rightarrow> e = e' | None \<Rightarrow> True))
              \<or> (0 < n \<and> answer h (n - 1) w = Inl e \<and> (IsPermanent e \<or> n = maxAttempts))"
    using attempt_loop_spec [OF loop] by blast
  have res: "r = r1 \<and> w' = w1 \<and> (case r1 of Dead_letter e \<Rightarrow> dlq' = snd (WriteMessages (dead_message text m e) dlq) | _ \<Rightarrow> dlq' = dlq)"
    using assms(1) loop unfolding h_def by (auto simp: process_message_def split: process_end.splits)
  have "0 < n" using n(4) by (cases r1) (auto simp: maxAttempts_def)
  moreover have "list_all (\<lambda>i. transient (answer h i w)) [0..<n - 1]" using n(3) by (auto simp: list_all_iff)
  ultimately show ?thesis
    using res n by (intro exI [of _ n])
      (cases r1, auto simp: maxAttempts_def WriteMessages_def dead_message_def Let_def split: write_end.splits)
qed

text \<open>The waits of one message sum up to at most 12.4 seconds.\<close>

lemma waits_bounded:
  assumes "attempt_loop maxAttempts 1 h stopped None w = (r, waits, w')"
  shows "sum_list waits \<le> 12400"
proof -
  obtain n where n: "n \<le> 5" "length waits \<le> n" "waits = map backoff [1..<1 + length waits]"
    using attempt_loop_spec [OF assms] unfolding maxAttempts_def by blast
  have "sum_list waits = (\<Sum>i\<leftarrow>[1..<1 + length waits]. backoff i)" using n(3) by simp
  also have "\<dots> \<le> (\<Sum>i\<leftarrow>[1..<6]. backoff i)"
  proof -
    have "[1..<6] = [1..<1 + length waits] @ [1 + length waits..<6]"
      using n(1,2) upt_add_eq_append [of 1 "1 + length waits" "5 - length waits"] by simp
    then show ?thesis by (metis le_add1 map_append sum_list_append)
  qed
  also have "\<dots> = 12400" by (simp add: backoff_def upt_rec)
  finally show ?thesis .
qed

section \<open>A sample run\<close>

definition sample_event :: event where
  "sample_event = TxEvent (TransactionCaptured (NewBaseEvent ''9'' ''transaction.captured'' ''tx_7'' 8) ''m_1'' 100000 Credit 3 ''VISA'' 7)"

definition sample_kafka :: kafka where
  "sample_kafka = \<lparr>k_log = [], k_writes = 0, k_ends = (\<lambda>_. Acked)\<rparr>"

definition sample_outbox :: outbox_row where
  "sample_outbox = \<lparr>ob_id = 1, ob_event = sample_event, ob_published = False\<rparr>"

definition sample_appended :: world where
  "sample_appended = sample_world\<lparr>w_stmts := 3, w_outbox_seq := 2, w_db := sample_tables\<lparr>t_outbox := [sample_outbox]\<rparr>\<rparr>"

lemma sample_append: "Do (outbox_Append [TxEvent e]) sample_world
    = (Inr (), sample_world\<lparr>w_stmts := 3, w_outbox_seq := 2,
        w_db := sample_tables\<lparr>t_outbox := [\<lparr>ob_id = 1, ob_event = TxEvent e, ob_published = False\<rparr>]\<rparr>\<rparr>)"
  by (simp add: Do_def wrap_def stmt_def mbind_def insert_row_def sample_world_def sample_tables_def)

lemma sample_round:
  "publishBatch [] 10 10 (sample_appended, sample_kafka)
   = ((1, None), sample_appended\<lparr>w_stmts := 7, w_db := sample_tables\<lparr>t_outbox := [sample_outbox\<lparr>ob_published := True\<rparr>]\<rparr>\<rparr>,
      sample_kafka\<lparr>k_log := [message_of sample_outbox], k_writes := 1\<rparr>)"
  by (simp add: publishBatch_def stmt_def query_def exec_def pending_rows_def mark_published_def sample_appended_def
      sample_world_def sample_outbox_def sample_kafka_def publish_row_def Publish_def WriteMessages_def message_of_def)


theorem relay_catches_up_witness:
  "list_all ob_published (t_outbox (w_db (fst (relay_rounds 1 (replicate 1 ([], 1)) (sample_appended, sample_kafka)))))
   \<and> \<not> list_all ob_published (t_outbox (w_db sample_appended))"
  using relay_catches_up [of sample_kafka sample_appended 1 1]
  by (simp add: sample_kafka_def sample_appended_def sample_world_def sample_outbox_def)

text \<open>A handler that fails twice before it succeeds.\<close>

definition flaky :: "string \<Rightarrow> event \<Rightarrow> nat \<Rightarrow> unit result \<times> nat" where
  "flaky ty ev n = (if n < 2 then Inl (ErrorString ''busy'') else Inr (), n + 1)"

theorem message_processed_witness:
  "\<exists>r w dlq. process_message (\<lambda>_. []) flaky (\<lambda>_. False) (message_of sample_outbox) (0, sample_kafka) = (r, w, dlq)
     \<and> (\<exists>n. 1 \<le> n \<and> n \<le> 5 \<and> w = after_calls (flaky (event_type (message_of sample_outbox)) (ms_Value (message_of sample_outbox))) n 0)
     \<and> r = Handled \<and> w = 3"
proof -
  have run: "process_message (\<lambda>_. []) flaky (\<lambda>_. False) (message_of sample_outbox) (0, sample_kafka) = (Handled, 3, sample_kafka)"
    by (simp add: process_message_def maxAttempts_def numeral_eq_Suc flaky_def)
  from message_processed [OF this] show ?thesis using run by blast
qed

end
