(* ===== verification/Daily_Settlement.thy ===== *)
theory Daily_Settlement
  imports Outcomes
begin

text \<open>
  The daily settlement as a whole: when its loop ends, what it has paid when it does, and
  the lock around it.
\<close>

section \<open>What a batch does to the rows that are due\<close>

definition due_count :: "time \<Rightarrow> world \<Rightarrow> int" where
  "due_count day w = (\<Sum>r\<leftarrow>t_receivables (w_db w). of_bool (due_on (w_locked w) day r))"

definition bank_accepts :: "services \<Rightarrow> bool" where
  "bank_accepts sv \<longleftrightarrow> (\<forall>s. \<exists>ref. sv_send sv s = Inr ref)"

definition bank_refuses :: "services \<Rightarrow> bool" where
  "bank_refuses sv \<longleftrightarrow> (\<forall>s. \<exists>e. sv_send sv s = Inl e)"

lemma count_filter: "(\<Sum>r\<leftarrow>rs. of_bool (P r)) = int (length (filter P rs))"
  by (induction rs) auto

lemma due_count_length: "due_count day w = int (length (filter (due_on (w_locked w) day) (t_receivables (w_db w))))"
  unfolding due_count_def by (rule count_filter)

lemma later_settleMerchant: "runs world_later (settleMerchant sv day now mid rs rep)"
  unfolding settleMerchant_def send_to_bank_def by (intro frame)

text \<open>One merchant, its order accepted: its rows are no longer due, the others are as before.\<close>

lemma settle_merchant_progress:
  assumes run: "settleMerchant sv day0 now mid rs rep w = (Inr rep', w')" and sv: "bank_accepts sv"
    and ids: "distinct (map rcv_id (t_receivables (w_db w)))"
    and rows: "distinct rs" "set rs \<subseteq> set (t_receivables (w_db w))" "\<forall>r \<in> set rs. due_on (w_locked w) day r"
  shows "due_count day w' = due_count day w - int (length rs) \<and> w_locked w' = w_locked w
    \<and> map rcv_id (t_receivables (w_db w')) = map rcv_id (t_receivables (w_db w))
    \<and> set (t_receivables (w_db w)) - set rs \<subseteq> set (t_receivables (w_db w'))"
  using run
proof (cases rule: settleMerchant_cases)
  case (refused m liens uu s e)
  then show ?thesis using sv by (metis bank_accepts_def Inl_Inr_False)
next
  case (paid m liens uu s ref rs' w7 w8 uu'' u)
  have locked: "w_locked w' = w_locked w" using runsD [OF later_settleMerchant run] by (simp add: world_later_def)
  have same: "t_receivables (w_db w7) = t_receivables (w_db w)" using paid(4) by (simp add: same_books_def)
  have chg: "list_all2 changed_from rs rs'" unfolding settle_all_effect [OF paid(5)] by (rule settled_changed)
  define f :: "receivable \<Rightarrow> int" where "f = (\<lambda>r. of_bool (due_on (w_locked w) day r))"
  obtain rows' where rows': "w_db w8 = (w_db w7)\<lparr>t_receivables := rows'\<rparr>"
    "map rcv_id rows' = map rcv_id (t_receivables (w_db w))"
    "set rows' = (set (t_receivables (w_db w)) - set rs) \<union> set rs'"
    "(\<Sum>r\<leftarrow>rows'. f r) = (\<Sum>r\<leftarrow>t_receivables (w_db w). f r) - (\<Sum>r\<leftarrow>rs. f r) + (\<Sum>x\<leftarrow>rs'. f x)"
    using UpdateAll_effect [OF paid(6) _ chg rows(1), of f] ids rows(2) unfolding same by blast
  have "(\<Sum>r\<leftarrow>rs. f r) = int (length rs)" using rows(3) by (induction rs) (auto simp: f_def)
  moreover have "(\<Sum>x\<leftarrow>rs'. f x) = 0"
    unfolding settle_all_effect [OF paid(5)] by (induction rs) (auto simp: f_def due_on_def)
  ultimately have "due_count day w' = due_count day w - int (length rs)"
    using rows'(1,4) paid(7) locked by (simp add: due_count_def f_def)
  then show ?thesis using rows'(1-3) paid(7) locked by auto
qed

lemma settle_merchants_progress:
  "settle_merchants sv day0 now rs mids rep w = (Inr rep', w') \<Longrightarrow> bank_accepts sv \<Longrightarrow>
     distinct (map rcv_id (t_receivables (w_db w))) \<Longrightarrow> distinct mids \<Longrightarrow> distinct rs \<Longrightarrow>
     set (filter (\<lambda>r. rcv_merchantID r \<in> set mids) rs) \<subseteq> set (t_receivables (w_db w)) \<Longrightarrow>
     \<forall>r \<in> set rs. due_on (w_locked w) day r \<Longrightarrow>
     due_count day w' = due_count day w - int (length (filter (\<lambda>r. rcv_merchantID r \<in> set mids) rs))
     \<and> w_locked w' = w_locked w"
proof (induction mids arbitrary: w rep)
  case (Cons mid mids)
  define mine where "mine = filter (\<lambda>r. rcv_merchantID r = mid) rs"
  obtain rep1 w1 where 1: "settleMerchant sv day0 now mid mine rep w = (Inr rep1, w1)" and
    rest: "settle_merchants sv day0 now rs mids rep1 w1 = (Inr rep', w')"
    using Cons.prems(1) unfolding settle_merchants.simps mbind_Inr mine_def by blast
  have sel: "distinct mine" "set mine \<subseteq> set (t_receivables (w_db w))" "\<forall>r \<in> set mine. due_on (w_locked w) day r"
    using Cons.prems(5-7) by (auto simp: mine_def)
  note step = settle_merchant_progress [OF 1 Cons.prems(2,3) sel]
  have "set (filter (\<lambda>r. rcv_merchantID r \<in> set mids) rs) \<subseteq> set (t_receivables (w_db w)) - set mine"
    using Cons.prems(4,6) by (auto simp: mine_def)
  then have "due_count day w' = due_count day w1 - int (length (filter (\<lambda>r. rcv_merchantID r \<in> set mids) rs))
      \<and> w_locked w' = w_locked w1"
    using step Cons.prems(2-5,7) by (intro Cons.IH [OF rest]) auto
  moreover have "length (filter (\<lambda>r. rcv_merchantID r \<in> set (mid # mids)) rs)
      = length mine + length (filter (\<lambda>r. rcv_merchantID r \<in> set mids) rs)"
    using Cons.prems(4) unfolding mine_def by (induction rs) auto
  ultimately show ?case using step by simp
qed simp

section \<open>One batch\<close>

lemma batch_Inr:
  assumes "batch sv n day now rep w = (Inr (k, rep'), w')" "books_ok (w_db w)"
  obtains (idle) "k = 0" "rep' = rep" "w_db w' = w_db w" "w_effects w' = w_effects w" "w_locked w' = w_locked w"
      "0 < n \<Longrightarrow> due_count day w = 0"
    | (work) rs v v' where "k = length rs" "rs \<noteq> []" "distinct rs" "set rs \<subseteq> set (t_receivables (w_db w))"
      "\<forall>r \<in> set rs. due_on (w_locked w) day r"
      "settle_merchants sv day now rs (sv_order sv (remdups (map rcv_merchantID rs))) rep v = (Inr rep', v')"
      "w_db v = w_db w" "w_locked v = w_locked w" "w_effects v = w_effects w"
      "w_db w' = w_db v'" "w_locked w' = w_locked v'" "w_effects w' = w_effects v'"
proof -
  obtain v1 v3 where body: "batch_body sv n day now rep v1 = (Inr (k, rep'), v3)"
    and v: "v1 = w\<lparr>w_stmts := w_stmts w + 1\<rparr>" "w' = v3\<lparr>w_stmts := w_stmts v3 + 1\<rparr>"
    using assms(1) unfolding batch_def Do_Inr by blast
  obtain rs v2 where 1: "receivables_ListDueOnForUpdate day n v1 = (Inr rs, v2)" and
    rest: "(if length rs = 0 then ret (0, rep)
     else mbind (settle_merchants sv day now rs (sv_order sv (remdups (map rcv_merchantID rs))) rep)
       (\<lambda>rep'. ret (length rs, rep'))) v2 = (Inr (k, rep'), v3)"
    using body unfolding batch_body_def mbind_Inr by blast
  have ok: "books_ok (w_db v1)" using assms(2) v by simp
  note listed = ListDue_effect [OF 1 ok]
  have v2: "w_db v2 = w_db w" "w_locked v2 = w_locked w" "w_effects v2 = w_effects w"
    using listed(1) runsD [OF later.run_ListDue 1] runsD [OF quiet.run_ListDue 1] v
    by (simp_all add: world_later_def same_effects_def)
  show ?thesis
  proof (cases "length rs = 0")
    case True
    have "due_count day w = 0" if "0 < n"
    proof -
      have "take (nat n) (sort_key (\<lambda>r. (rcv_merchantID r, rcv_id r)) (filter (due_on (w_locked w) day) (t_receivables (w_db w)))) = []"
        using True 1 v by (auto simp: receivables_ListDueOnForUpdate_def receivables_list_def)
      then have "filter (due_on (w_locked w) day) (t_receivables (w_db w)) = []"
        using that by (metis length_0_conv length_sort nat_0_iff not_le take_eq_Nil)
      then show ?thesis unfolding due_count_length by simp
    qed
    then show ?thesis using idle True rest v v2 by auto
  next
    case False
    then have "settle_merchants sv day now rs (sv_order sv (remdups (map rcv_merchantID rs))) rep v2 = (Inr rep', v3)" "k = length rs"
      using rest by auto
    then show ?thesis using work [of rs v2 v3] False listed v v2 by simp
  qed
qed

lemma mids_ok:
  assumes "services_ok sv"
  shows "distinct (sv_order sv (remdups (map rcv_merchantID rs)))"
    and "set (sv_order sv (remdups (map rcv_merchantID rs))) = rcv_merchantID ` set rs"
  using assms by (auto simp: services_ok_def)

lemma batch_progress:
  assumes run: "batch sv n day now rep w = (Inr (k, rep'), w')" and sv: "services_ok sv" "bank_accepts sv"
    and ok: "books_ok (w_db w)"
  shows "due_count day w' = due_count day w - int k \<and> w_locked w' = w_locked w"
  using run ok
proof (cases rule: batch_Inr)
  case idle
  then show ?thesis by (simp add: due_count_def)
next
  case (work rs v v')
  have all: "filter (\<lambda>r. rcv_merchantID r \<in> set (sv_order sv (remdups (map rcv_merchantID rs)))) rs = rs"
    using mids_ok(2) [OF sv(1)] by (intro filter_True) auto
  have "due_count day v' = due_count day v - int (length rs) \<and> w_locked v' = w_locked v"
    using settle_merchants_progress [OF work(6) sv(2) _ mids_ok(1) [OF sv(1)] work(3), of day] all ok work(4,5,7,8)
    by (simp add: books_ok_def)
  moreover have "due_count day w' = due_count day v'" "due_count day v = due_count day w"
    using work(7,8,10,11) by (simp_all add: due_count_def)
  ultimately show ?thesis using work(1,8,11) by simp
qed

section \<open>The loop ends\<close>

lemma execute_loop_ends:
  "due_count day w < int fuel \<Longrightarrow> services_ok sv \<Longrightarrow> bank_accepts sv \<Longrightarrow> 0 < n \<Longrightarrow>
   books_ok (w_db w) \<Longrightarrow> within_range (w_db w) \<Longrightarrow>
   \<exists>r w'. execute_loop fuel sv n day clock rep w = Some (r, w')
     \<and> (case r of Inl e \<Rightarrow> True | Inr rep' \<Rightarrow> due_count day w' = 0 \<and> w_locked w' = w_locked w)"
proof (induction fuel arbitrary: rep w)
  case 0
  then show ?case by (simp add: due_count_length)
next
  case (Suc fuel)
  obtain r1 w1 where 1: "batch sv n day (clock (w_stmts w)) rep w = (r1, w1)" by fastforce
  show ?case
  proof (cases r1)
    case (Inl e)
    then show ?thesis by (simp add: 1)
  next
    case (Inr p)
    obtain k rep1 where p: "p = (k, rep1)" by fastforce
    have run: "batch sv n day (clock (w_stmts w)) rep w = (Inr (k, rep1), w1)" using 1 Inr p by simp
    note step = batch_progress [OF run Suc.prems(2,3,5)]
    show ?thesis
    proof (cases "k = 0")
      case True
      have "due_count day w = 0"
        using run Suc.prems(5) by (cases rule: batch_Inr) (use True Suc.prems(4) in auto)
      then show ?thesis using True step by (simp add: run)
    next
      case False
      have "due_count day w1 < int fuel" using step Suc.prems(1) False by simp
      then obtain r w' where "execute_loop fuel sv n day clock rep1 w1 = Some (r, w')"
        "case r of Inl e \<Rightarrow> True | Inr rep' \<Rightarrow> due_count day w' = 0 \<and> w_locked w' = w_locked w1"
        using Suc.IH Suc.prems(2-4) batch_books [OF run Suc.prems(2,5,6)] by blast
      then show ?thesis using False step by (auto simp: run split: sum.splits)
    qed
  qed
qed

lemma execute_loop_mono:
  "execute_loop fuel sv n day clock rep w = Some x \<Longrightarrow> fuel \<le> fuel' \<Longrightarrow> execute_loop fuel' sv n day clock rep w = Some x"
proof (induction fuel arbitrary: fuel' rep w)
  case (Suc fuel)
  obtain g where g: "fuel' = Suc g" "fuel \<le> g" using Suc.prems(2) by (cases fuel') auto
  show ?case using Suc.prems(1) Suc.IH [OF _ g(2)] unfolding g(1) by (auto split: prod.splits sum.splits if_splits)
qed simp

text \<open>The parts of \<open>Execute\<close> around the loop.\<close>

lemma SettleDue_cases:
  obtains (skipped) rep where "\<not> (IsBusinessDay cal (DateOnly date) \<and> acquire (lock_key (DateOnly date)) = Inr True)"
      "\<And>fuel. SettleDue_Execute fuel sv cal acquire n clock date w = Some (rep, w)"
      "\<forall>rep'. rep = Inr rep' \<longrightarrow> rep_Skipped rep' \<noteq> [] \<and> \<not> IsBusinessDay cal (DateOnly date)"
    | (ran) rep where "IsBusinessDay cal (DateOnly date)" "acquire (lock_key (DateOnly date)) = Inr True"
      "\<And>fuel. SettleDue_Execute fuel sv cal acquire n clock date w = (case execute_loop fuel sv n (DateOnly date) clock rep
              (w\<lparr>w_effects := w_effects w @ [LockTaken (lock_key (DateOnly date))]\<rparr>) of
            None \<Rightarrow> None
          | Some (r, w') \<Rightarrow> Some (r, w'\<lparr>w_effects := w_effects w' @ [LockReleased (lock_key (DateOnly date))]\<rparr>))"
      "rep_Paid rep = 0" "rep_Skipped rep = []"
proof (cases "IsBusinessDay cal (DateOnly date) \<and> acquire (lock_key (DateOnly date)) = Inr True")
  case True
  then show ?thesis by (intro ran) (auto simp: SettleDue_Execute_def Let_def split: option.splits)
next
  case False
  then show ?thesis
    by (cases "IsBusinessDay cal (DateOnly date)"; cases "acquire (lock_key (DateOnly date))")
      (auto simp: SettleDue_Execute_def Let_def intro!: skipped)
qed

lemma SettleDue_returns:
  assumes "acq_reach w0 w" "t_receivables (w_db w0) = []" "t_ledger (w_db w0) = []"
    and "services_ok sv" "bank_accepts sv" "0 < n" "within_range (w_db w)"
    and "fuel = Suc (length (filter (due_on (w_locked w) (DateOnly date)) (t_receivables (w_db w))))" "fuel \<le> fuel'"
  shows "\<exists>r w'. SettleDue_Execute fuel sv cal acquire n clock date w = Some (r, w')
    \<and> SettleDue_Execute fuel' sv cal acquire n clock date w = Some (r, w')
    \<and> (case r of Inl e \<Rightarrow> True
        | Inr rep \<Rightarrow>
            if IsBusinessDay cal (DateOnly date)
            then filter (due_on (w_locked w) (DateOnly date)) (t_receivables (w_db w')) = []
            else w' = w)"
proof -
  have ok: "books_ok (w_db w)" using acq_reach_books [OF assms(1)] books_ok_empty assms(2,3) by blast
  show ?thesis
  proof (cases rule: SettleDue_cases [of cal date acquire sv n clock w])
    case (skipped rep)
    then show ?thesis by (auto split: sum.splits)
  next
    case (ran rep)
    define w1 where "w1 = w\<lparr>w_effects := w_effects w @ [LockTaken (lock_key (DateOnly date))]\<rparr>"
    have "due_count (DateOnly date) w1 < int fuel"
      unfolding due_count_length assms(8) by (simp add: w1_def)
    then obtain r w' where loop: "execute_loop fuel sv n (DateOnly date) clock rep w1 = Some (r, w')" and
      due: "case r of Inl e \<Rightarrow> True | Inr rep' \<Rightarrow> due_count (DateOnly date) w' = 0 \<and> w_locked w' = w_locked w1"
      using execute_loop_ends [OF _ assms(4-6), of "DateOnly date" w1 fuel clock rep] ok assms(7) by (auto simp: w1_def)
    moreover have "execute_loop fuel' sv n (DateOnly date) clock rep w1 = Some (r, w')"
      by (rule execute_loop_mono [OF loop assms(9)])
    moreover have "case r of Inl e \<Rightarrow> True
        | Inr rep' \<Rightarrow> filter (due_on (w_locked w) (DateOnly date)) (t_receivables (w_db w')) = []"
      using due by (cases r) (auto simp: due_count_length w1_def)
    ultimately show ?thesis
      using ran(1) by (cases r) (simp_all add: ran(3) w1_def)
  qed
qed

text \<open>C3: the daily settlement returns: if the bank accepts every order, then one turn of its loop
  more than there are receivables due (and not locked elsewhere) is enough, whatever fails in the database; and if it returns a
  report on a business day, none of them is left to settle; on another day nothing changes. A larger fuel gives the same result.\<close>

theorem settlement_ends:
  assumes "acq_reach w0 w" "t_receivables (w_db w0) = []" "t_ledger (w_db w0) = []"
    and "services_ok sv" "bank_accepts sv" "0 < n" "within_range (w_db w)"
    and "fuel = Suc (length (filter (due_on (w_locked w) (DateOnly date)) (t_receivables (w_db w))))" "fuel \<le> fuel'"
  shows "\<exists>r w'. SettleDue_Execute fuel sv cal acquire n clock date w = Some (r, w')
    \<and> SettleDue_Execute fuel' sv cal acquire n clock date w = Some (r, w')
    \<and> (case r of Inl e \<Rightarrow> True
        | Inr rep \<Rightarrow>
            if IsBusinessDay cal (DateOnly date)
            then filter (due_on (w_locked w) (DateOnly date)) (t_receivables (w_db w')) = []
            else w' = w)"
  using SettleDue_returns [OF assms] .

lemma Schedule_due_midnight:
  "Schedule uu tx plan cal now = Inr rs \<Longrightarrow> r \<in> set rs \<Longrightarrow> DateOnly (rcv_dueDate r) = rcv_dueDate r"
  by (auto simp: Schedule_Inr newReceivable_def)

definition sample_services :: "string result \<Rightarrow> services" where
  "sample_services sent = \<lparr>sv_check_liens = \<lambda>_ _. Inr [], sv_send = \<lambda>s. sent, sv_error_text = \<lambda>_. [],
     sv_order = \<lambda>ids. ids\<rparr>"

lemma sample_services: "services_ok (sample_services sent)" "bank_accepts (sample_services (Inr ref))"
  "bank_refuses (sample_services (Inl e))"
  by (simp_all add: services_ok_def bank_accepts_def bank_refuses_def sample_services_def)

text \<open>The sample sale scheduled, and the day its first receivable falls due.\<close>

lemma due_world:
  obtains w day where "acq_reach idle_world w" "t_receivables (w_db idle_world) = []" "t_ledger (w_db idle_world) = []"
    "within_range (w_db w)" "sample_schedule ! 0 \<in> set (filter (due_on (w_locked w) (DateOnly day)) (t_receivables (w_db w)))"
    "\<And>day. Suc (length (filter (due_on (w_locked w) day) (t_receivables (w_db w)))) \<le> 4" 
    "IsBusinessDay BrazilCalendar (DateOnly day)"
proof -
  obtain w where run: "Scheduler_Handle (\<lambda>_. False) BrazilCalendar 8 ''transaction.captured'' (Some captured_event)
      idle_world = (Inr (), w)" "t_receivables (w_db w) = sample_schedule"
    using scheduled_run by blast
  have reach: "acq_reach idle_world w" by (rule acq_next [OF acq_refl acq_schedule [OF run(1)]])
  have empty: "t_receivables (w_db idle_world) = []" "t_ledger (w_db idle_world) = []" 
    by (simp_all add: idle_world_def start_world_def sample_world_def sample_tables_def)
  have locked: "w_locked w = []"
    using runsD [OF later_use_cases(5) run(1)] by (simp add: world_later_def idle_world_def start_world_def sample_world_def)
  have "(\<Sum>r\<leftarrow>sample_schedule. sint (rcv_net r)) = (\<Sum>n\<leftarrow>map rcv_net sample_schedule. sint n)" by (simp add: o_def)
  then have range: "within_range (w_db w)" by (simp add: within_range_def run(2) sample_nets)
  have three: "length sample_schedule = 3" using arg_cong [OF sample_nets, of length] by simp
  have small: "length (filter (due_on (w_locked w) day) (t_receivables (w_db w))) \<le> 3" for day
    using length_filter_le [of "due_on (w_locked w) day" sample_schedule] unfolding three run(2) .
  have fuel: "Suc (length (filter (due_on (w_locked w) day) (t_receivables (w_db w)))) \<le> 4" for day
    using small [of day] by arith
  define day where "day = rcv_dueDate (sample_schedule ! 0)"
  have mem: "sample_schedule ! 0 \<in> set sample_schedule" using three by (intro nth_mem) simp
  have same: "DateOnly day = day"
    unfolding day_def by (rule Schedule_due_midnight [OF sample_schedule mem])
  have "IsBusinessDay BrazilCalendar day"
    using brazil.schedule_due(1) [OF sample_schedule, of 7] mem by (simp add: day_def sample_tx_defs)
  moreover have "sample_schedule ! 0 \<in> set (filter (due_on (w_locked w) (DateOnly day)) (t_receivables (w_db w)))"
    using mem sample_schedule_facts [OF mem] by (simp add: due_on_def run(2) same, simp add: day_def locked)
  ultimately show ?thesis using that [of w day] reach empty range fuel same by simp
qed

theorem settlement_ends_witness:
  "\<exists>day w r w'. acq_reach idle_world w
     \<and> sample_schedule ! 0 \<in> set (filter (due_on (w_locked w) (DateOnly day)) (t_receivables (w_db w)))
     \<and> SettleDue_Execute 4 (sample_services (Inr ''ok'')) BrazilCalendar (\<lambda>_. Inr True) 10 (\<lambda>_. 9) day w = Some (r, w')"
proof -
  obtain w day where w: "acq_reach idle_world w" "t_receivables (w_db idle_world) = []" "t_ledger (w_db idle_world) = []"
    "within_range (w_db w)" "sample_schedule ! 0 \<in> set (filter (due_on (w_locked w) (DateOnly day)) (t_receivables (w_db w)))"
    "\<And>day. Suc (length (filter (due_on (w_locked w) day) (t_receivables (w_db w)))) \<le> 4"
    using due_world by metis
  show ?thesis
    using settlement_ends [OF w(1-3) sample_services(1,2) _ w(4) refl w(6)] w(1,5) by (metis zero_less_numeral)
qed

section \<open>What the report says\<close>

definition same_ledger :: "world \<Rightarrow> world \<Rightarrow> bool" where
  "same_ledger w w' \<longleftrightarrow> t_ledger (w_db w') = t_ledger (w_db w)"

interpretation ledgered: rollback_frame same_ledger
  by unfold_locales (auto simp: same_ledger_def)

lemma ledgered_UpdateAll: "runs same_ledger (receivables_UpdateAll xs)"
  by (induction xs; unfold receivables_UpdateAll.simps)
    (intro frame ledgered.run_exec | assumption | force simp: same_ledger_def split: prod.splits if_splits)+

definition orders_paid :: "settlement list \<Rightarrow> money" where
  "orders_paid ss = (\<Sum>s\<leftarrow>ss. stl_toMerchant s + stl_toCreditors s)"

text \<open>From one world to a later one the bank got the lots \<open>ss\<close> and the books paid them.\<close>

definition paid_lots :: "settlement list \<Rightarrow> report \<Rightarrow> report \<Rightarrow> world \<Rightarrow> world \<Rightarrow> bool" where
  "paid_lots ss rep rep' w w' \<longleftrightarrow> w_effects w' = w_effects w @ map BankFile ss
     \<and> rep_Paid rep' = rep_Paid rep + orders_paid ss
     \<and> ledger_balance PayableToMerchant [] (t_ledger (w_db w'))
         = ledger_balance PayableToMerchant [] (t_ledger (w_db w)) - orders_paid ss"

lemma paid_lots_trans:
  "paid_lots ss rep rep1 w w1 \<Longrightarrow> paid_lots ts rep1 rep' w1 w' \<Longrightarrow> paid_lots (ss @ ts) rep rep' w w'"
  by (simp add: paid_lots_def orders_paid_def)

lemma settlement_payable:
  "ledger_balance PayableToMerchant [] (ForSettlement uu s now) = - (stl_toMerchant s + stl_toCreditors s)"
  by (auto simp: ForSettlement_def Let_def ledger_balance_Cons entry_defs neg_eq_iff_add_eq_0)

lemma settle_merchant_paid:
  assumes run: "settleMerchant sv day now mid rs rep w = (Inr rep', w')"
  shows "\<exists>ss. paid_lots ss rep rep' w w'"
  using run
proof (cases rule: settleMerchant_cases)
  case (refused m liens uu s e)
  then have "paid_lots [] rep rep' w w'" by (simp add: paid_lots_def orders_paid_def same_books_def)
  then show ?thesis by blast
next
  case (paid m liens uu s ref rs' w7 w8 uu'' u)
  have "t_ledger (w_db w8) = t_ledger (w_db w)"
    using runsD [OF ledgered_UpdateAll paid(6)] paid(4) by (simp add: same_ledger_def same_books_def)
  then have "paid_lots [s] rep rep' w w'"
    using paid(7-10) by (simp add: paid_lots_def orders_paid_def settlement_payable)
  then show ?thesis by blast
qed

lemma settle_merchants_paid:
  "settle_merchants sv day now rs mids rep w = (Inr rep', w') \<Longrightarrow> \<exists>ss. paid_lots ss rep rep' w w'"
proof (induction mids arbitrary: w rep)
  case Nil
  then have "paid_lots [] rep rep' w w'" by (simp add: paid_lots_def orders_paid_def)
  then show ?case by blast
next
  case (Cons mid mids)
  then obtain rep1 w1 where "settleMerchant sv day now mid (filter (\<lambda>r. rcv_merchantID r = mid) rs) rep w = (Inr rep1, w1)"
    "settle_merchants sv day now rs mids rep1 w1 = (Inr rep', w')"
    unfolding settle_merchants.simps mbind_Inr by blast
  then obtain ss ts where "paid_lots ss rep rep1 w w1" "paid_lots ts rep1 rep' w1 w'"
    using settle_merchant_paid Cons.IH by meson
  then show ?case using paid_lots_trans by blast
qed

text \<open>Whatever the outcome, a batch sends lots to the bank and nothing else.\<close>

definition only_files :: "world \<Rightarrow> world \<Rightarrow> bool" where
  "only_files w w' \<longleftrightarrow> (\<exists>ss. w_effects w' = w_effects w @ map BankFile ss)"

lemma only_files_trans: "only_files w w' \<Longrightarrow> only_files w' w'' \<Longrightarrow> only_files w w''"
  by (auto simp: only_files_def) (metis map_append)

interpretation filed: outside_frame only_files
  by unfold_locales (auto simp: only_files_def intro: only_files_trans [unfolded only_files_def] exI [of _ "[]"])

lemma filed_send: "runs only_files (send_to_bank sv s)"
proof (rule runsI)
  fix w r w'
  assume "send_to_bank sv s w = (r, w')"
  then have "w_effects w' = w_effects w @ map BankFile [] \<or> w_effects w' = w_effects w @ map BankFile [s]"
    by (auto simp: send_to_bank_def effect_log_def mbind_def ret_simps split: sum.splits)
  then show "only_files w w'" unfolding only_files_def by blast
qed

lemma filed_batch: "runs only_files (batch sv n day now rep)"
proof -
  have one: "runs only_files (settleMerchant sv day now mid rs rep)" for mid rs rep
    unfolding settleMerchant_def by (intro frame filed_send)
  have "runs only_files (settle_merchants sv day now rs mids rep)" for rs mids rep
    by (induction mids arbitrary: rep; unfold settle_merchants.simps) (intro frame one | assumption)+
  then show ?thesis unfolding batch_def batch_body_def by (intro frame)
qed

lemma execute_loop_files: "execute_loop fuel sv n day clock rep w = Some (r, w') \<Longrightarrow> only_files w w'"
proof (induction fuel arbitrary: rep w)
  case (Suc fuel)
  obtain r1 w1 where 1: "batch sv n day (clock (w_stmts w)) rep w = (r1, w1)" by fastforce
  have "only_files w w1" by (rule runsD [OF filed_batch 1])
  then show ?case
    using Suc.prems Suc.IH only_files_trans by (auto simp: 1 split: sum.splits prod.splits if_splits)
qed simp

lemma execute_loop_paid:
  "execute_loop fuel sv n day clock rep w = Some (Inr rep', w') \<Longrightarrow> \<exists>ss. paid_lots ss rep rep' w w'"
proof (induction fuel arbitrary: rep w)
  case (Suc fuel)
  obtain r1 w1 where 1: "batch sv n day (clock (w_stmts w)) rep w = (r1, w1)" by fastforce
  obtain k rep1 where r1: "r1 = Inr (k, rep1)" using Suc.prems by (cases r1) (auto simp: 1)
  obtain v1 v3 where body: "batch_body sv n day (clock (w_stmts w)) rep v1 = (Inr (k, rep1), v3)"
    and v: "w_db v1 = w_db w" "w_effects v1 = w_effects w" "w_db w1 = w_db v3" "w_effects w1 = w_effects v3"
    using 1 unfolding r1 batch_def Do_Inr by fastforce
  obtain rs v2 where listed: "receivables_ListDueOnForUpdate day n v1 = (Inr rs, v2)" and
    rest: "(if length rs = 0 then ret (0, rep)
     else mbind (settle_merchants sv day (clock (w_stmts w)) rs (sv_order sv (remdups (map rcv_merchantID rs))) rep)
       (\<lambda>rep'. ret (length rs, rep'))) v2 = (Inr (k, rep1), v3)"
    using body unfolding batch_body_def mbind_Inr by blast
  have v2: "t_ledger (w_db v2) = t_ledger (w_db w)" "w_effects v2 = w_effects w"
    using runsD [OF plain.run_ListDue listed] runsD [OF quiet.run_ListDue listed] v
    by (simp_all add: same_books_def same_effects_def)
  obtain ss where ss: "paid_lots ss rep rep1 v2 v3"
  proof (cases "length rs = 0")
    case True
    then show ?thesis using rest that [of "[]"] by (simp add: paid_lots_def orders_paid_def)
  next
    case False
    then have "settle_merchants sv day (clock (w_stmts w)) rs (sv_order sv (remdups (map rcv_merchantID rs))) rep v2 = (Inr rep1, v3)"
      using rest by auto
    then show ?thesis using that settle_merchants_paid by blast
  qed
  then have step: "paid_lots ss rep rep1 w w1" using v v2 by (simp add: paid_lots_def)
  show ?case
  proof (cases "k = 0")
    case True
    then show ?thesis using Suc.prems step by (auto simp: 1 r1)
  next
    case False
    then have "execute_loop fuel sv n day clock rep1 w1 = Some (Inr rep', w')" using Suc.prems by (simp add: 1 r1)
    then show ?thesis using Suc.IH step paid_lots_trans by blast
  qed
qed simp



section \<open>A bank that refuses\<close>

lemma settle_merchants_refused:
  "settle_merchants sv day now rs mids rep w = (Inr rep', w') \<Longrightarrow> bank_refuses sv \<Longrightarrow> same_books w w'"
proof (induction mids arbitrary: w rep)
  case (Cons mid mids)
  then obtain rep1 w1 where 1: "settleMerchant sv day now mid (filter (\<lambda>r. rcv_merchantID r = mid) rs) rep w = (Inr rep1, w1)"
    and rest: "settle_merchants sv day now rs mids rep1 w1 = (Inr rep', w')"
    unfolding settle_merchants.simps mbind_Inr by blast
  from 1 have "same_books w w1"
  proof (cases rule: settleMerchant_cases)
    case paid
    then show ?thesis using Cons.prems(2) by (metis bank_refuses_def Inl_Inr_False)
  qed
  then show ?case using Cons.IH [OF rest Cons.prems(2)] plain.R_trans by blast
qed (simp add: same_books_def)

lemma execute_loop_refused:
  "execute_loop fuel sv n day clock rep w = Some (r, w') \<Longrightarrow> bank_refuses sv \<Longrightarrow> 0 < n \<Longrightarrow>
     books_ok (w_db w) \<Longrightarrow> due_count day w \<noteq> 0 \<Longrightarrow> \<exists>e. r = Inl e"
proof (induction fuel arbitrary: rep w)
  case (Suc fuel)
  obtain r1 w1 where 1: "batch sv n day (clock (w_stmts w)) rep w = (r1, w1)" by fastforce
  show ?case
  proof (cases r1)
    case (Inl e)
    then show ?thesis using Suc.prems(1) by (auto simp: 1)
  next
    case (Inr p)
    obtain k rep1 where p: "p = (k, rep1)" by fastforce
    have run: "batch sv n day (clock (w_stmts w)) rep w = (Inr (k, rep1), w1)" using 1 Inr p by simp
    from run Suc.prems(4) show ?thesis
    proof (cases rule: batch_Inr)
      case idle
      then show ?thesis using Suc.prems(3,5) by simp
    next
      case (work rs v v')
      have "same_books v v'" by (rule settle_merchants_refused [OF work(6) Suc.prems(2)])
      then have same: "t_receivables (w_db w1) = t_receivables (w_db w)" "t_ledger (w_db w1) = t_ledger (w_db w)"
        using work(7,10) by (simp_all add: same_books_def)
      have "w_locked w1 = w_locked w" using runsD [OF later_batch run] by (simp add: world_later_def)
      then have "due_count day w1 \<noteq> 0" using Suc.prems(5) same(1) by (simp add: due_count_def)
      moreover have "execute_loop fuel sv n day clock rep1 w1 = Some (r, w')" using Suc.prems(1) work(1,2) by (simp add: run)
      ultimately show ?thesis using Suc.IH Suc.prems(2,3) books_ok_cong [OF same Suc.prems(4)] by blast
    qed
  qed
qed simp



end
