(* ===== verification/Pipeline.thy ===== *)
theory Pipeline
  imports Messaging Daily_Settlement
begin

text \<open>
  From a committed sale to its receivables, across the processes: use cases write events into
  the outbox in the transaction that changes the sale, the relay publishes them, and the
  consumer of \<open>cmd/scheduler/main.go\<close> hands them to \<open>Scheduler_Handle\<close>. The state is the
  program's, Kafka's log and the position of the consumer in each partition; the steps
  interleave in any order, and each of them may fail at any statement. The theory shows that
  no captured sale is lost on the way.
\<close>

section \<open>What only grows\<close>

text \<open>Rows of the outbox and of the receivables are never deleted, and neither are marks of handled
  events: whatever runs, and wherever it rolls back.\<close>

definition sales :: "world \<Rightarrow> (string \<times> string) set" where
  "sales w = (\<lambda>r. (rcv_merchantID r, rcv_transactionID r)) ` set (t_receivables (w_db w))"

definition moves :: "world \<Rightarrow> world \<Rightarrow> bool" where
  "moves w w' \<longleftrightarrow> grows w w' \<and> sales w \<subseteq> sales w' \<and> set (t_processed (w_db w)) \<subseteq> set (t_processed (w_db w'))"

interpretation moving: rollback_frame moves
proof
  show "moves w w" for w by (simp add: moves_def grows_refl)
  show "moves w w' \<Longrightarrow> moves w' w'' \<Longrightarrow> moves w w''" for w w' w''
    unfolding moves_def using grows_trans by blast
  show "moves w (w\<lparr>w_stmts := w_stmts w + 1\<rparr>)" "moves w (w\<lparr>w_draws := w_draws w + 1\<rparr>)" "moves w (w\<lparr>w_nsu := w_nsu w + 1\<rparr>)" for w
    by (simp_all add: moves_def grows_refl sales_def)
  show "moves w w' \<Longrightarrow> moves w (w'\<lparr>w_db := w_db w\<rparr>)" for w w'
    by (auto simp: moves_def grows_def sales_def)
qed

lemma moves_quiet:
  assumes "t_outbox d = t_outbox (w_db w)" "t_processed d = t_processed (w_db w)"
    and "map (\<lambda>r. (rcv_merchantID r, rcv_transactionID r)) (t_receivables d)
      = map (\<lambda>r. (rcv_merchantID r, rcv_transactionID r)) (t_receivables (w_db w))"
  shows "moves w (w\<lparr>w_db := d\<rparr>)"
proof -
  have "sales (w\<lparr>w_db := d\<rparr>) = sales w"
    using arg_cong [OF assms(3), of set] by (simp add: sales_def)
  then show ?thesis using assms(1,2) by (simp add: moves_def grows_refl)
qed

lemma moving_effect [frame]: "runs moves (effect_log e)"
  by (simp add: runs_def effect_log_def moves_def grows_refl sales_def)

lemma moving_writes [frame]:
  "runs moves (merchants_Create m)" "runs moves (merchants_Update m)" "runs moves (transactions_Create t)"
  "runs moves (transactions_Update t)" "runs moves (settlements_Create s)" "runs moves (settlements_Update s)"
  "runs moves (anticipations_Create a)" "runs moves (chargebacks_Create c)" "runs moves (chargebacks_Update c)"
  unfolding merchants_Create_def merchants_Update_def transactions_Create_def transactions_Update_def
    settlements_Create_def settlements_Update_def anticipations_Create_def chargebacks_Create_def chargebacks_Update_def
  by (intro frame moving.run_exec; rule moves_quiet; force split: prod.splits if_splits)+

lemma moving_processed [frame]: "runs moves (processed_MarkIfNew consumer i)"
  unfolding processed_MarkIfNew_def
  by (intro frame moving.run_exec) (auto simp: moves_def grows_refl sales_def split: if_splits)

lemma moving_loops [frame]:
  "runs moves (receivables_SaveAll xs)" "runs moves (receivables_UpdateAll xs)" "runs moves (ledger_insert es)"
proof -
  show "runs moves (receivables_SaveAll xs)"
  proof (induction xs)
    case (Cons x xs)
    show ?case unfolding receivables_SaveAll.simps
      by (intro frame moving.run_exec Cons) (auto simp: moves_def grows_refl sales_def insert_row_def split: if_splits)
  qed (unfold receivables_SaveAll.simps, intro frame)
  show "runs moves (receivables_UpdateAll xs)"
  proof (induction xs)
    case (Cons x xs)
    show ?case unfolding receivables_UpdateAll.simps
      by (intro frame moving.run_exec Cons moves_quiet) (auto simp: update_version_def rcv_columns_def)
  qed (unfold receivables_UpdateAll.simps, intro frame)
  show "runs moves (ledger_insert es)"
  proof (induction es)
    case (Cons x xs)
    show ?case unfolding ledger_insert.simps
      by (intro frame moving.run_exec Cons moves_quiet) (force split: prod.splits)+
  qed (unfold ledger_insert.simps, intro frame)
qed

lemma moving_ledger [frame]: "runs moves (ledger_Append es)"
  unfolding ledger_Append_def by (intro frame)

lemma moving_outbox [frame]: "runs moves (outbox_Append evs)"
proof (rule runsI)
  fix w r w' assume run: "outbox_Append evs w = (r, w')"
  have kept: "same_books w w'" "keeps_processed w w'"
    using runsD [OF plain_outbox run] runsD [OF kept_outbox run] by simp_all
  then show "moves w w'"
    using runsD [OF append_grows run] by (simp add: moves_def sales_def same_books_def keeps_processed_def)
qed

text \<open>Every use case, and so every run of the program.\<close>

lemma moving_use_cases:
  "runs moves (Onboard_Execute parse now oc)" "runs moves (Review_change change i)"
  "runs moves (Authorize_Execute vault issuer rules now now' ac)" "runs moves (Lifecycle_change change' mid i)"
  "runs moves (Scheduler_Handle register cal now ty payload)" "runs moves (Anticipate_Simulate pv now mid ids)"
  "runs moves (Anticipate_Request check_liens transfer pv now mid ids)" "runs moves (Open_Execute now opc)"
  "runs moves (Notifier_Handle hmac send secret ty body decoded)" "runs moves (settleMerchant sv day now mid rs rep)"
  unfolding Onboard_Execute_def Review_change_def Authorize_Execute_def issuer_outcome_def store_body_def
    Lifecycle_change_def change_body_def Scheduler_Handle_def onCaptured_def captured_body_def
    onCanceled_def canceled_body_def Anticipate_Simulate_def Anticipate_Request_def request_body_def
    Open_Execute_def open_body_def settleMerchant_def send_to_bank_def
  by (intro frame)+

text \<open>The settlement's loops keep whatever the settlement of one merchant keeps.\<close>

context rollback_frame
begin

lemma run_batch:
  assumes "\<And>mid rs rep. runs R (settleMerchant sv day now mid rs rep)"
  shows "runs R (batch sv n day now rep)"
proof -
  have "runs R (settle_merchants sv day now rs mids rep)" for rs mids rep
    by (induction mids arbitrary: rep) (unfold settle_merchants.simps, (intro frame assms | assumption)+)
  then show ?thesis unfolding batch_def batch_body_def by (intro frame)
qed

lemma run_execute_loop:
  assumes "\<And>now mid rs rep. runs R (settleMerchant sv day now mid rs rep)"
  shows "execute_loop fuel sv n day clock rep w = Some (r, w') \<Longrightarrow> R w w'"
proof (induction fuel arbitrary: rep w)
  case (Suc fuel)
  obtain r1 w1 where 1: "batch sv n day (clock (w_stmts w)) rep w = (r1, w1)" by fastforce
  have "R w w1" using runsD [OF run_batch [OF assms] 1] .
  then show ?case using Suc R_trans by (cases r1) (auto simp: 1 split: if_splits prod.splits)
qed simp

lemma run_SettleDue:
  assumes "\<And>now mid rs rep. runs R (settleMerchant sv (DateOnly date) now mid rs rep)" "\<And>e. runs R (effect_log e)"
  shows "SettleDue_Execute fuel sv cal acquire n clock date w = Some (r, w') \<Longrightarrow> R w w'"
proof (rule SettleDue_cases [of cal date acquire sv n clock w])
  have log: "R w (w\<lparr>w_effects := w_effects w @ [e]\<rparr>)" for w e
    using assms(2) [of e] by (simp add: runs_def effect_log_def)
  fix rep assume run: "SettleDue_Execute fuel sv cal acquire n clock date w = Some (r, w')"
    and loop: "\<And>fuel. SettleDue_Execute fuel sv cal acquire n clock date w = (case execute_loop fuel sv n (DateOnly date) clock rep
        (w\<lparr>w_effects := w_effects w @ [LockTaken (lock_key (DateOnly date))]\<rparr>) of
          None \<Rightarrow> None
        | Some (r, w') \<Rightarrow> Some (r, w'\<lparr>w_effects := w_effects w' @ [LockReleased (lock_key (DateOnly date))]\<rparr>))"
  then obtain v where "execute_loop fuel sv n (DateOnly date) clock rep
      (w\<lparr>w_effects := w_effects w @ [LockTaken (lock_key (DateOnly date))]\<rparr>) = Some (r, v)"
      "w' = v\<lparr>w_effects := w_effects v @ [LockReleased (lock_key (DateOnly date))]\<rparr>"
    by (auto split: option.splits)
  then show "R w w'" using R_trans [OF R_trans [OF log run_execute_loop [OF assms(1)]] log] by simp
qed (auto simp: R_refl)

end

lemmas moving_SettleDue = moving.run_SettleDue [OF moving_use_cases(10) moving_effect]

lemma moving_step: "acq_step w w' \<Longrightarrow> moves w w'"
proof (induction rule: acq_step.induct)
  case (acq_settle fuel sv acquire n clock date w rr w')
  then show ?case using moving_SettleDue by blast
next
  case (acq_environment w' w faults locked)
  then show ?case by (simp add: moves_def grows_refl sales_def)
qed (unfold Review_Approve_def Review_Block_def Review_UpdateSettings_def Lifecycle_Capture_def Lifecycle_Cancel_def,
    (erule moving_use_cases [THEN runsD])+)

lemma moving_reach: "acq_reach w w' \<Longrightarrow> moves w w'"
  by (induction rule: acq_reach.induct) (auto intro: moving.R_refl moving.R_trans dest: moving_step)

section \<open>One delivery\<close>

text \<open>What a call of the scheduler leaves: the marks it adds, and what a mark stands for.\<close>

definition same_marks :: "world \<Rightarrow> world \<Rightarrow> bool" where
  "same_marks w w' \<longleftrightarrow> t_processed (w_db w') = t_processed (w_db w)"

interpretation marking: run_frame same_marks
  by unfold_locales (auto simp: same_marks_def)

lemma marking_effect [frame]: "runs same_marks (effect_log e)"
  by (simp add: runs_def effect_log_def same_marks_def)

lemma fresh_db: "fresh w = (Inr x, w') \<Longrightarrow> w_db w' = w_db w"
  by simp

lemma captured_run_effect:
  assumes "captured_body cal now ev w = (Inr rs, w')" "\<not> handled ev w"
  shows "t_processed (w_db w') = t_processed (w_db w) @ [(consumerName, ev_ID (te_base ev))]
    \<and> (te_merchant ev, ev_Aggregate (te_base ev)) \<in> sales w'"
proof -
  obtain isNew w1 where mark: "processed_MarkIfNew consumerName (ev_ID (te_base ev)) w = (Inr isNew, w1)"
    using assms(1) unfolding captured_body_def mbind_Inr by blast
  have "isNew" using processed_effect [OF mark] assms(2) by (simp add: handled_def)
  then have mark: "processed_MarkIfNew consumerName (ev_ID (te_base ev)) w = (Inr True, w1)" using mark by simp
  show ?thesis
    using assms(1) mark
  proof (cases rule: captured_body_new)
    case (1 tx w2 m w3 uu w4 w5 uu' w6 w7 uu'' w8 e)
    note db = processed_effect [OF mark] transactions_FindByID_effect [OF 1(1)] merchants_FindByID_effect [OF 1(2)]
      fresh_db [OF 1(3)] SaveAll_effect [OF 1(5)] fresh_db [OF 1(6)] ledger_Append_effect [OF 1(7)] fresh_db [OF 1(8)]
      outbox_effect [OF 1(10)]
    have "rs \<noteq> []" using 1(9) by (auto simp: NewReceivablesScheduled_def)
    then obtain r where r: "r \<in> set rs" by (meson list.set_sel(1))
    have "rcv_transactionID r = ev_Aggregate (te_base ev)" "rcv_merchantID r = te_merchant ev"
      using Schedule_members [OF 1(4) r] db(2) by simp_all
    moreover have "r \<in> set (t_receivables (w_db w'))" "t_processed (w_db w') = t_processed (w_db w1)"
      using db r by auto
    ultimately show ?thesis using db(1) by (force simp: sales_def)
  qed
qed

definition scheduler_topics :: "string list" where
  "scheduler_topics = [''transaction.captured'', ''transaction.canceled'']"

lemma marking_loops [frame]: "runs same_marks (receivables_UpdateAll xs)" "runs same_marks (ledger_Append es)"
proof -
  show "runs same_marks (receivables_UpdateAll xs)"
    by (induction xs; unfold receivables_UpdateAll.simps)
      (intro frame marking.run_exec | assumption | force simp: same_marks_def update_version_def split: prod.splits)+
  have "runs same_marks (ledger_insert es)" for es
    by (induction es; unfold ledger_insert.simps)
      (intro frame marking.run_exec | assumption | force simp: same_marks_def split: prod.splits)+
  then show "runs same_marks (ledger_Append es)" unfolding ledger_Append_def by (intro frame)
qed

lemma canceled_run_effect:
  assumes run: "canceled_body now ev w = (Inr u, w')" and new: "\<not> handled ev w"
  shows "t_processed (w_db w') = t_processed (w_db w) @ [(consumerName, ev_ID (te_base ev))]"
proof -
  obtain isNew w1 where 1: "processed_MarkIfNew consumerName (ev_ID (te_base ev)) w = (Inr isNew, w1)"
    using run unfolding canceled_body_def mbind_Inr by blast
  have db: "isNew" "t_processed (w_db w1) = t_processed (w_db w) @ [(consumerName, ev_ID (te_base ev))]"
    using processed_effect [OF 1] new by (auto simp: handled_def)
  define rest where "rest = mbind (receivables_ListByTransaction (ev_Aggregate (te_base ev))) (\<lambda>rs.
       mbind fresh (\<lambda>uu. mbind (lift_result (cancel_loop uu 0 now rs)) (\<lambda>(changed, entries).
       if changed = [] then ret () else mbind (receivables_UpdateAll changed) (\<lambda>_. ledger_Append entries))))"
  have "runs same_marks rest" unfolding rest_def by (intro frame)
  moreover have "rest w1 = (Inr u, w')" using run db(1) by (simp add: canceled_body_def mbind_def [of "processed_MarkIfNew _ _"] 1 rest_def)
  ultimately show ?thesis using runsD db(2) by (metis same_marks_def)
qed

lemma captured_call:
  assumes run: "onCaptured register BrazilCalendar now ev w = (r, w')"
  shows "(t_processed (w_db w') = t_processed (w_db w)
      \<or> t_processed (w_db w') = t_processed (w_db w) @ [(consumerName, ev_ID (te_base ev))]
        \<and> (te_merchant ev, ev_Aggregate (te_base ev)) \<in> sales w')
    \<and> (r = Inr () \<longrightarrow> handled ev w')"
proof -
  obtain r1 w1 where 1: "Do (captured_body BrazilCalendar now ev) w = (r1, w1)" by fastforce
  show ?thesis
  proof (cases r1)
    case (Inl e)
    then have "w_db w1 = w_db w" "r = Inl e" "w' = w1" using 1 Do_Inl_db run by (auto simp: onCaptured_def mbind_def)
    then show ?thesis by simp
  next
    case (Inr rs)
    obtain v1 v2 where v: "captured_body BrazilCalendar now ev v1 = (Inr rs, v2)" "w_db v1 = w_db w" "w_db w1 = w_db v2"
      using 1 unfolding Inr by (rule Do_db)
    have db: "w_db w' = w_db w1" using run by (auto simp: onCaptured_def mbind_def 1 Inr effect_log_def split: if_splits)
    have "handled ev w'" using captured_marks [OF v(1)] by (simp add: handled_def db v(3))
    moreover have "t_processed (w_db w') = t_processed (w_db w) \<or>
        t_processed (w_db w') = t_processed (w_db w) @ [(consumerName, ev_ID (te_base ev))]
        \<and> (te_merchant ev, ev_Aggregate (te_base ev)) \<in> sales w'"
    proof (cases "handled ev v1")
      case True
      then show ?thesis using captured_handled [OF _ v(1)] by (simp add: db v)
    next
      case False
      then show ?thesis using captured_run_effect [OF v(1)] by (simp add: db v sales_def)
    qed
    ultimately show ?thesis by blast
  qed
qed

lemma canceled_call:
  assumes run: "onCanceled now ev w = (r, w')"
  shows "(t_processed (w_db w') = t_processed (w_db w)
      \<or> t_processed (w_db w') = t_processed (w_db w) @ [(consumerName, ev_ID (te_base ev))])
    \<and> (r = Inr () \<longrightarrow> handled ev w')"
proof (cases r)
  case (Inl e)
  then have "w_db w' = w_db w" using run Do_Inl_db unfolding onCanceled_def by blast
  then show ?thesis using Inl by simp
next
  case (Inr x)
  obtain v1 v2 where v: "canceled_body now ev v1 = (Inr x, v2)" "w_db v1 = w_db w" "w_db w' = w_db v2"
    using run unfolding Inr onCanceled_def by (rule Do_db)
  have "handled ev w'" using canceled_marks [OF v(1)] by (simp add: handled_def v(3))
  moreover have "t_processed (w_db w') = t_processed (w_db w) \<or>
      t_processed (w_db w') = t_processed (w_db w) @ [(consumerName, ev_ID (te_base ev))]"
  proof (cases "handled ev v1")
    case True
    then show ?thesis using canceled_handled [OF _ v(1)] by (simp add: v)
  next
    case False
    then show ?thesis using canceled_run_effect [OF v(1)] by (simp add: v)
  qed
  ultimately show ?thesis by blast
qed

lemma Scheduler_call:
  assumes run: "Scheduler_Handle register BrazilCalendar now ty payload w = (r, w')" and ty: "ty \<in> set scheduler_topics"
  shows "(t_processed (w_db w') = t_processed (w_db w)
      \<or> (\<exists>ev. payload = Some ev \<and> t_processed (w_db w') = t_processed (w_db w) @ [(consumerName, ev_ID (te_base ev))]
          \<and> (ty = ''transaction.captured'' \<longrightarrow> (te_merchant ev, ev_Aggregate (te_base ev)) \<in> sales w')))
    \<and> (r = Inr () \<longrightarrow> (\<exists>ev. payload = Some ev \<and> handled ev w'))"
proof (cases payload)
  case None
  then show ?thesis using run ty by (auto simp: Scheduler_Handle_def scheduler_topics_def)
next
  case (Some ev)
  show ?thesis
  proof (cases "ty = ''transaction.captured''")
    case True
    then show ?thesis using run Some captured_call [of register now ev w r w'] by (simp add: Scheduler_Handle_def)
  next
    case False
    then show ?thesis using run ty Some canceled_call [of now ev w r w'] by (simp add: Scheduler_Handle_def scheduler_topics_def)
  qed
qed

section \<open>The pipeline\<close>

text \<open>
  The consumer decodes the payload of an event of a transaction; its handler runs while other
  use cases run, and the clock and the registry may answer differently at every attempt.
  \<open>n\<close> counts the attempts.
\<close>

definition scheduler_payload :: "event \<Rightarrow> tx_event option" where
  "scheduler_payload ev = (case ev of TxEvent e \<Rightarrow> Some e | _ \<Rightarrow> None)"

definition scheduler_handler ::
  "(nat \<Rightarrow> world \<Rightarrow> world) \<Rightarrow> (nat \<Rightarrow> unit_total list \<Rightarrow> bool) \<Rightarrow> (nat \<Rightarrow> time) \<Rightarrow> string \<Rightarrow> event
   \<Rightarrow> world \<times> nat \<Rightarrow> unit result \<times> world \<times> nat" where
  "scheduler_handler env register clock ty ev wn =
     (case wn of (w, n) \<Rightarrow>
        case Scheduler_Handle (register n) BrazilCalendar (clock n) ty (scheduler_payload ev) w of
          (r, w') \<Rightarrow> (r, env n w', n + 1))"

text \<open>
  Kafka keeps the messages of a topic and a partition, chosen by the key, in the order of the
  log. The consumer group has fetched and committed a number of them in each partition; a
  restarted consumer starts at the committed ones, the first time at the first message.
\<close>

definition partition_of :: "(string \<Rightarrow> nat) \<Rightarrow> string \<times> nat \<Rightarrow> message list \<Rightarrow> message list" where
  "partition_of part tp msgs = filter (\<lambda>m. ms_Topic m = fst tp \<and> part (ms_Key m) = snd tp) msgs"

record pipe =
  pp_world :: world
  pp_kafka :: kafka
  pp_dlq :: kafka
  pp_fetched :: "string \<times> nat \<Rightarrow> nat"
  pp_committed :: "string \<times> nat \<Rightarrow> nat"

text \<open>Runs of the program other than the scheduler's: they add no mark in its name.\<close>

definition scheduler_marks :: "world \<Rightarrow> string set" where
  "scheduler_marks w = {i. (consumerName, i) \<in> set (t_processed (w_db w))}"

definition quiet_run :: "world \<Rightarrow> world \<Rightarrow> bool" where
  "quiet_run w w' \<longleftrightarrow> acq_reach w w' \<and> scheduler_marks w' = scheduler_marks w"

text \<open>
  The steps. A message is fetched, processed and its offset committed, or the commit fails. A
  consumer that is stopped while it waits ends; its commit is made under a context that is
  done, and \<open>late\<close> is whether such a commit may go through.
\<close>

inductive pipe_step :: "bool \<Rightarrow> (string \<Rightarrow> nat) \<Rightarrow> pipe \<Rightarrow> pipe \<Rightarrow> bool" for late part where
  pipe_program: "quiet_run (pp_world s) w' \<Longrightarrow> pipe_step late part s (s\<lparr>pp_world := w'\<rparr>)"
| pipe_relay: "publishBatch held limit delivered (pp_world s, pp_kafka s) = (r, w', k') \<Longrightarrow>
     pipe_step late part s (s\<lparr>pp_world := w', pp_kafka := k'\<rparr>)"
| pipe_consume: "fst tp \<in> set scheduler_topics \<Longrightarrow>
     pp_fetched s tp < length (partition_of part tp (k_log (pp_kafka s))) \<Longrightarrow>
     \<forall>n w. quiet_run w (env n w) \<Longrightarrow>
     process_message text (scheduler_handler env register clock) stopped
       (partition_of part tp (k_log (pp_kafka s)) ! pp_fetched s tp) ((pp_world s, 0), pp_dlq s) = (r, (w', n), dlq') \<Longrightarrow>
     r \<noteq> Stopped \<Longrightarrow>
     pipe_step late part s (s\<lparr>pp_world := w', pp_dlq := dlq', pp_fetched := (pp_fetched s)(tp := pp_fetched s tp + 1),
       pp_committed := (if commits then (pp_committed s)(tp := pp_fetched s tp + 1) else pp_committed s)\<rparr>)"
| pipe_stop: "fst tp \<in> set scheduler_topics \<Longrightarrow>
     pp_fetched s tp < length (partition_of part tp (k_log (pp_kafka s))) \<Longrightarrow>
     \<forall>n w. quiet_run w (env n w) \<Longrightarrow>
     process_message text (scheduler_handler env register clock) stopped
       (partition_of part tp (k_log (pp_kafka s)) ! pp_fetched s tp) ((pp_world s, 0), pp_dlq s) = (Stopped, (w', n), dlq') \<Longrightarrow>
     commits \<longrightarrow> late \<Longrightarrow>
     committed' = (if commits then (pp_committed s)(tp := pp_fetched s tp + 1) else pp_committed s) \<Longrightarrow>
     pipe_step late part s (s\<lparr>pp_world := w', pp_dlq := dlq', pp_fetched := committed', pp_committed := committed'\<rparr>)"
| pipe_restart: "pipe_step late part s (s\<lparr>pp_fetched := pp_committed s\<rparr>)"

inductive pipe_reach :: "bool \<Rightarrow> (string \<Rightarrow> nat) \<Rightarrow> pipe \<Rightarrow> pipe \<Rightarrow> bool" for late part s0 where
  pipe_start: "pipe_reach late part s0 s0"
| pipe_next: "pipe_reach late part s0 s \<Longrightarrow> pipe_step late part s s' \<Longrightarrow> pipe_reach late part s0 s'"

section \<open>What a delivery leaves\<close>

definition sale_of :: "tx_event \<Rightarrow> string \<times> string" where
  "sale_of ev = (te_merchant ev, ev_Aggregate (te_base ev))"

definition delivers :: "string \<Rightarrow> event \<Rightarrow> world \<Rightarrow> world \<Rightarrow> bool" where
  "delivers ty ev w w' \<longleftrightarrow> moves w w' \<and> (\<forall>i \<in> scheduler_marks w'. i \<in> scheduler_marks w \<or>
     (\<exists>e. ev = TxEvent e \<and> i = ev_ID (te_base e) \<and> (ty = ''transaction.captured'' \<longrightarrow> sale_of e \<in> sales w')))"

lemma delivers_refl: "delivers ty ev w w"
  by (simp add: delivers_def moving.R_refl)

lemma delivers_trans: "delivers ty ev w w' \<Longrightarrow> delivers ty ev w' w'' \<Longrightarrow> delivers ty ev w w''"
proof -
  assume 1: "delivers ty ev w w'" and 2: "delivers ty ev w' w''"
  have more: "sales w' \<subseteq> sales w''" using 2 by (simp add: delivers_def moves_def)
  have "moves w w''" by (rule moving.R_trans [of w w']) (use 1 2 in \<open>simp_all add: delivers_def\<close>)
  moreover have "i \<in> scheduler_marks w \<or>
      (\<exists>e. ev = TxEvent e \<and> i = ev_ID (te_base e) \<and> (ty = ''transaction.captured'' \<longrightarrow> sale_of e \<in> sales w''))"
    if i: "i \<in> scheduler_marks w''" for i
  proof (cases "i \<in> scheduler_marks w'")
    case True
    then have "i \<in> scheduler_marks w \<or>
        (\<exists>e. ev = TxEvent e \<and> i = ev_ID (te_base e) \<and> (ty = ''transaction.captured'' \<longrightarrow> sale_of e \<in> sales w'))"
      using bspec [OF conjunct2 [OF 1 [unfolded delivers_def]]] by simp
    then show ?thesis using more by blast
  next
    case False
    then show ?thesis using bspec [OF conjunct2 [OF 2 [unfolded delivers_def]] i] by simp
  qed
  ultimately show ?thesis by (simp add: delivers_def)
qed

lemma quiet_delivers: "quiet_run w w' \<Longrightarrow> delivers ty ev w w'"
  unfolding delivers_def quiet_run_def by (auto dest: moving_reach)

lemma scheduler_delivers:
  assumes run: "scheduler_handler env register clock ty ev (w, n) = (r, w', n')" and ty: "ty \<in> set scheduler_topics"
    and env: "\<forall>n w. quiet_run w (env n w)"
  shows "delivers ty ev w w' \<and> (r = Inr () \<longrightarrow> (\<exists>e. ev = TxEvent e \<and> ev_ID (te_base e) \<in> scheduler_marks w'))"
proof -
  obtain w1 where 1: "Scheduler_Handle (register n) BrazilCalendar (clock n) ty (scheduler_payload ev) w = (r, w1)"
    and w': "w' = env n w1"
    using run by (auto simp: scheduler_handler_def split: prod.splits)
  have payload: "ev = TxEvent e" if "scheduler_payload ev = Some e" for e
    using that by (auto simp: scheduler_payload_def split: event.splits)
  note call = Scheduler_call [OF 1 ty]
  have env': "delivers ty ev w1 w'" "scheduler_marks w' = scheduler_marks w1"
    using env quiet_delivers by (simp_all add: w' quiet_run_def)
  have "delivers ty ev w w1"
    unfolding delivers_def
  proof (intro conjI ballI)
    show "moves w w1" using runsD [OF moving_use_cases(5) 1] .
    fix i assume "i \<in> scheduler_marks w1"
    then show "i \<in> scheduler_marks w \<or> (\<exists>e. ev = TxEvent e \<and> i = ev_ID (te_base e) \<and> (ty = ''transaction.captured'' \<longrightarrow> sale_of e \<in> sales w1))"
      using call payload by (auto simp: scheduler_marks_def sale_of_def)
  qed
  then have "delivers ty ev w w'" using delivers_trans env'(1) by blast
  moreover have "\<exists>e. ev = TxEvent e \<and> ev_ID (te_base e) \<in> scheduler_marks w'" if ok: "r = Inr ()"
  proof -
    obtain e where e: "scheduler_payload ev = Some e" "handled e w1" using call ok by blast
    then show ?thesis unfolding env'(2) using payload [OF e(1)] by (simp add: scheduler_marks_def handled_def)
  qed
  ultimately show ?thesis by blast
qed

lemma calls_deliver:
  assumes env: "\<forall>n w. quiet_run w (env n w)" and ty: "ty \<in> set scheduler_topics"
  shows "delivers ty ev w (fst (after_calls (scheduler_handler env register clock ty ev) n (w, k)))"
proof (induction n arbitrary: w k)
  case (Suc n)
  obtain r w1 k1 where 1: "scheduler_handler env register clock ty ev (w, k) = (r, w1, k1)" using prod_cases3 by blast
  show ?case using delivers_trans [OF conjunct1 [OF scheduler_delivers [OF 1 ty env]] Suc.IH]
    by (simp add: after_calls_Suc 1)
qed (simp add: after_calls_def delivers_refl)

lemma delivered:
  assumes run: "process_message text (scheduler_handler env register clock) stopped m ((w, 0), dlq) = (r, (w', n), dlq')"
    and env: "\<forall>n w. quiet_run w (env n w)" and ty: "event_type m \<in> set scheduler_topics"
  shows "delivers (event_type m) (ms_Value m) w w' \<and> k_ends dlq' = k_ends dlq \<and> set (k_log dlq) \<subseteq> set (k_log dlq')
    \<and> (r = Handled \<longrightarrow> (\<exists>e. ms_Value m = TxEvent e \<and> ev_ID (te_base e) \<in> scheduler_marks w'))
    \<and> (\<forall>e. r = Dead_letter e \<longrightarrow> k_ends dlq = (\<lambda>_. Acked) \<longrightarrow> dead_message text m e \<in> set (k_log dlq'))"
proof -
  define h where "h = scheduler_handler env register clock (event_type m) (ms_Value m)"
  obtain r1 waits wn1 where loop: "attempt_loop maxAttempts 1 h stopped None (w, 0) = (r1, waits, wn1)"
    using prod_cases3 by blast
  have res: "r = r1" "wn1 = (w', n)" "dlq' = (case r of Dead_letter e \<Rightarrow> snd (WriteMessages (dead_message text m e) dlq) | _ \<Rightarrow> dlq)"
    using run loop by (auto simp: process_message_def h_def split: process_end.splits)
  obtain k where k: "wn1 = after_calls h k (w, 0)" "r1 = Handled \<longrightarrow> 0 < k \<and> answer h (k - 1) (w, 0) = Inr ()"
    using attempt_loop_spec [OF loop] by force
  have "delivers (event_type m) (ms_Value m) w w'"
    using calls_deliver [OF env ty, where w = w and register = register and clock = clock and ev = "ms_Value m" and n = k and k = 0]
    by (simp add: k(1) [symmetric] res(2) flip: h_def)
  moreover have "\<exists>e. ms_Value m = TxEvent e \<and> ev_ID (te_base e) \<in> scheduler_marks w'" if "r = Handled"
  proof -
    have last: "0 < k" "fst (h (after_calls h (k - 1) (w, 0))) = Inr ()" using k(2) that res(1) by (simp_all add: answer_def)
    have "wn1 = snd (h (after_calls h (k - 1) (w, 0)))"
      using last(1) k(1) by (cases k) (simp_all add: after_calls_def)
    then have "h (after_calls h (k - 1) (w, 0)) = (Inr (), w', n)" using last(2) res(2) by (metis prod.collapse)
    then show ?thesis using scheduler_delivers [OF _ ty env] unfolding h_def by (metis prod.collapse)
  qed
  ultimately show ?thesis unfolding res(3)
    by (auto simp: WriteMessages_def Let_def split: process_end.splits write_end.splits)
qed

section \<open>The invariant\<close>

definition answered :: "(message \<Rightarrow> bool) \<Rightarrow> world \<Rightarrow> message \<Rightarrow> bool" where
  "answered dead w m \<longleftrightarrow> dead m \<or> (\<exists>e. ms_Value m = TxEvent e \<and> ev_ID (te_base e) \<in> scheduler_marks w)"

definition dead_lettered :: "kafka \<Rightarrow> message \<Rightarrow> bool" where
  "dead_lettered dlq m \<longleftrightarrow> (\<exists>text e. dead_message text m e \<in> set (k_log dlq))"

definition marks_ok :: "world \<Rightarrow> message list \<Rightarrow> bool" where
  "marks_ok w msgs \<longleftrightarrow> (\<forall>i \<in> scheduler_marks w. \<exists>m \<in> set msgs. \<exists>e. ms_Value m = TxEvent e \<and> i = ev_ID (te_base e)
     \<and> (ms_Topic m = ''transaction.captured'' \<longrightarrow> sale_of e \<in> sales w))"

definition pipe_ok :: "(string \<Rightarrow> nat) \<Rightarrow> pipe \<Rightarrow> bool" where
  "pipe_ok part s \<longleftrightarrow>
     relay_ok False (t_outbox (w_db (pp_world s))) (w_outbox_seq (pp_world s)) (k_log (pp_kafka s))
     \<and> marks_ok (pp_world s) (k_log (pp_kafka s)) \<and> k_ends (pp_dlq s) = (\<lambda>_. Acked)
     \<and> (\<forall>tp. pp_committed s tp \<le> pp_fetched s tp \<and> pp_fetched s tp \<le> length (partition_of part tp (k_log (pp_kafka s))))
     \<and> (\<forall>tp. fst tp \<in> set scheduler_topics \<longrightarrow> (\<forall>i < pp_fetched s tp.
          answered (dead_lettered (pp_dlq s)) (pp_world s) (partition_of part tp (k_log (pp_kafka s)) ! i)))"

lemma marks_ok_mono:
  assumes "marks_ok w msgs" "sales w \<subseteq> sales w'" "scheduler_marks w' = scheduler_marks w" "set msgs \<subseteq> set msgs'"
  shows "marks_ok w' msgs'"
  using assms(1,2,4) unfolding marks_ok_def assms(3) by blast

lemma marks_ok_delivers:
  assumes ok: "marks_ok w msgs" and del: "delivers (ms_Topic m) (ms_Value m) w w'" and m: "m \<in> set msgs"
  shows "marks_ok w' msgs"
  unfolding marks_ok_def
proof
  fix i assume i: "i \<in> scheduler_marks w'"
  show "\<exists>m \<in> set msgs. \<exists>e. ms_Value m = TxEvent e \<and> i = ev_ID (te_base e)
     \<and> (ms_Topic m = ''transaction.captured'' \<longrightarrow> sale_of e \<in> sales w')"
  proof (cases "i \<in> scheduler_marks w")
    case True
    moreover have "sales w \<subseteq> sales w'" using del by (simp add: delivers_def moves_def)
    ultimately show ?thesis using ok unfolding marks_ok_def by blast
  next
    case False
    then show ?thesis using del i m unfolding delivers_def by blast
  qed
qed

lemma answered_mono:
  "answered dead w m \<Longrightarrow> scheduler_marks w \<subseteq> scheduler_marks w' \<Longrightarrow> (\<And>m. dead m \<Longrightarrow> dead' m) \<Longrightarrow> answered dead' w' m"
  by (auto simp: answered_def)

lemma moves_marks: "moves w w' \<Longrightarrow> scheduler_marks w \<subseteq> scheduler_marks w'"
  by (auto simp: moves_def scheduler_marks_def)

lemma log_type: "relay_ok alone rows seq msgs \<Longrightarrow> m \<in> set msgs \<Longrightarrow> event_type m = ms_Topic m"
  by (auto simp: relay_ok_def event_type_def message_of_def)

lemma batch_tables:
  assumes "publishBatch held limit delivered (w, k) = (r, w', k')"
  shows "t_processed (w_db w') = t_processed (w_db w) \<and> t_receivables (w_db w') = t_receivables (w_db w)"
  using assms unfolding publishBatch_def stmt_def query_def exec_def
  by (auto split: option.splits if_splits prod.splits)

lemma partition_append: "partition_of part tp (msgs @ ys) = partition_of part tp msgs @ partition_of part tp ys"
  by (simp add: partition_of_def)

lemma partition_member: "i < length (partition_of part tp msgs) \<Longrightarrow>
    partition_of part tp msgs ! i \<in> set msgs \<and> ms_Topic (partition_of part tp msgs ! i) = fst tp"
  using nth_mem [of i "partition_of part tp msgs"] by (simp add: partition_of_def)

text \<open>A step that leaves the log and the consumer's position alone needs only what it delivers.\<close>

lemma pipe_ok_delivery:
  assumes ok: "pipe_ok part s" and tp: "fst tp \<in> set scheduler_topics"
    and here: "pp_fetched s tp < length (partition_of part tp (k_log (pp_kafka s)))"
    and run: "process_message text (scheduler_handler env register clock) stopped
       (partition_of part tp (k_log (pp_kafka s)) ! pp_fetched s tp) ((pp_world s, 0), pp_dlq s) = (r, (w', n), dlq')"
    and env: "\<forall>n w. quiet_run w (env n w)"
  shows "pipe_ok part (s\<lparr>pp_world := w', pp_dlq := dlq'\<rparr>)
    \<and> (r \<noteq> Stopped \<longrightarrow> answered (dead_lettered dlq') w' (partition_of part tp (k_log (pp_kafka s)) ! pp_fetched s tp))"
proof -
  define m where "m = partition_of part tp (k_log (pp_kafka s)) ! pp_fetched s tp"
  have m: "m \<in> set (k_log (pp_kafka s))" "ms_Topic m = fst tp" using partition_member [OF here] by (simp_all add: m_def)
  have relay: "relay_ok False (t_outbox (w_db (pp_world s))) (w_outbox_seq (pp_world s)) (k_log (pp_kafka s))"
    and marks: "marks_ok (pp_world s) (k_log (pp_kafka s))" and dlq: "k_ends (pp_dlq s) = (\<lambda>_. Acked)"
    using ok by (simp_all add: pipe_ok_def)
  have ty: "event_type m = ms_Topic m" by (rule log_type [OF relay m(1)])
  note del = delivered [OF run [folded m_def] env, unfolded ty m(2), OF tp]
  have moved: "moves (pp_world s) w'" using del by (simp add: delivers_def)
  have dead: "dead_lettered (pp_dlq s) x \<Longrightarrow> dead_lettered dlq' x" for x using del by (auto simp: dead_lettered_def)
  have ans: "answered (dead_lettered (pp_dlq s)) (pp_world s) x \<Longrightarrow> answered (dead_lettered dlq') w' x" for x
    by (rule answered_mono [OF _ moves_marks [OF moved] dead])
  have "pipe_ok part (s\<lparr>pp_world := w', pp_dlq := dlq'\<rparr>)"
  proof -
    have "relay_ok False (t_outbox (w_db w')) (w_outbox_seq w') (k_log (pp_kafka s))"
      using relay_ok_grows [OF relay] moved by (simp add: moves_def)
    moreover have "marks_ok w' (k_log (pp_kafka s))" using marks_ok_delivers [OF marks _ m(1)] del by (simp add: m(2))
    moreover have "k_ends dlq' = (\<lambda>_. Acked)" using del dlq by simp
    moreover have "\<forall>tp. pp_committed s tp \<le> pp_fetched s tp \<and> pp_fetched s tp \<le> length (partition_of part tp (k_log (pp_kafka s)))"
      using ok by (simp add: pipe_ok_def)
    moreover have "\<forall>tp. fst tp \<in> set scheduler_topics \<longrightarrow> (\<forall>i < pp_fetched s tp.
        answered (dead_lettered dlq') w' (partition_of part tp (k_log (pp_kafka s)) ! i))"
      using ok ans by (simp add: pipe_ok_def)
    ultimately show ?thesis by (simp add: pipe_ok_def)
  qed
  moreover have "answered (dead_lettered dlq') w' m" if "r \<noteq> Stopped"
    using del that dlq by (cases r) (auto simp: answered_def dead_lettered_def)
  ultimately show ?thesis by (simp add: m_def)
qed

lemma pipe_step_ok: "pipe_step late part s s' \<Longrightarrow> \<not> late \<Longrightarrow> pipe_ok part s \<Longrightarrow> pipe_ok part s'"
proof (induction rule: pipe_step.induct)
  case (pipe_program s w')
  have moved: "moves (pp_world s) w'" and same: "scheduler_marks w' = scheduler_marks (pp_world s)"
    using pipe_program(1) moving_reach by (simp_all add: quiet_run_def)
  show ?case using pipe_program(3) relay_ok_grows [of False "pp_world s" _ w'] marks_ok_mono [OF _ _ same subset_refl]
      moved same by (simp add: pipe_ok_def moves_def answered_def)
next
  case (pipe_relay held limit delivered s r w' k')
  have pos: "pp_fetched s tp \<le> length (partition_of part tp (k_log (pp_kafka s)))" for tp
    using pipe_relay(3) unfolding pipe_ok_def by blast
  have "relay_step False (pp_world s, pp_kafka s) (w', k')" using pipe_relay(1) by (intro relay_round) auto
  then have relay: "relay_ok False (t_outbox (w_db w')) (w_outbox_seq w') (k_log k')"
    using relay_step_ok [of False "(pp_world s, pp_kafka s)" "(w', k')"] pipe_relay(3) by (simp add: pipe_ok_def)
  obtain ys where ys: "k_log k' = k_log (pp_kafka s) @ ys" using publishBatch_spec [OF pipe_relay(1)] by blast
  have same: "scheduler_marks w' = scheduler_marks (pp_world s)" "sales w' = sales (pp_world s)"
    using batch_tables [OF pipe_relay(1)] by (simp_all add: scheduler_marks_def sales_def)
  have "marks_ok w' (k_log k')"
  proof (rule marks_ok_mono)
    show "marks_ok (pp_world s) (k_log (pp_kafka s))" using pipe_relay(3) unfolding pipe_ok_def by blast
    show "set (k_log (pp_kafka s)) \<subseteq> set (k_log k')" by (simp add: ys)
  qed (simp_all add: same)
  moreover have "partition_of part tp (k_log k') ! i = partition_of part tp (k_log (pp_kafka s)) ! i" if "i < pp_fetched s tp" for tp i
    using order.strict_trans2 [OF that pos] by (simp add: ys partition_append nth_append)
  moreover have "pp_fetched s tp \<le> length (partition_of part tp (k_log k'))" for tp
    using pos by (simp add: ys partition_append trans_le_add1)
  ultimately show ?case using pipe_relay(3) relay by (simp add: pipe_ok_def answered_def same)
next
  case (pipe_consume tp s env errs register clock stopped r w' n dlq' commits)
  note ok = pipe_ok_delivery [OF pipe_consume(7,1,2,4,3)]
  show ?case using ok pipe_consume(2,5) unfolding pipe_ok_def by (auto simp: less_Suc_eq le_SucI)
next
  case (pipe_stop tp s env errs register clock stopped w' n dlq' commits committed')
  note ok = pipe_ok_delivery [OF pipe_stop(8,1,2,4,3)]
  have "committed' = pp_committed s" using pipe_stop(5-7) by simp
  then show ?case using ok unfolding pipe_ok_def by (simp add: order_less_le_trans order_trans) (meson order_less_le_trans order_trans)
next
  case (pipe_restart s)
  then show ?case by (simp add: pipe_ok_def) (meson order_less_le_trans order_trans)
qed

lemma pipe_reach_ok:
  assumes "pipe_reach late part s0 s" "\<not> late" "pipe_ok part s0"
  shows "pipe_ok part s"
  using assms by (induction rule: pipe_reach.induct) (auto intro: pipe_step_ok)

section \<open>No captured sale is lost\<close>

lemma pipe_ok_start:
  assumes "t_outbox (w_db (pp_world s)) = []" "t_processed (w_db (pp_world s)) = []" "k_log (pp_kafka s) = []"
    and "k_ends (pp_dlq s) = (\<lambda>_. Acked)" "pp_fetched s = (\<lambda>_. 0)" "pp_committed s = (\<lambda>_. 0)"
  shows "pipe_ok part s"
  using assms by (simp add: pipe_ok_def relay_ok_def event_ids_def marks_ok_def scheduler_marks_def)

lemma answered_sale:
  assumes relay: "relay_ok False (t_outbox (w_db w)) seq msgs" and marks: "marks_ok w msgs"
    and x: "x \<in> set (t_outbox (w_db w))" "ob_event x = TxEvent ev" "ev_Type (te_base ev) = ''transaction.captured''"
    and ans: "answered dead w (message_of x)"
  shows "sale_of ev \<in> sales w \<or> dead (message_of x)"
proof (cases "dead (message_of x)")
  case False
  then have "ev_ID (te_base ev) \<in> scheduler_marks w" using ans x(2) by (simp add: answered_def message_of_def)
  then obtain m e where m: "m \<in> set msgs" "ms_Value m = TxEvent e" "ev_ID (te_base ev) = ev_ID (te_base e)"
    "ms_Topic m = ''transaction.captured'' \<longrightarrow> sale_of e \<in> sales w" using marks unfolding marks_ok_def by blast
  obtain y where y: "y \<in> set (t_outbox (w_db w))" "m = message_of y" using relay m(1) unfolding relay_ok_def by blast
  have "EventID (ob_event y) = EventID (ob_event x)"
    using m(2,3) x(2) y(2) by (simp add: message_of_def EventID_def event_base_def)
  moreover have "inj_on (\<lambda>x. EventID (ob_event x)) (set (t_outbox (w_db w)))"
    using relay by (simp add: relay_ok_def event_ids_def distinct_map)
  ultimately have "y = x" using x(1) y(1) unfolding inj_on_def by blast
  then show ?thesis using m(2,4) x(2,3) y(2) by (simp add: message_of_def EventType_def event_base_def)
qed simp

text \<open>C7: a captured sale reaches its receivables or the dead-letter queue, across all processes: from an
  empty outbox and an empty Kafka, whatever steps the use cases, the relay and the scheduler's
  consumer take in whatever order, with statements that fail, consumers that crash and messages
  that come twice, every event of a capture that is marked as published is a message of its
  partition; and once the consumer group's committed offset has passed the message, the sale
  has receivables in the database or the message lies in the dead-letter queue (which is
  assumed to accept what is written, as no commit may go through under a done context).\<close>

theorem no_captured_sale_is_lost:
  assumes "pipe_reach False part s0 s"
    and "t_outbox (w_db (pp_world s0)) = []" "t_processed (w_db (pp_world s0)) = []" "k_log (pp_kafka s0) = []"
    and "k_ends (pp_dlq s0) = (\<lambda>_. Acked)" "pp_fetched s0 = (\<lambda>_. 0)" "pp_committed s0 = (\<lambda>_. 0)"
    and x: "x \<in> set (t_outbox (w_db (pp_world s)))" "ob_event x = TxEvent ev" "ev_Type (te_base ev) = ''transaction.captured''"
  defines "tp \<equiv> (''transaction.captured'', part (AggregateID (ob_event x)))"
  shows "(ob_published x \<longrightarrow> message_of x \<in> set (partition_of part tp (k_log (pp_kafka s))))
    \<and> (\<forall>i < pp_committed s tp. partition_of part tp (k_log (pp_kafka s)) ! i = message_of x \<longrightarrow>
         (te_merchant ev, ev_Aggregate (te_base ev)) \<in> sales (pp_world s) \<or> dead_lettered (pp_dlq s) (message_of x))"
proof -
  have ok: "pipe_ok part s" using pipe_reach_ok [OF assms(1) _ pipe_ok_start] assms(2-7) by blast
  then have relay: "relay_ok False (t_outbox (w_db (pp_world s))) (w_outbox_seq (pp_world s)) (k_log (pp_kafka s))"
    and marks: "marks_ok (pp_world s) (k_log (pp_kafka s))" by (simp_all add: pipe_ok_def)
  have topic: "ms_Topic (message_of x) = ''transaction.captured''"
    using x(2,3) by (simp add: message_of_def EventType_def event_base_def)
  have here: "fst tp \<in> set scheduler_topics" by (simp add: tp_def scheduler_topics_def)
  have "message_of x \<in> set (partition_of part tp (k_log (pp_kafka s)))" if "ob_published x"
  proof -
    have "message_of x \<in> set (k_log (pp_kafka s))" using relay that x(1) unfolding relay_ok_def by blast
    then show ?thesis using topic by (simp add: partition_of_def tp_def) (simp add: message_of_def)
  qed
  moreover have "sale_of ev \<in> sales (pp_world s) \<or> dead_lettered (pp_dlq s) (message_of x)"
    if i: "i < pp_committed s tp" "partition_of part tp (k_log (pp_kafka s)) ! i = message_of x" for i
  proof -
    have "i < pp_fetched s tp" using ok i(1) order.strict_trans2 unfolding pipe_ok_def by blast
    then have "answered (dead_lettered (pp_dlq s)) (pp_world s) (message_of x)"
      using ok here i(2) unfolding pipe_ok_def by metis
    then show ?thesis by (rule answered_sale [OF relay marks x])
  qed
  ultimately show ?thesis by (simp add: sale_of_def)
qed

section \<open>A sample run\<close>

text \<open>The sample sale is captured, its event published, its message consumed and committed.\<close>

definition sample_pipe :: pipe where
  "sample_pipe = \<lparr>pp_world = idle_world\<lparr>w_db := sample_tables\<lparr>t_transactions :=
       [sample_captured\<lparr>tx_status := Authorized, tx_capturedAt := None, tx_version := 2\<rparr>]\<rparr>\<rparr>,
     pp_kafka = sample_kafka, pp_dlq = sample_kafka, pp_fetched = (\<lambda>_. 0), pp_committed = (\<lambda>_. 0)\<rparr>"

lemma sample_capture:
  "\<exists>t w ev. Lifecycle_Capture 7 ''m_1'' (tx_id sample_captured) (pp_world sample_pipe) = (Inr t, w)
     \<and> t_outbox (w_db w) = [\<lparr>ob_id = 1, ob_event = TxEvent ev, ob_published = False\<rparr>]
     \<and> ev_Type (te_base ev) = ''transaction.captured'' \<and> w_faults w = (\<lambda>_. None)
     \<and> t_processed (w_db w) = []"
  by (simp add: Lifecycle_Capture_def Lifecycle_change_def Do_Inr change_body_def transactions_FindByIDForUpdate_def
        transactions_FindByID_def transactions_find_def tx_Capture_def tx_edges transactions_Update_def
        update_version_def tx_PullEvents_def insert_row_def Let_def idle_world_def start_world_def sample_world_def
        sample_tables_def sample_tx_defs sample_pipe_def NewBaseEvent_def)

theorem no_captured_sale_is_lost_witness:
  "\<exists>s x ev. pipe_reach False (\<lambda>_. 0) sample_pipe s \<and> t_outbox (w_db (pp_world sample_pipe)) = []
     \<and> x \<in> set (t_outbox (w_db (pp_world s))) \<and> ob_event x = TxEvent ev
     \<and> pp_committed s (''transaction.captured'', 0) = 1
     \<and> partition_of (\<lambda>_. 0) (''transaction.captured'', 0) (k_log (pp_kafka s)) ! 0 = message_of x
     \<and> ((te_merchant ev, ev_Aggregate (te_base ev)) \<in> sales (pp_world s) \<or> dead_lettered (pp_dlq s) (message_of x))"
proof -
  obtain t w ev where cap: "Lifecycle_Capture 7 ''m_1'' (tx_id sample_captured) (pp_world sample_pipe) = (Inr t, w)"
    "t_outbox (w_db w) = [\<lparr>ob_id = 1, ob_event = TxEvent ev, ob_published = False\<rparr>]"
    "ev_Type (te_base ev) = ''transaction.captured''" "w_faults w = (\<lambda>_. None)" "t_processed (w_db w) = []"
    using sample_capture by blast
  define x where "x = \<lparr>ob_id = 1, ob_event = TxEvent ev, ob_published = True\<rparr>"
  have none: "t_processed (w_db (pp_world sample_pipe)) = []" "t_outbox (w_db (pp_world sample_pipe)) = []"
    by (simp_all add: sample_pipe_def sample_tables_def)
  have "acq_reach (pp_world sample_pipe) w" using acq_next [OF acq_refl acq_capture [OF cap(1)]] .
  then have "quiet_run (pp_world sample_pipe) w" by (simp add: quiet_run_def scheduler_marks_def cap(5) none)
  then have 1: "pipe_reach False (\<lambda>_. 0) sample_pipe (sample_pipe\<lparr>pp_world := w\<rparr>)"
    by (rule pipe_next [OF pipe_start pipe_program])
  obtain r w2 k2 where round: "publishBatch [] 10 10 (w, sample_kafka) = (r, w2, k2)" by (metis prod.exhaust)
  have k2: "k_log k2 = [message_of x]" "t_outbox (w_db w2) = [x]"
    using round by (auto simp: publishBatch_def stmt_def query_def exec_def pending_rows_def mark_published_def
        cap(2,4) sample_kafka_def publish_row_def Publish_def WriteMessages_def message_of_def x_def split: if_splits)
  have 2: "pipe_reach False (\<lambda>_. 0) sample_pipe (sample_pipe\<lparr>pp_world := w2, pp_kafka := k2\<rparr>)"
    using pipe_next [OF 1 pipe_relay [where held = "[]" and limit = 10 and delivered = 10]] round by (simp add: sample_pipe_def)
  define s where "s = sample_pipe\<lparr>pp_world := w2, pp_kafka := k2\<rparr>"
  define tp :: "string \<times> nat" where "tp = (''transaction.captured'', 0)"
  define h where "h = scheduler_handler (\<lambda>_ w. w) (\<lambda>_ _. False) (\<lambda>_. 8)"
  have part: "partition_of (\<lambda>_. 0) tp (k_log k2) = [message_of x]"
    by (simp add: k2 partition_of_def tp_def message_of_def x_def EventType_def event_base_def cap(3))
  obtain r3 w3 n3 dlq where run: "process_message (\<lambda>_. []) h (\<lambda>_. False) (message_of x) ((w2, 0), sample_kafka) = (r3, (w3, n3), dlq)"
    by (metis prod.exhaust)
  from never_stopped [OF run] have "pipe_step False (\<lambda>_. 0) s (s\<lparr>pp_world := w3, pp_dlq := dlq, pp_fetched := (pp_fetched s)(tp := pp_fetched s tp + 1),
       pp_committed := (if True then (pp_committed s)(tp := pp_fetched s tp + 1) else pp_committed s)\<rparr>)"
    using run by (intro pipe_consume [where n = n3])
      (auto simp: s_def sample_pipe_def part tp_def [symmetric] quiet_run_def acq_refl h_def scheduler_topics_def, simp add: tp_def)
  note 3 = pipe_next [OF 2 [folded s_def] this]
  have ty: "event_type (message_of x) \<in> set scheduler_topics"
    by (simp add: event_type_def message_of_def x_def EventType_def event_base_def cap(3) scheduler_topics_def)
  have "moves w2 w3" using delivered [OF run [unfolded h_def] _ ty] by (simp add: quiet_run_def acq_refl delivers_def)
  then have x3: "x \<in> set (t_outbox (w_db w3))" by (auto simp: moves_def grows_def k2)
  define s' where "s' = s\<lparr>pp_world := w3, pp_dlq := dlq, pp_fetched := (pp_fetched s)(tp := pp_fetched s tp + 1),
       pp_committed := (if True then (pp_committed s)(tp := pp_fetched s tp + 1) else pp_committed s)\<rparr>"
  have s': "pp_committed s' tp = 1" "pp_kafka s' = k2" "pp_world s' = w3" by (simp_all add: s'_def s_def sample_pipe_def)
  have "(te_merchant ev, ev_Aggregate (te_base ev)) \<in> sales (pp_world s') \<or> dead_lettered (pp_dlq s') (message_of x)"
    using no_captured_sale_is_lost [OF 3 [folded s'_def] none(2,1), of x ev] x3 part
    by (simp add: s' tp_def [symmetric] cap(3) x_def) (simp add: sample_pipe_def sample_kafka_def)
  then show ?thesis
    using 3 [folded s'_def] none(2) x3 part s' by (intro exI [of _ s'] exI [of _ x] exI [of _ ev]) (simp add: tp_def x_def)
qed

end
