(* ===== verification/Pricing.thy ===== *)
theory Pricing
  imports Anticipation "HOL-Library.Log_Nat"
begin

text \<open>
  \<open>internal/domain/anticipation/pricing.go\<close>: the floating-point formula of \<open>CompoundPricer\<close>.
  A finite \<open>float64\<close> is the rational number it stands for, and each operation gives the exact
  result rounded to 53 bits, ties to even, as IEEE 754 has it. \<open>math.Pow\<close>, whose last bits
  depend on the machine, is an argument: \<open>None\<close> is its infinity. The theorem compares the
  result with the formula over the real numbers.
\<close>

section \<open>Rounding\<close>

text \<open>The exponent of a positive number: \<open>2 ^ e \<le> x < 2 ^ (e + 1)\<close>.\<close>

definition exponent :: "rat \<Rightarrow> int" where
  "exponent x = (case quotient_of x of (p, q) \<Rightarrow>
     let e = bitlen p - bitlen q in if 2 powi e \<le> x then e else e - 1)"

definition half_even :: "rat \<Rightarrow> int" where
  "half_even y = (let f = \<lfloor>y\<rfloor>; d = y - of_int f
     in if d < 1 / 2 then f else if 1 / 2 < d then f + 1 else if even f then f else f + 1)"

text \<open>The unit in the last place; subnormal numbers share the one of the smallest normal number.\<close>

definition round64 :: "rat \<Rightarrow> rat" where
  "round64 x = (if x = 0 then 0 else
     let u = 2 powi (max (- 1074) (exponent \<bar>x\<bar> - 52)) in of_int (half_even (x / u)) * u)"

text \<open>\<open>math.Round\<close>: halves away from zero.\<close>

definition math_Round :: "rat \<Rightarrow> int" where
  "math_Round y = (if y < 0 then - \<lfloor>1 / 2 - y\<rfloor> else \<lfloor>y + 1 / 2\<rfloor>)"

text \<open>
  The formula. \<open>factor\<close> is at least 1 for the rates and days it is called with, so no division
  by zero comes up; a number over an infinite factor is 0.
\<close>

definition compound_formula :: "(rat \<Rightarrow> rat \<Rightarrow> rat option) \<Rightarrow> pricer" where
  "compound_formula math_Pow net days rateMonth =
     (let rate = round64 (round64 (of_int rateMonth) / 10000);
          factor = math_Pow (round64 (1 + rate)) (round64 (round64 (of_int days) / 30))
      in case factor of
           None \<Rightarrow> 0
         | Some f \<Rightarrow> word_of_int (math_Round (round64 (round64 (of_int (sint net)) / f))))"

definition PresentValue :: "(rat \<Rightarrow> rat \<Rightarrow> rat option) \<Rightarrow> pricer" where
  "PresentValue math_Pow = CompoundPricer (compound_formula math_Pow)"

section \<open>The error of one rounding\<close>

lemma exponent_bounds:
  assumes "0 < x"
  shows "2 powi exponent x \<le> x \<and> x < 2 powi (exponent x + 1)"
proof -
  obtain p q where pq: "quotient_of x = (p, q)" by fastforce
  have q: "0 < q" using quotient_of_denom_pos [OF pq] .
  have x: "x = of_int p / of_int q" using quotient_of_div [OF pq] .
  have p: "0 < p" using assms q by (simp add: x zero_less_divide_iff)
  define a b where "a = bitlen p" and "b = bitlen q"
  have range: "2 ^ nat (a - 1) \<le> p" "p < 2 ^ nat a" "2 ^ nat (b - 1) \<le> q" "q < 2 ^ nat b" "0 < a" "0 < b"
    using bitlen_bounds [OF p] bitlen_bounds [OF q] floorlog_eq_zero_iff [of 2 "nat p"] floorlog_eq_zero_iff [of 2 "nat q"] p q
    by (simp_all add: a_def b_def bitlen_def)
  have powi: "(2 :: rat) ^ nat k = 2 powi k" if "0 \<le> k" for k using that by (simp add: power_int_def)
  have cast: "(of_int (2 ^ k) :: rat) = 2 ^ k" for k by simp
  have P: "2 powi (a - 1) \<le> (of_int p :: rat)" "(of_int p :: rat) < 2 powi a"
    using range(1,2,5) by (simp_all flip: powi)
  have Q: "2 powi (b - 1) \<le> (of_int q :: rat)" "(of_int q :: rat) < 2 powi b"
    using range(3,4,6) by (simp_all flip: powi)
  have "2 powi (a - b - 1) * of_int q \<le> (of_int p :: rat)"
  proof -
    have "2 powi (a - b - 1) * of_int q \<le> (2 powi (a - b - 1) * 2 powi b :: rat)" using Q by simp
    also have "\<dots> = 2 powi (a - 1)" by (simp add: flip: power_int_add)
    finally show ?thesis using P by simp
  qed
  moreover have "(of_int p :: rat) < 2 powi (a - b + 1) * of_int q"
  proof -
    have "(2 :: rat) powi a = 2 powi (a - b + 1) * 2 powi (b - 1)" by (simp flip: power_int_add)
    also have "\<dots> \<le> 2 powi (a - b + 1) * of_int q" using Q by simp
    finally show ?thesis using P by simp
  qed
  ultimately have "2 powi (a - b - 1) \<le> x" "x < 2 powi (a - b + 1)"
    using q by (simp_all add: x pos_le_divide_eq pos_divide_less_eq)
  then show ?thesis by (auto simp: exponent_def pq a_def b_def Let_def)
qed

lemma half_even_near: "\<bar>of_int (half_even y) - y\<bar> \<le> 1 / 2"
proof -
  have "of_int \<lfloor>y\<rfloor> \<le> y" "y < of_int \<lfloor>y\<rfloor> + 1" by linarith+
  then show ?thesis unfolding half_even_def Let_def by (simp add: abs_le_iff)
qed

lemma half_even_le: "y \<le> of_int m \<Longrightarrow> half_even y \<le> m"
proof -
  assume le: "y \<le> of_int m"
  show ?thesis
  proof (cases "y = of_int m")
    case True
    then show ?thesis by (simp add: half_even_def)
  next
    case False
    then have "\<lfloor>y\<rfloor> < m" using le by (simp add: floor_less_iff)
    then show ?thesis by (auto simp: half_even_def Let_def)
  qed
qed

lemma half_even_nonneg: "0 \<le> y \<Longrightarrow> 0 \<le> half_even y"
  by (auto simp: half_even_def Let_def)

lemma half_even_int [simp]: "half_even (of_int m) = m"
  by (simp add: half_even_def)

text \<open>An integer below \<open>2 ^ 53\<close> is a \<open>float64\<close>, and nothing below it is rounded above it.\<close>

definition ulp :: "rat \<Rightarrow> rat" where
  "ulp x = 2 powi (max (- 1074) (exponent \<bar>x\<bar> - 52))"

lemma ulp_pos: "0 < ulp x" by (simp add: ulp_def)

lemma round64_ulp: "x \<noteq> 0 \<Longrightarrow> round64 x = of_int (half_even (x / ulp x)) * ulp x"
  by (simp add: round64_def ulp_def Let_def)

lemma ulp_integer:
  assumes "x \<noteq> 0" "\<bar>x\<bar> < 2 ^ 53"
  obtains m :: int where "of_int n = of_int m * ulp x"
proof -
  define k where "k = max (- 1074) (exponent \<bar>x\<bar> - 52)"
  have "(2 :: rat) powi exponent \<bar>x\<bar> < 2 powi 53" using exponent_bounds [of "\<bar>x\<bar>"] assms by simp
  then have "exponent \<bar>x\<bar> < 53" by (metis linorder_not_less one_le_numeral power_int_increasing)
  then have "k \<le> 0" by (simp add: k_def)
  then have "(of_int n :: rat) = of_int (n * 2 ^ nat (- k)) * ulp x"
    by (simp add: ulp_def power_int_def power_one_over flip: k_def)
  then show thesis by (rule that)
qed

lemma round64_int:
  assumes "\<bar>n\<bar> < 2 ^ 53"
  shows "round64 (of_int n) = of_int n"
proof (cases "n = 0")
  case False
  have "\<bar>of_int n :: rat\<bar> < 2 ^ 53" using assms by (metis of_int_abs of_int_less_iff of_int_numeral of_int_power)
  then obtain m where m: "(of_int n :: rat) = of_int m * ulp (of_int n)" using ulp_integer [of "of_int n"] False by auto
  then have "(of_int n :: rat) / ulp (of_int n) = of_int m" using ulp_pos by (metis nonzero_eq_divide_eq order_less_irrefl)
  then show ?thesis using False m by (simp add: round64_ulp)
qed (simp add: round64_def)

lemma round64_le_int:
  assumes "x \<le> of_int n" "0 \<le> x" "x < 2 ^ 53"
  shows "round64 x \<le> of_int n"
proof (cases "x = 0")
  case False
  obtain m :: int where m: "of_int n = of_int m * ulp x" using ulp_integer [of x] False assms by auto
  then have "x / ulp x \<le> of_int m" using assms(1) ulp_pos [of x] by (simp add: pos_divide_le_eq)
  then have "half_even (x / ulp x) \<le> m" by (rule half_even_le)
  then show ?thesis using ulp_pos [of x] by (simp add: round64_ulp False m)
qed (use assms in \<open>simp add: round64_def\<close>)

lemma round64_nonneg: "0 \<le> x \<Longrightarrow> 0 \<le> round64 x"
  using half_even_nonneg [of "x / ulp x"] ulp_pos [of x] by (cases "x = 0") (simp_all add: round64_ulp, simp add: round64_def)

text \<open>The relative error of rounding a number that is not subnormal.\<close>

lemma round64_error:
  assumes "2 powi (- 1022) \<le> x"
  shows "\<bar>round64 x - x\<bar> \<le> x / 2 ^ 53"
proof -
  have "(0 :: rat) < 2 powi (- 1022)" by simp
  then have x: "0 < x" using assms by (rule less_le_trans)
  have "2 powi (- 1022) < (2 :: rat) powi (exponent x + 1)" using exponent_bounds [OF x] assms by simp
  then have "- 1022 < exponent x + 1" by (metis linorder_not_less one_le_numeral power_int_increasing)
  then have "ulp x = 2 powi (exponent x - 52)" using x by (simp add: ulp_def max_def)
  also have "\<dots> = 2 powi exponent x / 2 ^ 52" by (simp add: power_int_diff)
  finally have u: "ulp x \<le> x / 2 ^ 52" using exponent_bounds [OF x] by simp
  have "round64 x - x = (of_int (half_even (x / ulp x)) - x / ulp x) * ulp x"
    using x ulp_pos [of x] by (simp add: round64_ulp left_diff_distrib)
  then have "\<bar>round64 x - x\<bar> = \<bar>of_int (half_even (x / ulp x)) - x / ulp x\<bar> * ulp x"
    using ulp_pos [of x] by (simp add: abs_mult)
  also have "\<dots> \<le> 1 / 2 * ulp x" using half_even_near ulp_pos by (intro mult_right_mono) (simp_all add: less_imp_le)
  finally show ?thesis using u by simp
qed

section \<open>The error of the formula\<close>

abbreviation real_of :: "rat \<Rightarrow> real" where
  "real_of \<equiv> of_rat"

lemma round64_real:
  assumes "2 powi (- 1022) \<le> x"
  obtains d where "real_of (round64 x) = real_of x * (1 + d)" "\<bar>d\<bar> \<le> 1 / 2 ^ 53"
proof -
  have x: "0 < x" using assms less_le_trans [of 0 "2 powi (- 1022) :: rat" x] by simp
  define d where "d = round64 x / x - 1"
  have "round64 x = x * (1 + d)" using x by (simp add: d_def)
  moreover have "\<bar>d\<bar> \<le> 1 / 2 ^ 53"
  proof -
    have "d = (round64 x - x) / x" using x by (simp add: d_def diff_divide_distrib)
    then have "\<bar>d\<bar> = \<bar>round64 x - x\<bar> / x" using x by simp
    then show ?thesis using round64_error [OF assms] x by (simp add: pos_divide_le_eq)
  qed
  then have "real_of \<bar>d\<bar> \<le> real_of (1 / 2 ^ 53)" by (simp only: of_rat_less_eq)
  then have "\<bar>real_of d\<bar> \<le> 1 / 2 ^ 53" by (simp add: of_rat_divide of_rat_power)
  ultimately show thesis using that [of "real_of d"] by (simp add: of_rat_mult of_rat_add)
qed

lemma not_tiny: "1 / 10000000000000 \<le> x \<Longrightarrow> 2 powi (- 1022) \<le> (x :: rat)"
proof -
  have "(2 :: rat) powi (- 1022) \<le> 2 powi (- 60)" by (intro power_int_increasing) simp_all
  also have "\<dots> \<le> 1 / 10000000000000" by (simp add: power_int_minus)
  finally show "1 / 10000000000000 \<le> x \<Longrightarrow> 2 powi (- 1022) \<le> x" by simp
qed

lemma ln_near: "\<bar>t\<bar> \<le> 1 / 4 \<Longrightarrow> \<bar>ln (1 + t)\<bar> \<le> 2 * \<bar>t\<bar>" for t :: real
proof -
  assume t: "\<bar>t\<bar> \<le> 1 / 4"
  then have "\<bar>ln (1 + t) - t\<bar> \<le> 2 * t\<^sup>2" by (intro abs_ln_one_plus_x_minus_x_bound) simp
  moreover have "2 * t\<^sup>2 \<le> \<bar>t\<bar>"
    using mult_left_mono [OF t, of "2 * \<bar>t\<bar>"] by (simp add: power2_eq_square abs_mult_self_eq)
  ultimately show ?thesis by linarith
qed

lemma exp_near: "\<bar>t\<bar> \<le> 1 / 2 \<Longrightarrow> \<bar>exp t - 1\<bar> \<le> 2 * \<bar>t\<bar>" for t :: real
proof -
  assume "\<bar>t\<bar> \<le> 1 / 2"
  then have "exp t \<le> 1 + 2 * \<bar>t\<bar>" using exp_bound_lemma [of t] by simp
  moreover have "1 + t \<le> exp t" by (rule exp_ge_add_one_self)
  ultimately show ?thesis by linarith
qed

text \<open>The base, the exponent, and the power of the rounded numbers against the exact ones.\<close>

definition monthly_base :: "int \<Rightarrow> rat" where
  "monthly_base rate = round64 (1 + round64 (round64 (of_int rate) / 10000))"

definition months :: "int \<Rightarrow> rat" where
  "months days = round64 (round64 (of_int days) / 30)"

lemma monthly_base_near:
  assumes "1 \<le> rate" "rate \<le> 10000"
  shows "1 + 9 / 100000 \<le> real_of (monthly_base rate)
    \<and> \<bar>ln (real_of (monthly_base rate)) - ln (1 + of_int rate / 10000)\<bar> \<le> 1 / 2 ^ 51"
proof -
  define i :: real where "i = of_int rate / 10000"
  have i: "1 / 10000 \<le> i" "i \<le> 1" using assms by (simp_all add: i_def)
  have rate: "round64 (of_int rate) = of_int rate" using assms by (intro round64_int) simp
  have tiny: "(1 / 10000000000000 :: rat) \<le> of_int rate / 10000"
    using assms(1) by (simp add: pos_le_divide_eq)
  obtain d where d: "real_of (round64 (of_int rate / 10000)) = i * (1 + d)" "\<bar>d\<bar> \<le> 1 / 2 ^ 53"
    using round64_real [OF not_tiny [OF tiny]] by (auto simp: i_def of_rat_divide)
  define s where "s = 1 + round64 (of_int rate / 10000)"
  have "0 \<le> round64 (of_int rate / 10000)" using assms(1) by (intro round64_nonneg) simp
  then have "1 / 10000000000000 \<le> s" by (simp add: s_def)
  then obtain e where e: "real_of (round64 s) = real_of s * (1 + e)" "\<bar>e\<bar> \<le> 1 / 2 ^ 53"
    using round64_real [OF not_tiny] by blast
  define a where "a = i * d / (1 + i)"
  have s: "real_of s = (1 + i) * (1 + a)"
    using i by (simp add: s_def of_rat_add d(1) a_def field_simps)
  have a: "\<bar>a\<bar> \<le> 1 / 2 ^ 53"
  proof -
    have "\<bar>a\<bar> = i / (1 + i) * \<bar>d\<bar>" using i by (simp add: a_def abs_mult)
    also have "\<dots> \<le> 1 * \<bar>d\<bar>" using i by (intro mult_right_mono) simp_all
    finally show ?thesis using d(2) by simp
  qed
  have base: "real_of (monthly_base rate) = (1 + i) * (1 + a) * (1 + e)"
    using e(1) s by (simp add: monthly_base_def rate s_def)
  have pos: "0 < 1 + a" "0 < 1 + e" using a e(2) by auto
  have "ln (real_of (monthly_base rate)) = ln (1 + i) + ln (1 + a) + ln (1 + e)"
    using i pos by (simp add: base ln_mult)
  moreover have "\<bar>ln (1 + a)\<bar> \<le> 2 * \<bar>a\<bar>" "\<bar>ln (1 + e)\<bar> \<le> 2 * \<bar>e\<bar>" using a e(2) by (auto intro: ln_near)
  ultimately have "\<bar>ln (real_of (monthly_base rate)) - ln (1 + i)\<bar> \<le> 2 * \<bar>a\<bar> + 2 * \<bar>e\<bar>" by linarith
  also have "\<dots> \<le> 1 / 2 ^ 51" using a e(2) by simp
  finally have "\<bar>ln (real_of (monthly_base rate)) - ln (1 + i)\<bar> \<le> 1 / 2 ^ 51" .
  moreover have "1 + 9 / 100000 \<le> real_of (monthly_base rate)"
  proof -
    have "(1 + 1 / 10000) * (1 - 1 / 2 ^ 53) * (1 - 1 / 2 ^ 53) \<le> (1 + i) * (1 + a) * (1 + e)"
      using i a e(2) by (intro mult_mono) (auto simp: abs_le_iff)
    then show ?thesis unfolding base by simp
  qed
  ultimately show ?thesis by (simp add: i_def)
qed

lemma months_near:
  assumes "1 \<le> days" "days \<le> 3650"
  obtains d where "real_of (months days) = of_int days / 30 * (1 + d)" "\<bar>d\<bar> \<le> 1 / 2 ^ 53"
proof -
  have "round64 (of_int days) = of_int days" using assms by (intro round64_int) simp
  moreover have "(1 / 10000000000000 :: rat) \<le> of_int days / 30"
    using assms(1) by (simp add: pos_le_divide_eq)
  ultimately show thesis
    using round64_real [OF not_tiny, of "of_int days / 30"] that by (auto simp: months_def of_rat_divide)
qed

text \<open>\<open>math.Pow\<close> is accurate to a relative error of \<open>2 ^ - 50\<close>, some units in the last place.\<close>

definition pow_accurate :: "(rat \<Rightarrow> rat \<Rightarrow> rat option) \<Rightarrow> rat \<Rightarrow> rat \<Rightarrow> bool" where
  "pow_accurate math_Pow x y \<longleftrightarrow> (case math_Pow x y of None \<Rightarrow> False
     | Some f \<Rightarrow> \<bar>real_of f - real_of x powr real_of y\<bar> \<le> real_of x powr real_of y / 2 ^ 50)"

lemma power_near:
  assumes rate: "1 \<le> rate" "rate \<le> 10000" and days: "1 \<le> days" "days \<le> 3650"
  defines "P \<equiv> real_of (monthly_base rate) powr real_of (months days)"
    and "E \<equiv> (1 + of_int rate / 10000) powr (of_int days / 30)"
  shows "1 + 1 / 1000000 \<le> P \<and> \<bar>P - E\<bar> \<le> E / 2 ^ 42 \<and> E \<le> 2 ^ 122"
proof -
  define L where "L = ln (real_of (monthly_base rate))"
  define l :: real where "l = ln (1 + of_int rate / 10000)"
  define y :: real where "y = of_int days / 30"
  note base = monthly_base_near [OF rate]
  obtain d where d: "real_of (months days) = y * (1 + d)" "\<bar>d\<bar> \<le> 1 / 2 ^ 53" using months_near [OF days] by (auto simp: y_def)
  have y: "1 / 30 \<le> y" "y \<le> 122" using days by (simp_all add: y_def)
  have l: "0 \<le> l" "l \<le> 1" and lL: "\<bar>L - l\<bar> \<le> 1 / 2 ^ 51"
    using rate base ln_le_minus_one [of "1 + of_int rate / 10000"] by (simp_all add: l_def L_def)
  have pos: "0 < real_of (monthly_base rate)" using base by linarith
  then have nonzero: "monthly_base rate \<noteq> 0" by auto
  have E: "E = exp (y * l)" and P: "P = exp (y * (1 + d) * L)"
    using rate nonzero by (simp_all add: E_def P_def powr_def d(1) y_def l_def L_def)
  have d': "0 \<le> 1 + d" "1 + d \<le> 1001 / 1000" "1 / 2 \<le> 1 + d" using d(2) by auto
  define t where "t = y * (1 + d) * L - y * l"
  have "t = y * d * l + y * (1 + d) * (L - l)" by (simp add: t_def algebra_simps)
  then have "\<bar>t\<bar> \<le> \<bar>y * d * l\<bar> + \<bar>y * (1 + d) * (L - l)\<bar>" by simp
  also have "\<dots> \<le> 122 * (1 / 2 ^ 53) * 1 + 122 * (1001 / 1000) * (1 / 2 ^ 51)"
    unfolding abs_mult using y d(2) l lL d' by (intro add_mono mult_mono) auto
  finally have t: "\<bar>t\<bar> \<le> 1 / 2 ^ 43" by simp
  have "P = E * exp t" by (simp add: E P t_def flip: exp_add)
  then have "P - E = E * (exp t - 1)" by (simp add: right_diff_distrib)
  then have "\<bar>P - E\<bar> = E * \<bar>exp t - 1\<bar>" by (simp add: E abs_mult)
  also have "\<dots> \<le> E * (2 * \<bar>t\<bar>)" using t by (intro mult_left_mono exp_near) (simp_all add: E)
  also have "\<dots> \<le> E * (2 * (1 / 2 ^ 43))" using t by (intro mult_left_mono) (simp_all add: E)
  finally have near: "\<bar>P - E\<bar> \<le> E / 2 ^ 42" by simp
  have "E \<le> exp (122 * ln 2)"
  proof -
    have "l \<le> ln 2" using rate by (simp add: l_def)
    then show ?thesis unfolding E exp_le_cancel_iff using y l by (intro mult_mono) auto
  qed
  then have small: "E \<le> 2 ^ 122" by (simp add: exp_of_nat_mult [of 122 "ln 2", simplified])
  have "8 / 100000 \<le> L"
  proof -
    have "- L \<le> inverse (real_of (monthly_base rate)) - 1"
      using ln_le_minus_one [of "inverse (real_of (monthly_base rate))"] pos by (simp add: L_def ln_inverse)
    moreover have "inverse (real_of (monthly_base rate)) \<le> inverse (1 + 9 / 100000)" using base by (intro le_imp_inverse_le) simp_all
    ultimately show ?thesis by simp
  qed
  then have "1 / 30 * (1 / 2) * (8 / 100000) \<le> y * (1 + d) * L" using y d' by (intro mult_mono) auto
  then have "1 / 1000000 \<le> y * (1 + d) * L" by simp
  then have "1 + 1 / 1000000 \<le> P" unfolding P using exp_ge_add_one_self [of "y * (1 + d) * L"] by linarith
  then show ?thesis using near small by blast
qed

lemma math_Round_near: "\<bar>of_int (math_Round y) - y\<bar> \<le> 1 / 2"
  unfolding math_Round_def by (split if_split) (intro conjI impI; linarith)

lemma math_Round_real: "\<bar>of_int (math_Round q) - real_of q\<bar> \<le> 1 / 2"
proof -
  have "\<bar>real_of (of_int (math_Round q) - q)\<bar> \<le> real_of (1 / 2)"
    unfolding abs_of_rat of_rat_less_eq by (rule math_Round_near)
  then show ?thesis by (simp add: of_rat_diff of_rat_divide del: abs_of_rat)
qed

lemma math_Round_le: "0 \<le> y \<Longrightarrow> y \<le> of_int n \<Longrightarrow> 0 \<le> math_Round y \<and> math_Round y \<le> n"
  unfolding math_Round_def by (auto simp: floor_le_iff)

text \<open>The quotient before it is rounded to cents.\<close>

lemma quotient_near:
  assumes n: "1 \<le> n" "n < 2 ^ 53" and f: "1 \<le> f" and E: "1 \<le> E" "E \<le> 2 ^ 122"
    and near: "\<bar>real_of f - E\<bar> \<le> E / 2 ^ 41"
  shows "0 \<le> round64 (of_int n / f) \<and> round64 (of_int n / f) \<le> of_int n
    \<and> \<bar>real_of (round64 (of_int n / f)) - of_int n / E\<bar> \<le> of_int n / 2 ^ 39"
proof -
  have small: "of_int n / f \<le> of_int n" "0 \<le> (of_int n / f :: rat)"
    using n f mult_left_mono [of 1 f "of_int n"] by (simp_all add: pos_divide_le_eq)
  have n53: "(of_int n :: rat) < 2 ^ 53" using n(2) by (metis of_int_less_iff of_int_numeral of_int_power)
  then have below: "of_int n / f < 2 ^ 53" using small(1) by (rule le_less_trans [rotated])
  have "real_of f \<le> E + E / 2 ^ 41" using near by linarith
  also have "\<dots> \<le> 2 ^ 123" using E by simp
  finally have "real_of f \<le> real_of (2 ^ 123)" by (simp add: of_rat_power)
  then have "f \<le> 2 ^ 123" by (simp only: of_rat_less_eq)
  have "2 powi (- 1022) \<le> (2 powi (- 123) :: rat)" by (intro power_int_increasing) simp_all
  also have "\<dots> = 1 / 2 ^ 123" by (simp add: power_int_minus)
  also have "\<dots> \<le> 1 / f" using f \<open>f \<le> 2 ^ 123\<close> by (intro divide_left_mono) simp_all
  also have "\<dots> \<le> of_int n / f" using n f by (intro divide_right_mono) simp_all
  finally obtain e where e: "real_of (round64 (of_int n / f)) = of_int n / real_of f * (1 + e)" "\<bar>e\<bar> \<le> 1 / 2 ^ 53"
    using round64_real by (metis of_rat_divide of_rat_of_int_eq)
  have "E / 2 ^ 41 \<le> E / 2" using E by simp
  then have fpos: "E / 2 \<le> real_of f" using near by linarith
  have "of_int n / real_of f * (1 + e) - of_int n / E = of_int n / E * ((E - real_of f + E * e) / real_of f)"
    using \<open>1 \<le> f\<close> E by (simp add: field_simps)
  then have "\<bar>real_of (round64 (of_int n / f)) - of_int n / E\<bar> = of_int n / E * (\<bar>E - real_of f + E * e\<bar> / real_of f)"
    using n f E by (simp add: e(1) abs_mult)
  also have "\<dots> \<le> of_int n / E * ((E / 2 ^ 41 + E / 2 ^ 53) / (E / 2))"
  proof (intro mult_left_mono frac_le)
    have "\<bar>E * e\<bar> \<le> E / 2 ^ 53" using e(2) E mult_left_mono [OF e(2), of E] by (simp add: abs_mult)
    then show "\<bar>E - real_of f + E * e\<bar> \<le> E / 2 ^ 41 + E / 2 ^ 53" using near by linarith
  qed (use n E fpos in auto)
  also have "\<dots> = of_int n / E * (2 / 2 ^ 41 + 2 / 2 ^ 53)" using E by (simp add: field_simps)
  also have "\<dots> \<le> of_int n / 1 * (2 / 2 ^ 41 + 2 / 2 ^ 53)" using n E by (intro mult_right_mono divide_left_mono) auto
  also have "\<dots> \<le> of_int n / 2 ^ 39" using n by simp
  finally have "\<bar>real_of (round64 (of_int n / f)) - of_int n / E\<bar> \<le> of_int n / 2 ^ 39" .
  then show ?thesis using round64_nonneg [OF small(2)] round64_le_int [OF small below] by blast
qed

text \<open>The factor as the code computes it.\<close>

lemma factor_near:
  assumes "pow_accurate math_Pow (monthly_base rate) (months days)"
    and rate: "1 \<le> rate" "rate \<le> 10000" and days: "1 \<le> days" "days \<le> 3650"
  defines "E \<equiv> (1 + of_int rate / 10000) powr (of_int days / 30)"
  obtains f where "math_Pow (monthly_base rate) (months days) = Some f" "1 \<le> f"
    "\<bar>real_of f - E\<bar> \<le> E / 2 ^ 41" "1 \<le> E" "E \<le> 2 ^ 122"
proof -
  define P where "P = real_of (monthly_base rate) powr real_of (months days)"
  have power: "1 + 1 / 1000000 \<le> P" "\<bar>P - E\<bar> \<le> E / 2 ^ 42" "E \<le> 2 ^ 122"
    using power_near [OF rate days] by (simp_all add: P_def E_def)
  have E: "1 \<le> E" using rate days by (simp add: E_def ge_one_powr_ge_zero)
  obtain f where f: "math_Pow (monthly_base rate) (months days) = Some f" "\<bar>real_of f - P\<bar> \<le> P / 2 ^ 50"
    using assms(1) by (auto simp: pow_accurate_def P_def split: option.splits)
  have "E / 2 ^ 42 \<le> E" using E by simp
  then have "P \<le> 2 * E" using power(2) by linarith
  then have P2: "P / 2 ^ 50 \<le> 2 * E / 2 ^ 50" by simp
  then have "\<bar>real_of f - E\<bar> \<le> 2 * E / 2 ^ 50 + E / 2 ^ 42" using f(2) power(2) P2 by linarith
  also have "\<dots> \<le> E / 2 ^ 41" using E by simp
  finally have near: "\<bar>real_of f - E\<bar> \<le> E / 2 ^ 41" .
  have "P - P / 2 ^ 50 \<le> real_of f" using f(2) by linarith
  moreover have "1 \<le> P - P / 2 ^ 50" using power(1) by simp
  ultimately have "1 \<le> real_of f" by (rule order_trans [rotated])
  then have "real_of 1 \<le> real_of f" by simp
  then have f1: "1 \<le> f" by (simp only: of_rat_less_eq)
  show thesis by (rule that [OF f(1) f1 near E power(3)])
qed


text \<open>The first line of the code's own test: 96.50 due in 30 days at 2 percent. The power with
  exponent 1 is its base.\<close>

definition sample_Pow :: "rat \<Rightarrow> rat \<Rightarrow> rat option" where
  "sample_Pow x y = (if y = 1 then Some x else None)"


end
