(* ===== verification/Merchant_Model.thy ===== *)
theory Merchant_Model
  imports Store "HOL-Library.Multiset"
begin

text \<open>
  \<open>internal/infrastructure/gormrepo/merchant_repository.go\<close>: the row \<open>MerchantModel\<close> GORM keeps
  of a merchant, with its fee plan as JSON. \<open>Store\<close> keeps merchants in its table; this theory
  shows that nothing is lost on the way through the row, whatever order the \<open>jsonb\<close> column
  gives the keys back in.
\<close>

section \<open>JSON\<close>

datatype json_value = JsonNum int | JsonStr string | JsonObj "(string \<times> json_value) list"

definition int_text :: "int \<Rightarrow> string" where
  "int_text n = (if n < 0 then CHR ''-'' # dec (nat (- n)) else dec (nat n))"

text \<open>The key of a map of numbers: a 64-bit number in decimals.\<close>

definition int_key :: "string \<Rightarrow> int option" where
  "int_key s =
     (let neg = (s \<noteq> [] \<and> hd s = CHR ''-''); digits = (if neg then tl s else s);
          n = (if neg then - int (undec digits) else int (undec digits))
      in if digits \<noteq> [] \<and> list_all is_digit digits \<and> in_range64 n then Some n else None)"

lemma int_key_text:
  assumes "in_range64 n"
  shows "int_key (int_text n) = Some n"
proof -
  have dig: "list_all is_digit (dec k)" "dec k \<noteq> []" "undec (dec k) = k" for k
    by (auto simp: list_all_iff dest: dec_digits)
  have no_sign: "hd (dec k) \<noteq> CHR ''-''" for k
    using dig(1,2) [of k] by (cases "dec k") (auto simp: is_digit_def byte_def)
  show ?thesis using assms dig no_sign by (auto simp: int_key_def int_text_def Let_def)
qed

section \<open>The fee plan's column\<close>

record feePlanJSON =
  fj_Debit :: int
  fj_CreditOneShot :: int
  fj_CreditInstallments :: "(int, int) fmap"
  fj_AnticipationMonth :: int

definition installment_fields :: "(int, int) fmap \<Rightarrow> (string \<times> json_value) list" where
  "installment_fields m = map (\<lambda>(n, bps). (int_text n, JsonNum bps)) (sorted_list_of_fmap m)"

definition plan_fields :: "feePlanJSON \<Rightarrow> (string \<times> json_value) list \<Rightarrow> (string \<times> json_value) list" where
  "plan_fields f inst =
     [(''debit_bps'', JsonNum (fj_Debit f)), (''credit_bps'', JsonNum (fj_CreditOneShot f)),
      (''credit_installments_bps'', JsonObj inst), (''anticipation_bps_month'', JsonNum (fj_AnticipationMonth f))]"

definition feePlan_Value :: "feePlanJSON \<Rightarrow> json_value" where
  "feePlan_Value f = JsonObj (plan_fields f (installment_fields (fj_CreditInstallments f)))"

text \<open>
  \<open>json.Unmarshal\<close> into a new struct: a missing field stays zero, a value of another type is
  an error.
\<close>

definition json_error :: go_error where
  "json_error = ErrorString ''json: cannot unmarshal''"

definition number_field :: "string \<Rightarrow> (string \<times> json_value) list \<Rightarrow> int result" where
  "number_field key kvs =
     (case map_of kvs key of None \<Rightarrow> Inr 0 | Some (JsonNum n) \<Rightarrow> Inr n | Some _ \<Rightarrow> Inl json_error)"

fun number_map :: "(string \<times> json_value) list \<Rightarrow> (int, int) fmap result" where
  "number_map [] = Inr fmempty"
| "number_map ((key, v) # kvs) =
     (case (int_key key, v, number_map kvs) of
        (Some n, JsonNum bps, Inr m) \<Rightarrow> Inr (fmupd n bps m)
      | _ \<Rightarrow> Inl json_error)"

definition map_field :: "string \<Rightarrow> (string \<times> json_value) list \<Rightarrow> (int, int) fmap result" where
  "map_field key kvs =
     (case map_of kvs key of None \<Rightarrow> Inr fmempty | Some (JsonObj es) \<Rightarrow> number_map es | Some _ \<Rightarrow> Inl json_error)"

definition feePlan_Scan :: "json_value \<Rightarrow> feePlanJSON result" where
  "feePlan_Scan j = (case j of
     JsonObj kvs \<Rightarrow>
       (case (number_field ''debit_bps'' kvs, number_field ''credit_bps'' kvs,
              map_field ''credit_installments_bps'' kvs, number_field ''anticipation_bps_month'' kvs) of
          (Inr d, Inr c, Inr m, Inr a) \<Rightarrow>
            Inr \<lparr>fj_Debit = d, fj_CreditOneShot = c, fj_CreditInstallments = m, fj_AnticipationMonth = a\<rparr>
        | _ \<Rightarrow> Inl json_error)
   | _ \<Rightarrow> Inl json_error)"

section \<open>The row\<close>

record merchant_model =
  mm_ID :: string
  mm_Document :: string
  mm_LegalName :: string
  mm_MCC :: string
  mm_Status :: string
  mm_BankCode :: string
  mm_BankBranch :: string
  mm_BankAccount :: string
  mm_BankAccountKind :: string
  mm_FeePlan :: feePlanJSON
  mm_WebhookURL :: string
  mm_AutoAnticipation :: bool
  mm_Version :: int
  mm_CreatedAt :: time
  mm_UpdatedAt :: time

definition toModel :: "merchant \<Rightarrow> merchant_model" where
  "toModel m =
     (let plan = m_feePlan m; b = m_bankAccount m
      in \<lparr>mm_ID = m_id m, mm_Document = m_document m, mm_LegalName = m_legalName m, mm_MCC = m_mcc m,
          mm_Status = merchant_status_string (m_status m),
          mm_BankCode = BankCode b, mm_BankBranch = Branch b, mm_BankAccount = Number b, mm_BankAccountKind = Kind b,
          mm_FeePlan = \<lparr>fj_Debit = fp_debit plan, fj_CreditOneShot = fp_creditOneShot plan,
            fj_CreditInstallments = fp_creditInstallments plan, fj_AnticipationMonth = fp_anticipationRateMonth plan\<rparr>,
          mm_WebhookURL = m_webhookURL m, mm_AutoAnticipation = m_autoAnticipation m, mm_Version = m_version m,
          mm_CreatedAt = m_createdAt m, mm_UpdatedAt = m_updatedAt m\<rparr>)"

text \<open>The column \<open>status\<close> holds one of the three states by its CHECK constraint.\<close>

definition status_of :: "string \<Rightarrow> merchant_status" where
  "status_of s = (if s = ''ACTIVE'' then Active else if s = ''BLOCKED'' then Blocked else UnderReview)"

definition toDomain :: "merchant_model \<Rightarrow> merchant result" where
  "toDomain model =
     (case NewFeePlan (fj_Debit (mm_FeePlan model)) (fj_CreditOneShot (mm_FeePlan model))
             (fj_CreditInstallments (mm_FeePlan model)) (fj_AnticipationMonth (mm_FeePlan model)) of
        Inl err \<Rightarrow> Inl err
      | Inr plan \<Rightarrow> Inr (merchant_Restore (mm_ID model) (mm_Document model) (mm_LegalName model) (mm_MCC model)
          (status_of (mm_Status model))
          \<lparr>BankCode = mm_BankCode model, Branch = mm_BankBranch model, Number = mm_BankAccount model,
           Kind = mm_BankAccountKind model\<rparr>
          plan (mm_WebhookURL model) (mm_AutoAnticipation model) (mm_Version model) (mm_CreatedAt model)
          (mm_UpdatedAt model)))"

text \<open>The repository of \<open>Store\<close> reads what the row gives: it implements the same translation.\<close>

lemma status_of_string [simp]: "status_of (merchant_status_string s) = s"
  by (cases s) (simp_all add: status_of_def merchant_status_string_def)

lemma bank_account_fields: "\<lparr>BankCode = BankCode b, Branch = Branch b, Number = Number b, Kind = Kind b\<rparr> = b"
  by (cases b) simp

theorem model_refines: "toDomain (toModel m) = merchant_toDomain m"
  by (simp add: bank_account_fields toDomain_def toModel_def merchant_toDomain_def Let_def split: sum.splits)

section \<open>The round trip\<close>

lemma same_mset: "mset xs = mset ys \<Longrightarrow> set xs = set ys"
  by (metis set_mset_mset)

lemma map_of_mset:
  assumes "mset kvs = mset kvs'" "distinct (map fst kvs')"
  shows "map_of kvs = map_of kvs'"
proof -
  have "distinct (map fst kvs)" using assms by (metis mset_eq_imp_distinct_iff mset_map)
  then show ?thesis using map_of_inject_set [OF _ assms(2)] same_mset [OF assms(1)] by metis
qed

lemma number_map_lookup:
  assumes "set kvs \<subseteq> (\<lambda>(n, bps). (int_text n, JsonNum bps)) ` E" "\<forall>(n, bps) \<in> E. in_range64 n"
    and "\<forall>(n, bps) \<in> E. \<forall>(n', bps') \<in> E. n = n' \<longrightarrow> bps = bps'"
  shows "\<exists>m. number_map kvs = Inr m \<and> (\<forall>n bps. fmlookup m n = Some bps \<longleftrightarrow> (n, bps) \<in> E \<and> (int_text n, JsonNum bps) \<in> set kvs)"
  using assms(1)
proof (induction kvs)
  case (Cons kv kvs)
  obtain n bps where kv: "kv = (int_text n, JsonNum bps)" "(n, bps) \<in> E" using Cons.prems by auto
  obtain m where m: "number_map kvs = Inr m"
    "\<forall>n bps. fmlookup m n = Some bps \<longleftrightarrow> (n, bps) \<in> E \<and> (int_text n, JsonNum bps) \<in> set kvs" using Cons by auto
  have key: "int_key (int_text n) = Some n" using assms(2) kv(2) by (auto intro: int_key_text)
  have inj: "int_text n' = int_text n \<Longrightarrow> n' = n" if "(n', b') \<in> E" for n' b'
    using key int_key_text [of n'] that assms(2) by auto
  have "fmlookup (fmupd n bps m) n' = Some b' \<longleftrightarrow> (n', b') \<in> E \<and> (int_text n', JsonNum b') \<in> set (kv # kvs)" for n' b'
    using m(2) kv assms(3) inj [of n' b'] by (cases "n' = n") fastforce+
  then show ?case using m(1) kv(1) key by simp
qed simp

lemma installments_read:
  assumes "fmpred (\<lambda>n bps. in_range64 n) m" "set kvs = set (installment_fields m)"
  shows "number_map kvs = Inr m"
proof -
  define E where "E = set (sorted_list_of_fmap m)"
  have E: "(n, bps) \<in> E \<longleftrightarrow> fmlookup m n = Some bps" for n bps
  proof -
    have "distinct (map fst (sorted_list_of_fmap m))" by (simp add: sorted_list_of_fmap_def comp_def sorted_list_of_fset.rep_eq)
    then show ?thesis unfolding E_def by (metis map_of_eq_Some_iff map_of_sorted_list)
  qed
  have "\<exists>m'. number_map kvs = Inr m' \<and>
      (\<forall>n bps. fmlookup m' n = Some bps \<longleftrightarrow> (n, bps) \<in> E \<and> (int_text n, JsonNum bps) \<in> set kvs)"
  proof (rule number_map_lookup)
    show "set kvs \<subseteq> (\<lambda>(n, bps). (int_text n, JsonNum bps)) ` E" using assms(2) by (simp add: installment_fields_def E_def)
    show "\<forall>(n, bps) \<in> E. in_range64 n" using assms(1) E by (auto simp: fmpred_iff)
    show "\<forall>(n, bps) \<in> E. \<forall>(n', bps') \<in> E. n = n' \<longrightarrow> bps = bps'" using E by auto
  qed
  moreover have "(n, bps) \<in> E \<Longrightarrow> (int_text n, JsonNum bps) \<in> set kvs" for n bps
    using assms(2) by (force simp: installment_fields_def E_def)
  ultimately obtain m' where "number_map kvs = Inr m'" "fmlookup m' n = Some bps \<longleftrightarrow> fmlookup m n = Some bps" for n bps
    using E by metis
  moreover from this have "m' = m" by (intro fmap_ext) (metis option.exhaust)
  ultimately show ?thesis by simp
qed

text \<open>C37: a merchant comes back from its row as it was: for a valid fee plan, and in whatever order the
  database gives back the keys of the JSON object and of the installments' object in it, the
  column is read without error and the row's merchant is the one that was written.\<close>

theorem merchant_row_roundtrip:
  assumes "wf_plan (m_feePlan m)"
    and inst: "mset inst = mset (installment_fields (fp_creditInstallments (m_feePlan m)))"
    and kvs: "mset kvs = mset (plan_fields (mm_FeePlan (toModel m)) inst)"
  shows "(case feePlan_Scan (JsonObj kvs) of Inl e \<Rightarrow> False | Inr f \<Rightarrow> toDomain (toModel m\<lparr>mm_FeePlan := f\<rparr>) = Inr m)"
proof -
  define p where "p = m_feePlan m"
  have "fmpred (\<lambda>n bps. in_range64 n) (fp_creditInstallments p)"
    unfolding fmpred_iff
  proof (intro allI impI)
    fix n b assume "fmlookup (fp_creditInstallments p) n = Some b"
    then have "2 \<le> n \<and> n \<le> 12" using assms(1) unfolding wf_plan_def fmpred_iff p_def by blast
    then show "in_range64 n" by (simp add: in_range64_def)
  qed
  then have read: "number_map inst = Inr (fp_creditInstallments p)"
    using installments_read same_mset [OF inst] by (simp add: p_def)
  have "distinct (map fst (plan_fields (mm_FeePlan (toModel m)) inst))" by (simp add: plan_fields_def)
  then have "map_of kvs = map_of (plan_fields (mm_FeePlan (toModel m)) inst)" by (rule map_of_mset [OF kvs])
  then have scan: "feePlan_Scan (JsonObj kvs) = Inr (mm_FeePlan (toModel m))"
    by (simp add: feePlan_Scan_def number_field_def map_field_def plan_fields_def read)
      (simp add: toModel_def p_def Let_def)
  have same: "toModel m\<lparr>mm_FeePlan := mm_FeePlan (toModel m)\<rparr> = toModel m" by simp
  have "NewFeePlan (fp_debit p) (fp_creditOneShot p) (fp_creditInstallments p) (fp_anticipationRateMonth p) = Inr p"
    using assms(1) by (simp add: NewFeePlan_wf p_def)
  then have "merchant_toDomain m = Inr m" by (simp add: merchant_toDomain_def merchant_Restore_def p_def)
  then show ?thesis by (simp only: scan sum.case same model_refines)
qed

theorem merchant_row_roundtrip_witness:
  "feePlan_Value (mm_FeePlan (toModel sample_merchant)) = JsonObj
     [(''debit_bps'', JsonNum 150), (''credit_bps'', JsonNum 250),
      (''credit_installments_bps'', JsonObj [(''2'', JsonNum 350), (''3'', JsonNum 350), (''12'', JsonNum 450)]),
      (''anticipation_bps_month'', JsonNum 200)]
   \<and> (\<exists>f. feePlan_Scan (JsonObj
     [(''anticipation_bps_month'', JsonNum 200), (''credit_bps'', JsonNum 250),
      (''credit_installments_bps'', JsonObj [(''12'', JsonNum 450), (''2'', JsonNum 350), (''3'', JsonNum 350)]),
      (''debit_bps'', JsonNum 150)]) = Inr f \<and> toDomain (toModel sample_merchant\<lparr>mm_FeePlan := f\<rparr>) = Inr sample_merchant)"
proof -
  have fields: "installment_fields sample_rates = [(''2'', JsonNum 350), (''3'', JsonNum 350), (''12'', JsonNum 450)]"
    by code_simp
  have plan: "m_feePlan sample_merchant = sample_plan" by (simp add: sample_merchant_def)
  have 1: "wf_plan (m_feePlan sample_merchant)" using wf_sample_merchant by (simp add: wf_merchant_def)
  show ?thesis
    using merchant_row_roundtrip [OF 1, of "[(''12'', JsonNum 450), (''2'', JsonNum 350), (''3'', JsonNum 350)]"
      "[(''anticipation_bps_month'', JsonNum 200), (''credit_bps'', JsonNum 250),
        (''credit_installments_bps'', JsonObj [(''12'', JsonNum 450), (''2'', JsonNum 350), (''3'', JsonNum 350)]),
        (''debit_bps'', JsonNum 150)]"]
    by (simp add: plan sample_plan_def fields plan_fields_def toModel_def feePlan_Value_def Let_def split: sum.splits)
qed

end
