(* ===== verification/Delivery.thy ===== *)
theory Delivery
  imports Pipeline
begin

text \<open>
  Webhooks across the processes: use cases write events into the outbox, the relay publishes
  them, and the consumer of \<open>cmd/notifier/main.go\<close> hands them to \<open>Notifier_Handle\<close>. The first part
  is about any consumer group of \<open>internal/infrastructure/kafka/consumer.go\<close>, whose handler the
  locale describes by what it needs; the notifier is an instance of it.
\<close>

section \<open>Consumer groups\<close>

text \<open>
  The state the handlers work on, the log of the topics, the dead-letter queue, and how far the
  group has fetched and committed each partition of each topic.
\<close>

record 'w group =
  gr_state :: 'w
  gr_log :: "message list"
  gr_dlq :: kafka
  gr_fetched :: "string \<times> nat \<Rightarrow> nat"
  gr_committed :: "string \<times> nat \<Rightarrow> nat"

type_synonym 'w handler = "string \<Rightarrow> event \<Rightarrow> 'w \<Rightarrow> unit result \<times> 'w"

text \<open>
  The steps: the rest of the system runs; a message is fetched, processed and its offset
  committed, or the commit fails; a consumer that is stopped while it waits ends (\<open>late\<close> is
  whether a commit under its done context may go through); a consumer starts again.
\<close>

inductive group_step ::
  "bool \<Rightarrow> (string \<Rightarrow> nat) \<Rightarrow> string list \<Rightarrow> ('w handler \<Rightarrow> bool)
   \<Rightarrow> ('w \<times> message list \<Rightarrow> 'w \<times> message list \<Rightarrow> bool) \<Rightarrow> 'w group \<Rightarrow> 'w group \<Rightarrow> bool"
  for late part topics handlers others where
  group_others: "others (gr_state s, gr_log s) (x', log') \<Longrightarrow>
     group_step late part topics handlers others s (s\<lparr>gr_state := x', gr_log := log'\<rparr>)"
| group_consume: "fst tp \<in> set topics \<Longrightarrow> gr_fetched s tp < length (partition_of part tp (gr_log s)) \<Longrightarrow> handlers h \<Longrightarrow>
     process_message text h stopped (partition_of part tp (gr_log s) ! gr_fetched s tp) (gr_state s, gr_dlq s) = (r, x', dlq') \<Longrightarrow>
     r \<noteq> Stopped \<Longrightarrow>
     group_step late part topics handlers others s (s\<lparr>gr_state := x', gr_dlq := dlq',
       gr_fetched := (gr_fetched s)(tp := gr_fetched s tp + 1),
       gr_committed := (if commits then (gr_committed s)(tp := gr_fetched s tp + 1) else gr_committed s)\<rparr>)"
| group_stop: "fst tp \<in> set topics \<Longrightarrow> gr_fetched s tp < length (partition_of part tp (gr_log s)) \<Longrightarrow> handlers h \<Longrightarrow>
     process_message text h stopped (partition_of part tp (gr_log s) ! gr_fetched s tp) (gr_state s, gr_dlq s) = (Stopped, x', dlq') \<Longrightarrow>
     commits \<longrightarrow> late \<Longrightarrow>
     committed' = (if commits then (gr_committed s)(tp := gr_fetched s tp + 1) else gr_committed s) \<Longrightarrow>
     group_step late part topics handlers others s (s\<lparr>gr_state := x', gr_dlq := dlq', gr_fetched := committed', gr_committed := committed'\<rparr>)"
| group_restart: "group_step late part topics handlers others s (s\<lparr>gr_fetched := gr_committed s\<rparr>)"

inductive group_reach ::
  "bool \<Rightarrow> (string \<Rightarrow> nat) \<Rightarrow> string list \<Rightarrow> ('w handler \<Rightarrow> bool)
   \<Rightarrow> ('w \<times> message list \<Rightarrow> 'w \<times> message list \<Rightarrow> bool) \<Rightarrow> 'w group \<Rightarrow> 'w group \<Rightarrow> bool"
  for late part topics handlers others s0 where
  group_start: "group_reach late part topics handlers others s0 s0"
| group_next: "group_reach late part topics handlers others s0 s \<Longrightarrow> group_step late part topics handlers others s s' \<Longrightarrow>
     group_reach late part topics handlers others s0 s'"

text \<open>One consumer that runs undisturbed over messages of a partition is a path of the system.\<close>

lemma consume_group:
  assumes h: "handlers h" and tp: "fst tp \<in> set topics"
  shows "consume text h commits (gr_fetched s tp) (gr_committed s tp) msgs (gr_state s, gr_dlq s) = (c, x, dlq) \<Longrightarrow>
     partition_of part tp (gr_log s) = take (gr_fetched s tp) (partition_of part tp (gr_log s)) @ msgs @ later \<Longrightarrow>
     \<exists>s'. group_reach late part topics handlers others s s' \<and> gr_state s' = x \<and> gr_dlq s' = dlq \<and> gr_committed s' tp = c
       \<and> gr_log s' = gr_log s"
proof (induction msgs arbitrary: s)
  case Nil
  then show ?case by (intro exI [of _ s]) (simp add: group_start)
next
  case (Cons m msgs)
  define log where "log = partition_of part tp (gr_log s)"
  define n where "n = gr_fetched s tp"
  have log: "log = take n log @ m # msgs @ later" using Cons.prems(2) by (simp add: log_def n_def)
  then have "length log = min (length log) n + Suc (length msgs + length later)" by (metis append_Cons length_Cons length_append length_take)
  then have here: "n < length log" by linarith
  then have m: "log ! n = m" using log by (metis append_eq_conv_conj id_take_nth_drop list.inject nth_append_length length_take min.absorb4)
  have rest: "log = take (n + 1) log @ msgs @ later" using log here m by (metis Suc_eq_plus1 append_Cons append_Nil append_assoc take_Suc_conv_app_nth)
  obtain r x1 dlq1 where run: "process_message text h (\<lambda>_. False) m (gr_state s, gr_dlq s) = (r, x1, dlq1)" using prod_cases3 by blast
  define s1 where "s1 = s\<lparr>gr_state := x1, gr_dlq := dlq1, gr_fetched := (gr_fetched s)(tp := gr_fetched s tp + 1),
      gr_committed := (if commits n then (gr_committed s)(tp := gr_fetched s tp + 1) else gr_committed s)\<rparr>"
  have step: "group_step late part topics handlers others s s1"
    unfolding s1_def
  proof (rule group_consume [where h = h, OF tp])
    show "gr_fetched s tp < length (partition_of part tp (gr_log s))" using here by (simp add: log_def n_def)
    show "process_message text h (\<lambda>_. False) (partition_of part tp (gr_log s) ! gr_fetched s tp) (gr_state s, gr_dlq s) = (r, x1, dlq1)"
      using run m by (simp add: log_def n_def)
  qed (rule h, rule never_stopped [OF run])
  have "consume text h commits (gr_fetched s1 tp) (gr_committed s1 tp) msgs (gr_state s1, gr_dlq s1) = (c, x, dlq)"
    using Cons.prems(1) run by (simp add: s1_def n_def split: if_splits)
  moreover have "partition_of part tp (gr_log s1) = take (gr_fetched s1 tp) (partition_of part tp (gr_log s1)) @ msgs @ later"
    using rest by (simp add: s1_def log_def n_def)
  ultimately obtain s' where s': "group_reach late part topics handlers others s1 s'" "gr_state s' = x" "gr_dlq s' = dlq"
    "gr_committed s' tp = c" "gr_log s' = gr_log s1" using Cons.IH by blast
  have "group_reach late part topics handlers others s s'"
    using s'(1) by (induction rule: group_reach.induct) (auto intro: group_next [OF group_start step] group_next)
  then show ?case using s' by (intro exI [of _ s']) (simp add: s1_def)
qed

definition disposed :: "(message \<Rightarrow> 'w \<Rightarrow> bool) \<Rightarrow> kafka \<Rightarrow> 'w \<Rightarrow> message \<Rightarrow> bool" where
  "disposed dealt dlq x m \<longleftrightarrow> dealt m x \<or> dead_lettered dlq m"

text \<open>Every message before the group's position is dealt with, or lies in the dead-letter queue.\<close>

definition group_ok ::
  "(string \<Rightarrow> nat) \<Rightarrow> string list \<Rightarrow> ('w \<Rightarrow> message list \<Rightarrow> bool) \<Rightarrow> (message \<Rightarrow> 'w \<Rightarrow> bool) \<Rightarrow> 'w group \<Rightarrow> bool" where
  "group_ok part topics linked dealt s \<longleftrightarrow> linked (gr_state s) (gr_log s) \<and> k_ends (gr_dlq s) = (\<lambda>_. Acked)
     \<and> (\<forall>tp. gr_committed s tp \<le> gr_fetched s tp \<and> gr_fetched s tp \<le> length (partition_of part tp (gr_log s)))
     \<and> (\<forall>tp. fst tp \<in> set topics \<longrightarrow> (\<forall>i < gr_fetched s tp.
          disposed dealt (gr_dlq s) (gr_state s) (partition_of part tp (gr_log s) ! i)))"

text \<open>
  What is asked of the handlers of a group: they only make the state grow, along an order \<open>goes\<close>;
  a call that returns without error has dealt with its message; and what is dealt with stays so,
  also where the rest of the system runs. \<open>linked\<close> relates the state and the log.
\<close>

locale consumer_group =
  fixes topics :: "string list"
    and handlers :: "'w handler \<Rightarrow> bool"
    and others :: "'w \<times> message list \<Rightarrow> 'w \<times> message list \<Rightarrow> bool"
    and dealt :: "message \<Rightarrow> 'w \<Rightarrow> bool"
    and goes :: "'w \<Rightarrow> 'w \<Rightarrow> bool"
    and linked :: "'w \<Rightarrow> message list \<Rightarrow> bool"
  assumes goes_refl: "goes x x"
    and goes_trans: "goes x y \<Longrightarrow> goes y z \<Longrightarrow> goes x z"
    and handler_goes: "handlers h \<Longrightarrow> h ty ev x = (r, x') \<Longrightarrow> goes x x'"
    and handler_deals: "handlers h \<Longrightarrow> h (event_type m) (ms_Value m) x = (Inr (), x') \<Longrightarrow> dealt m x'"
    and dealt_goes: "dealt m x \<Longrightarrow> goes x x' \<Longrightarrow> dealt m x'"
    and inv_goes: "linked x msgs \<Longrightarrow> goes x x' \<Longrightarrow> linked x' msgs"
    and others_inv: "others (x, msgs) (x', msgs') \<Longrightarrow> linked x msgs \<Longrightarrow> linked x' msgs' \<and> (\<exists>ys. msgs' = msgs @ ys)"
    and others_dealt: "others (x, msgs) (x', msgs') \<Longrightarrow> dealt m x \<Longrightarrow> dealt m x'"
begin

lemma calls_go: "handlers h \<Longrightarrow> goes x (after_calls (h ty ev) n x)"
proof (induction n arbitrary: x)
  case (Suc n)
  obtain r x1 where 1: "h ty ev x = (r, x1)" by fastforce
  show ?case using goes_trans [OF handler_goes [OF Suc.prems 1] Suc.IH [OF Suc.prems]] by (simp add: after_calls_Suc 1)
qed (simp add: after_calls_def goes_refl)

lemma processed:
  assumes run: "process_message text h stopped m (x, dlq) = (r, x', dlq')" and h: "handlers h"
  shows "goes x x' \<and> k_ends dlq' = k_ends dlq \<and> set (k_log dlq) \<subseteq> set (k_log dlq')
    \<and> (r \<noteq> Stopped \<longrightarrow> k_ends dlq = (\<lambda>_. Acked) \<longrightarrow> dealt m x' \<or> dead_lettered dlq' m)"
proof -
  obtain r1 waits x1 where loop: "attempt_loop maxAttempts 1 (h (event_type m) (ms_Value m)) stopped None x = (r1, waits, x1)"
    using prod_cases3 by blast
  have res: "r = r1" "x1 = x'" "dlq' = (case r of Dead_letter e \<Rightarrow> snd (WriteMessages (dead_message text m e) dlq) | _ \<Rightarrow> dlq)"
    using run loop by (auto simp: process_message_def split: process_end.splits)
  obtain k where k: "x1 = after_calls (h (event_type m) (ms_Value m)) k x"
    "r1 = Handled \<longrightarrow> 0 < k \<and> answer (h (event_type m) (ms_Value m)) (k - 1) x = Inr ()"
    using attempt_loop_spec [OF loop] by force
  have "dealt m x'" if "r = Handled"
  proof -
    let ?y = "after_calls (h (event_type m) (ms_Value m)) (k - 1) x"
    have last: "0 < k" "fst (h (event_type m) (ms_Value m) ?y) = Inr ()" using k(2) that res(1) by (simp_all add: answer_def)
    have "x' = snd (h (event_type m) (ms_Value m) ?y)" using last(1) k(1) res(2) by (cases k) (simp_all add: after_calls_def)
    then have "h (event_type m) (ms_Value m) ?y = (Inr (), x')" using last(2) by (metis prod.collapse)
    then show ?thesis by (rule handler_deals [OF h])
  qed
  moreover have "goes x x'" using calls_go [OF h] k(1) res(2) by simp
  ultimately show ?thesis unfolding res(3)
    by (auto simp: WriteMessages_def Let_def dead_lettered_def split: process_end.splits write_end.splits)
qed

lemma ok_delivery:
  assumes ok: "group_ok part topics linked dealt s" and h: "handlers h"
    and run: "process_message text h stopped m (gr_state s, gr_dlq s) = (r, x', dlq')"
  shows "group_ok part topics linked dealt (s\<lparr>gr_state := x', gr_dlq := dlq'\<rparr>)
    \<and> (r \<noteq> Stopped \<longrightarrow> disposed dealt dlq' x' m)"
proof -
  have acked: "k_ends (gr_dlq s) = (\<lambda>_. Acked)" using ok by (simp add: group_ok_def)
  note del = processed [OF run h]
  have "disposed dealt dlq' x' y" if "disposed dealt (gr_dlq s) (gr_state s) y" for y
    using that del dealt_goes unfolding disposed_def dead_lettered_def by blast
  moreover have "linked x' (gr_log s)" using ok del inv_goes unfolding group_ok_def by blast
  ultimately show ?thesis using ok del acked unfolding group_ok_def by (simp add: disposed_def)
qed

lemma group_step_ok:
  "group_step late part topics handlers others s s' \<Longrightarrow> \<not> late \<Longrightarrow> group_ok part topics linked dealt s \<Longrightarrow> group_ok part topics linked dealt s'"
proof (induction rule: group_step.induct)
  case (group_others s x' log')
  have "linked (gr_state s) (gr_log s)" using group_others(3) by (simp add: group_ok_def)
  then obtain ys where o: "linked x' log'" "log' = gr_log s @ ys" using others_inv [OF group_others(1)] by blast
  have pos: "gr_fetched s tp \<le> length (partition_of part tp (gr_log s))" for tp using group_others(3) unfolding group_ok_def by blast
  have "partition_of part tp log' ! i = partition_of part tp (gr_log s) ! i" if "i < gr_fetched s tp" for tp i
    using order.strict_trans2 [OF that pos] by (simp add: o(2) partition_append nth_append)
  moreover have "gr_fetched s tp \<le> length (partition_of part tp log')" for tp
    using pos by (simp add: o(2) partition_append trans_le_add1)
  moreover have "disposed dealt (gr_dlq s) (gr_state s) m \<Longrightarrow> disposed dealt (gr_dlq s) x' m" for m
    using others_dealt [OF group_others(1)] unfolding disposed_def by blast
  ultimately show ?case using group_others(3) o(1) unfolding group_ok_def by simp
next
  case (group_consume tp s h errs stopped r x' dlq' commits)
  note ok = ok_delivery [OF group_consume(7,3,4)]
  show ?case using ok group_consume(2,5) unfolding group_ok_def by (auto simp: less_Suc_eq le_SucI)
next
  case (group_stop tp s h errs stopped x' dlq' commits committed')
  note ok = ok_delivery [OF group_stop(8,3,4)]
  have "committed' = gr_committed s" using group_stop(5-7) by simp
  then show ?case using ok unfolding group_ok_def by (simp add: order_less_le_trans order_trans) (meson order_less_le_trans order_trans)
next
  case (group_restart s)
  then show ?case by (simp add: group_ok_def) (meson order_less_le_trans order_trans)
qed

lemma group_reach_ok:
  assumes "group_reach False part topics handlers others s0 s" "group_ok part topics linked dealt s0"
  shows "group_ok part topics linked dealt s"
  using assms by (induction rule: group_reach.induct) (auto intro: group_step_ok)

end

section \<open>The notifier\<close>

definition notifier_topics :: "string list" where
  "notifier_topics = [''transaction.authorized'', ''transaction.captured'', ''transaction.canceled'', ''transaction.chargebacked'',
     ''receivable.scheduled'', ''receivable.anticipated'', ''settlement.completed'', ''settlement.failed'', ''chargeback.opened'']"

text \<open>The field \<open>merchant_id\<close>, which every event has, and so what the notifier decodes from a payload.\<close>

definition event_merchant :: "event \<Rightarrow> string" where
  "event_merchant ev = (case ev of TxEvent e \<Rightarrow> te_merchant e | RcvEvent e \<Rightarrow> rs_MerchantID e | AntEvent e \<Rightarrow> ac_MerchantID e
     | StlEvent e \<Rightarrow> se_merchantID e | CbEvent e \<Rightarrow> ce_merchantID e)"

definition envelope_of :: "event \<Rightarrow> envelope" where
  "envelope_of ev = \<lparr>env_EventID = EventID ev, env_MerchantID = event_merchant ev\<rparr>"

text \<open>
  The state of the consumer: the program's, the number of calls so far, and as a history the
  merchants the handler has read, each with the event it read it for.
\<close>

record hook_state =
  hs_world :: world
  hs_calls :: nat
  hs_seen :: "(event \<times> merchant) list"

text \<open>
  The handler of \<open>cmd/notifier/main.go\<close>; \<open>body\<close> is the JSON text of an event, the sender may answer
  differently at every call, and \<open>env\<close> is what else runs between two calls.
\<close>

definition notifier_handler ::
  "(nat \<Rightarrow> world \<Rightarrow> world) \<Rightarrow> (string \<Rightarrow> string \<Rightarrow> string) \<Rightarrow> (nat \<Rightarrow> sender) \<Rightarrow> string \<Rightarrow> (event \<Rightarrow> string) \<Rightarrow> hook_state handler" where
  "notifier_handler env hmac send secret body ty ev s =
     (case Notifier_Handle hmac (send (hs_calls s)) secret ty (body ev) (Some (envelope_of ev)) (hs_world s) of
        (r, w') \<Rightarrow> (r, \<lparr>hs_world = env (hs_calls s) w', hs_calls = hs_calls s + 1,
          hs_seen = hs_seen s @ (case merchants_FindByID (event_merchant ev) (hs_world s) of
             (Inr m, _) \<Rightarrow> [(ev, m)] | (Inl e, _) \<Rightarrow> [])\<rparr>))"

definition is_notifier :: "(string \<Rightarrow> string \<Rightarrow> string) \<Rightarrow> string \<Rightarrow> (event \<Rightarrow> string) \<Rightarrow> hook_state handler \<Rightarrow> bool" where
  "is_notifier hmac secret body h \<longleftrightarrow> (\<exists>env send. h = notifier_handler env hmac send secret body \<and> (\<forall>n w. acq_reach w (env n w)))"

text \<open>The rest of the system: any run of the program, and a round of the relay.\<close>

definition hook_others :: "hook_state \<times> message list \<Rightarrow> hook_state \<times> message list \<Rightarrow> bool" where
  "hook_others a b \<longleftrightarrow> (case (a, b) of ((s, msgs), (s', msgs')) \<Rightarrow>
     (\<exists>w'. acq_reach (hs_world s) w' \<and> s' = s\<lparr>hs_world := w'\<rparr> \<and> msgs' = msgs)
     \<or> (\<exists>held limit delivered k r w' k'. publishBatch held limit delivered (hs_world s, k) = (r, w', k')
          \<and> k_log k = msgs \<and> k_log k' = msgs' \<and> s' = s\<lparr>hs_world := w'\<rparr>))"

text \<open>The merchant of the event was read and wants no webhooks, or its URL got the event, signed.\<close>

definition notified :: "(string \<Rightarrow> string \<Rightarrow> string) \<Rightarrow> string \<Rightarrow> (event \<Rightarrow> string) \<Rightarrow> message \<Rightarrow> hook_state \<Rightarrow> bool" where
  "notified hmac secret body m s \<longleftrightarrow> (\<exists>mer. (ms_Value m, mer) \<in> set (hs_seen s) \<and> m_id mer = event_merchant (ms_Value m)
     \<and> (m_webhookURL mer = '''' \<or> Webhook (m_webhookURL mer) (body (ms_Value m))
          [(''Content-Type'', ''application/json''), (''X-Event-Id'', EventID (ms_Value m)), (''X-Event-Type'', event_type m),
           (''X-Signature'', ''sha256='' @ Sign hmac secret (body (ms_Value m)))] \<in> set (w_effects (hs_world s))))"

section \<open>Effects are not undone\<close>

definition keeps_effects :: "world \<Rightarrow> world \<Rightarrow> bool" where
  "keeps_effects w w' \<longleftrightarrow> set (w_effects w) \<subseteq> set (w_effects w')"

interpretation noting: outside_frame keeps_effects
  by unfold_locales (auto simp: keeps_effects_def)

lemma noting_effect [frame]: "runs keeps_effects (effect_log e)"
  by (auto simp: runs_def effect_log_def keeps_effects_def)

lemma noting_use_cases:
  "runs keeps_effects (Onboard_Execute parse now oc)" "runs keeps_effects (Review_change change i)"
  "runs keeps_effects (Authorize_Execute vault issuer rules now now' ac)" "runs keeps_effects (Lifecycle_change change' mid i)"
  "runs keeps_effects (Scheduler_Handle register cal now ty payload)" "runs keeps_effects (Anticipate_Simulate pv now mid ids)"
  "runs keeps_effects (Anticipate_Request check_liens transfer pv now mid ids)" "runs keeps_effects (Open_Execute now opc)"
  "runs keeps_effects (Notifier_Handle hmac send secret ty body decoded)" "runs keeps_effects (settleMerchant sv day now mid rs rep)"
  unfolding Onboard_Execute_def Review_change_def Authorize_Execute_def issuer_outcome_def store_body_def
    Lifecycle_change_def change_body_def Scheduler_Handle_def onCaptured_def captured_body_def
    onCanceled_def canceled_body_def Anticipate_Simulate_def Anticipate_Request_def request_body_def
    Open_Execute_def open_body_def settleMerchant_def send_to_bank_def
  by (intro frame)+

lemma noting_step: "acq_step w w' \<Longrightarrow> keeps_effects w w'"
proof (induction rule: acq_step.induct)
  case (acq_settle fuel sv acquire n clock date w rr w')
  then show ?case using noting.run_SettleDue [OF noting_use_cases(10) noting_effect] by blast
next
  case (acq_environment w' w faults locked)
  then show ?case by (simp add: keeps_effects_def)
qed (unfold Review_Approve_def Review_Block_def Review_UpdateSettings_def Lifecycle_Capture_def Lifecycle_Cancel_def,
    (erule noting_use_cases [THEN runsD])+)

lemma noting_reach: "acq_reach w w' \<Longrightarrow> keeps_effects w w'"
  by (induction rule: acq_reach.induct) (auto intro: noting.R_refl noting.R_trans dest: noting_step)

lemma batch_effects: "publishBatch held limit delivered (w, k) = (r, w', k') \<Longrightarrow> w_effects w' = w_effects w"
  unfolding publishBatch_def stmt_def query_def exec_def
  by (auto split: option.splits if_splits prod.splits)

section \<open>The notifier is a consumer group\<close>

definition hook_goes :: "hook_state \<Rightarrow> hook_state \<Rightarrow> bool" where
  "hook_goes s s' \<longleftrightarrow> moves (hs_world s) (hs_world s') \<and> keeps_effects (hs_world s) (hs_world s') \<and> set (hs_seen s) \<subseteq> set (hs_seen s')"

definition hook_linked :: "hook_state \<Rightarrow> message list \<Rightarrow> bool" where
  "hook_linked s msgs \<longleftrightarrow> relay_ok False (t_outbox (w_db (hs_world s))) (w_outbox_seq (hs_world s)) msgs"

lemma Notifier_success:
  assumes "Notifier_Handle hmac send secret ty body (Some env) w = (Inr u, w')"
  shows "\<exists>m w1. merchants_FindByID (env_MerchantID env) w = (Inr m, w1) \<and> m_id m = env_MerchantID env
    \<and> (m_webhookURL m = '''' \<or> Webhook (m_webhookURL m) body [(''Content-Type'', ''application/json''), (''X-Event-Id'', env_EventID env),
          (''X-Event-Type'', ty), (''X-Signature'', ''sha256='' @ Sign hmac secret body)] \<in> set (w_effects w'))"
  using assms merchants_FindByID_found [of "env_MerchantID env" w]
  by (auto simp: Notifier_Handle_def Let_def effect_log_def split: if_splits prod.splits sum.splits option.splits)

lemma notifier_goes:
  assumes "is_notifier hmac secret body h" "h ty ev s = (r, s')"
  shows "hook_goes s s'"
proof -
  obtain env send where h: "h = notifier_handler env hmac send secret body" and env: "\<And>n w. acq_reach w (env n w)"
    using assms(1) by (auto simp: is_notifier_def)
  obtain w1 where 1: "Notifier_Handle hmac (send (hs_calls s)) secret ty (body ev) (Some (envelope_of ev)) (hs_world s) = (r, w1)"
    and s': "hs_world s' = env (hs_calls s) w1" "set (hs_seen s) \<subseteq> set (hs_seen s')"
    using assms(2) by (auto simp: h notifier_handler_def split: prod.splits)
  have "moves (hs_world s) w1" "keeps_effects (hs_world s) w1"
    using runsD [OF moving_use_cases(9) 1] runsD [OF noting_use_cases(9) 1] .
  then show ?thesis using moving.R_trans [OF _ moving_reach [OF env]] noting.R_trans [OF _ noting_reach [OF env]] s'
    by (simp add: hook_goes_def)
qed

lemma notifier_deals:
  assumes "is_notifier hmac secret body h" "h (event_type m) (ms_Value m) s = (Inr (), s')"
  shows "notified hmac secret body m s'"
proof -
  obtain env send where h: "h = notifier_handler env hmac send secret body" and env: "\<And>n w. acq_reach w (env n w)"
    using assms(1) by (auto simp: is_notifier_def)
  obtain w1 where 1: "Notifier_Handle hmac (send (hs_calls s)) secret (event_type m) (body (ms_Value m))
      (Some (envelope_of (ms_Value m))) (hs_world s) = (Inr (), w1)"
    and s': "hs_world s' = env (hs_calls s) w1" "hs_seen s' = hs_seen s @ (case merchants_FindByID (event_merchant (ms_Value m)) (hs_world s) of
             (Inr mer, _) \<Rightarrow> [(ms_Value m, mer)] | (Inl e, _) \<Rightarrow> [])"
    using assms(2) by (auto simp: h notifier_handler_def split: prod.splits)
  have "keeps_effects w1 (hs_world s')" using noting_reach [OF env] by (simp add: s')
  then show ?thesis using Notifier_success [OF 1] s'(2) unfolding notified_def keeps_effects_def
    by (auto simp: envelope_of_def)
qed

lemma hook_others_linked:
  assumes "hook_others (s, msgs) (s', msgs')" "hook_linked s msgs"
  shows "hook_linked s' msgs' \<and> (\<exists>ys. msgs' = msgs @ ys)"
proof -
  consider w' where "acq_reach (hs_world s) w'" "s' = s\<lparr>hs_world := w'\<rparr>" "msgs' = msgs"
    | held limit delivered k r w' k' where "publishBatch held limit delivered (hs_world s, k) = (r, w', k')"
      "k_log k = msgs" "k_log k' = msgs'" "s' = s\<lparr>hs_world := w'\<rparr>"
    using assms(1) unfolding hook_others_def by auto
  then show ?thesis
  proof cases
    case 1
    then show ?thesis using moving_reach [OF 1(1)] assms(2) relay_ok_grows by (auto simp: hook_linked_def moves_def)
  next
    case 2
    have "relay_step False (hs_world s, k) (w', k')" using 2(1) by (intro relay_round) auto
    then have "hook_linked s' msgs'"
      using relay_step_ok [of False "(hs_world s, k)" "(w', k')"] assms(2) 2(2-4) by (simp add: hook_linked_def)
    then show ?thesis using publishBatch_spec [OF 2(1)] 2(2-4) by auto
  qed
qed

lemma hook_others_keep:
  "hook_others (s, msgs) (s', msgs') \<Longrightarrow> keeps_effects (hs_world s) (hs_world s') \<and> hs_seen s' = hs_seen s"
  unfolding hook_others_def by (auto dest!: noting_reach batch_effects simp: keeps_effects_def)

interpretation hooks: consumer_group notifier_topics "is_notifier hmac secret body" hook_others "notified hmac secret body" hook_goes hook_linked
  for hmac secret body
proof
  show "hook_goes x x" for x by (simp add: hook_goes_def moving.R_refl noting.R_refl)
  show "hook_goes x y \<Longrightarrow> hook_goes y z \<Longrightarrow> hook_goes x z" for x y z
    unfolding hook_goes_def using moving.R_trans noting.R_trans by blast
  show "is_notifier hmac secret body h \<Longrightarrow> h ty ev x = (r, x') \<Longrightarrow> hook_goes x x'" for h ty ev x r x'
    by (rule notifier_goes)
  show "is_notifier hmac secret body h \<Longrightarrow> h (event_type m) (ms_Value m) x = (Inr (), x') \<Longrightarrow> notified hmac secret body m x'" for h m x x'
    by (rule notifier_deals)
  show "notified hmac secret body m x \<Longrightarrow> hook_goes x x' \<Longrightarrow> notified hmac secret body m x'" for m x x'
    unfolding notified_def hook_goes_def keeps_effects_def by blast
  show "hook_linked x msgs \<Longrightarrow> hook_goes x x' \<Longrightarrow> hook_linked x' msgs" for x msgs x'
    unfolding hook_linked_def hook_goes_def moves_def using relay_ok_grows by blast
  show "hook_others (x, msgs) (x', msgs') \<Longrightarrow> hook_linked x msgs \<Longrightarrow> hook_linked x' msgs' \<and> (\<exists>ys. msgs' = msgs @ ys)" for x msgs x' msgs'
    using hook_others_linked by blast
  show "hook_others (x, msgs) (x', msgs') \<Longrightarrow> notified hmac secret body m x \<Longrightarrow> notified hmac secret body m x'" for x msgs x' msgs' m
    using hook_others_keep [of x msgs x' msgs'] unfolding notified_def keeps_effects_def by auto
qed

text \<open>C14: every event a merchant should hear of is delivered to its webhook at least once. From an empty outbox
  and an empty Kafka, whatever steps the program, the relay and the notifier's consumer take in
  whatever order, with statements and deliveries that fail and consumers that crash: an event of
  one of the notifier's topics that is marked as published is a message of its partition; and
  once the group's committed offset has passed the message, either it lies in the dead-letter
  queue (which is assumed to accept what is written, as no commit may go through under a done
  context), or the merchant of the event was read and either it wants no webhooks or its URL
  got exactly the event's text with a signature that verifies.\<close>

theorem webhooks_delivered:
  assumes "group_reach False part notifier_topics (is_notifier hmac secret body) hook_others s0 s"
    and "t_outbox (w_db (hs_world (gr_state s0))) = []" "gr_log s0 = []" "k_ends (gr_dlq s0) = (\<lambda>_. Acked)"
    and "gr_fetched s0 = (\<lambda>_. 0)" "gr_committed s0 = (\<lambda>_. 0)"
    and x: "x \<in> set (t_outbox (w_db (hs_world (gr_state s))))" "EventType (ob_event x) \<in> set notifier_topics"
  defines "tp \<equiv> (EventType (ob_event x), part (AggregateID (ob_event x)))"
  shows "(ob_published x \<longrightarrow> message_of x \<in> set (partition_of part tp (gr_log s)))
    \<and> (\<forall>i < gr_committed s tp. partition_of part tp (gr_log s) ! i = message_of x \<longrightarrow>
         dead_lettered (gr_dlq s) (message_of x) \<or>
         (\<exists>mer. (ob_event x, mer) \<in> set (hs_seen (gr_state s)) \<and> m_id mer = event_merchant (ob_event x)
            \<and> (m_webhookURL mer = '''' \<or>
               (\<exists>headers sig. Webhook (m_webhookURL mer) (body (ob_event x)) headers \<in> set (w_effects (hs_world (gr_state s)))
                  \<and> map_of headers ''X-Event-Id'' = Some (EventID (ob_event x))
                  \<and> map_of headers ''X-Event-Type'' = Some (EventType (ob_event x))
                  \<and> map_of headers ''X-Signature'' = Some (''sha256='' @ sig) \<and> Verify hmac secret (body (ob_event x)) sig))))"
proof -
  have "group_ok part notifier_topics hook_linked (notified hmac secret body) s0"
    using assms(2-6) by (simp add: group_ok_def hook_linked_def relay_ok_def event_ids_def)
  then have ok: "group_ok part notifier_topics hook_linked (notified hmac secret body) s" by (rule hooks.group_reach_ok [OF assms(1)])
  then have relay: "relay_ok False (t_outbox (w_db (hs_world (gr_state s)))) (w_outbox_seq (hs_world (gr_state s))) (gr_log s)"
    by (simp add: group_ok_def hook_linked_def)
  have msg: "ms_Value (message_of x) = ob_event x" "event_type (message_of x) = EventType (ob_event x)"
    "ms_Topic (message_of x) = EventType (ob_event x)" "ms_Key (message_of x) = AggregateID (ob_event x)"
    by (simp_all add: message_of_def event_type_def)
  have "message_of x \<in> set (partition_of part tp (gr_log s))" if "ob_published x"
    using relay that x(1) unfolding relay_ok_def by (auto simp: partition_of_def tp_def msg)
  moreover have "disposed (notified hmac secret body) (gr_dlq s) (gr_state s) (message_of x)"
    if i: "i < gr_committed s tp" "partition_of part tp (gr_log s) ! i = message_of x" for i
  proof -
    have "i < gr_fetched s tp" using ok i(1) order.strict_trans2 unfolding group_ok_def by blast
    moreover have "fst tp \<in> set notifier_topics" using x(2) by (simp add: tp_def)
    ultimately show ?thesis using ok i(2) unfolding group_ok_def by metis
  qed
  moreover have "Verify hmac secret b (Sign hmac secret b)" for b by (simp add: Verify_def)
  ultimately show ?thesis unfolding disposed_def notified_def msg by (fastforce simp: Verify_def)
qed

section \<open>A sample run\<close>

text \<open>The sample sale of a merchant with a webhook is captured, published, and its webhook sent.\<close>

definition hook_merchant :: merchant where
  "hook_merchant = sample_active\<lparr>m_webhookURL := ''https://ec''\<rparr>"

definition hook_world :: world where
  "hook_world = (pp_world sample_pipe)\<lparr>w_db := (w_db (pp_world sample_pipe))\<lparr>t_merchants := [hook_merchant]\<rparr>\<rparr>"

definition sample_group :: "hook_state group" where
  "sample_group = \<lparr>gr_state = \<lparr>hs_world = hook_world, hs_calls = 0, hs_seen = []\<rparr>, gr_log = [], gr_dlq = sample_kafka,
     gr_fetched = (\<lambda>_. 0), gr_committed = (\<lambda>_. 0)\<rparr>"

definition sample_notifier :: "hook_state handler" where
  "sample_notifier = notifier_handler (\<lambda>_ w. w) (\<lambda>k b. k @ b) (\<lambda>_ _ _ _. None) ''s'' (\<lambda>_. ''{}'')"

lemma hook_capture:
  "\<exists>t w ev. Lifecycle_Capture 7 ''m_1'' (tx_id sample_captured) hook_world = (Inr t, w)
     \<and> t_outbox (w_db w) = [\<lparr>ob_id = 1, ob_event = TxEvent ev, ob_published = False\<rparr>]
     \<and> ev_Type (te_base ev) = ''transaction.captured'' \<and> te_merchant ev = ''m_1'' \<and> w_faults w = (\<lambda>_. None)
     \<and> t_merchants (w_db w) = [hook_merchant]"
  by (simp add: Lifecycle_Capture_def Lifecycle_change_def Do_Inr change_body_def transactions_FindByIDForUpdate_def
        transactions_FindByID_def transactions_find_def tx_Capture_def tx_edges transactions_Update_def
        update_version_def tx_PullEvents_def insert_row_def Let_def idle_world_def start_world_def sample_world_def
        sample_tables_def sample_tx_defs sample_pipe_def hook_world_def NewBaseEvent_def)

lemma hook_toDomain: "merchant_toDomain hook_merchant = Inr hook_merchant" "m_id hook_merchant = ''m_1''"
  "m_webhookURL hook_merchant = ''https://ec''"
  using sample_plan_new
  by (simp_all add: merchant_toDomain_def merchant_Restore_def hook_merchant_def sample_active_def sample_merchant_def touch_def)
    (simp add: sample_plan_def)

lemma hook_publish:
  assumes "t_outbox (w_db w) = [\<lparr>ob_id = 1, ob_event = ev, ob_published = False\<rparr>]" "w_faults w = (\<lambda>_. None)"
  shows "\<exists>r w' k. publishBatch [] 10 10 (w, sample_kafka) = (r, w', k) \<and> k_log k = [message_of \<lparr>ob_id = 1, ob_event = ev, ob_published = True\<rparr>]
    \<and> t_outbox (w_db w') = [\<lparr>ob_id = 1, ob_event = ev, ob_published = True\<rparr>] \<and> t_merchants (w_db w') = t_merchants (w_db w)
    \<and> w_faults w' = (\<lambda>_. None)"
  by (simp add: publishBatch_def stmt_def query_def exec_def pending_rows_def mark_published_def assms
        sample_kafka_def publish_row_def Publish_def WriteMessages_def message_of_def)

lemma hook_send:
  assumes "t_merchants (w_db w) = [hook_merchant]" "w_faults w = (\<lambda>_. None)" "te_merchant ev = ''m_1''"
  shows "\<exists>w'. sample_notifier ty (TxEvent ev) \<lparr>hs_world = w, hs_calls = 0, hs_seen = []\<rparr>
      = (Inr (), \<lparr>hs_world = w', hs_calls = 1, hs_seen = [(TxEvent ev, hook_merchant)]\<rparr>) \<and> w_db w' = w_db w"
proof -
  have "\<exists>w1. merchants_FindByID ''m_1'' w = (Inr hook_merchant, w1) \<and> w_db w1 = w_db w"
    by (simp add: merchants_FindByID_def assms hook_toDomain mbind_def wrap_def query_def stmt_def)
  then show ?thesis
    by (auto simp: sample_notifier_def notifier_handler_def Notifier_Handle_def envelope_of_def event_merchant_def assms(3)
        hook_toDomain Let_def effect_log_def)
qed

lemma hook_published:
  "\<exists>w w2 r k x ev. acq_reach hook_world w \<and> publishBatch [] 10 10 (w, sample_kafka) = (r, w2, k) \<and> k_log k = [message_of x]
     \<and> t_outbox (w_db w2) = [x] \<and> t_merchants (w_db w2) = [hook_merchant] \<and> w_faults w2 = (\<lambda>_. None)
     \<and> ob_event x = TxEvent ev \<and> ev_Type (te_base ev) = ''transaction.captured'' \<and> te_merchant ev = ''m_1''"
proof -
  obtain t w ev where cap: "Lifecycle_Capture 7 ''m_1'' (tx_id sample_captured) hook_world = (Inr t, w)"
    "t_outbox (w_db w) = [\<lparr>ob_id = 1, ob_event = TxEvent ev, ob_published = False\<rparr>]" "ev_Type (te_base ev) = ''transaction.captured''"
    "te_merchant ev = ''m_1''" "w_faults w = (\<lambda>_. None)" "t_merchants (w_db w) = [hook_merchant]"
    using hook_capture by blast
  have "acq_reach hook_world w" by (rule acq_next [OF acq_refl acq_capture [OF cap(1)]])
  moreover define x where "x = \<lparr>ob_id = 1, ob_event = TxEvent ev, ob_published = True\<rparr>"
  moreover obtain r w2 k where "publishBatch [] 10 10 (w, sample_kafka) = (r, w2, k)" "k_log k = [message_of x]" "t_outbox (w_db w2) = [x]"
    "t_merchants (w_db w2) = [hook_merchant]" "w_faults w2 = (\<lambda>_. None)"
    using hook_publish [OF cap(2,5)] cap(6) unfolding x_def by auto
  moreover have "ob_event x = TxEvent ev" by (simp add: x_def)
  ultimately show ?thesis using cap(3,4) by metis
qed

lemma hook_run:
  "\<exists>s x. group_reach False (\<lambda>_. 0) notifier_topics (is_notifier (\<lambda>k b. k @ b) ''s'' (\<lambda>_. ''{}'')) hook_others sample_group s
     \<and> t_outbox (w_db (hs_world (gr_state s))) = [x] \<and> gr_committed s (''transaction.captured'', 0) = 1
     \<and> partition_of (\<lambda>_. 0) (''transaction.captured'', 0) (gr_log s) = [message_of x] \<and> hs_seen (gr_state s) = [(ob_event x, hook_merchant)]
     \<and> k_log (gr_dlq s) = [] \<and> EventType (ob_event x) = ''transaction.captured''"
proof -
  let ?notifier = "is_notifier (\<lambda>k b. k @ b) ''s'' (\<lambda>_. ''{}'')"
  define tp :: "string \<times> nat" where "tp = (''transaction.captured'', 0)"
  obtain w w2 r k x ev where run: "acq_reach hook_world w" and round: "publishBatch [] 10 10 (w, sample_kafka) = (r, w2, k)" "k_log k = [message_of x]"
    "t_outbox (w_db w2) = [x]" "t_merchants (w_db w2) = [hook_merchant]" "w_faults w2 = (\<lambda>_. None)"
    and x: "ob_event x = TxEvent ev" "ev_Type (te_base ev) = ''transaction.captured''" "te_merchant ev = ''m_1''"
    using hook_published by blast
  have msg: "ms_Value (message_of x) = TxEvent ev" "event_type (message_of x) = ''transaction.captured''"
    "partition_of (\<lambda>_. 0) tp [message_of x] = [message_of x]" "EventType (ob_event x) = ''transaction.captured''"
    by (simp_all add: message_of_def event_type_def EventType_def event_base_def x partition_of_def tp_def)
  define s1 where "s1 = sample_group\<lparr>gr_state := \<lparr>hs_world = w, hs_calls = 0, hs_seen = []\<rparr>\<rparr>"
  define s2 where "s2 = sample_group\<lparr>gr_state := \<lparr>hs_world = w2, hs_calls = 0, hs_seen = []\<rparr>, gr_log := [message_of x]\<rparr>"
  have "hook_others (gr_state sample_group, []) (\<lparr>hs_world = w, hs_calls = 0, hs_seen = []\<rparr>, [])"
    using run by (simp add: hook_others_def sample_group_def)
  then have "group_step False (\<lambda>_. 0) notifier_topics ?notifier hook_others sample_group s1"
    using group_others [of hook_others sample_group _ "[]"] by (simp add: s1_def sample_group_def)
  note 1 = group_next [OF group_start this]
  have "k_log sample_kafka = []" by (simp add: sample_kafka_def)
  then have "hook_others (gr_state s1, []) (\<lparr>hs_world = w2, hs_calls = 0, hs_seen = []\<rparr>, [message_of x])"
    unfolding hook_others_def prod.case
    by (intro disjI2 exI [of _ "[]"] exI [of _ "10 :: nat"] exI [of _ sample_kafka] exI [of _ r] exI [of _ w2] exI [of _ k] conjI)
      (simp_all add: s1_def round(1,2))
  then have "group_step False (\<lambda>_. 0) notifier_topics ?notifier hook_others s1 s2"
    using group_others [of hook_others s1 _ "[message_of x]"] by (simp add: s1_def s2_def sample_group_def)
  note 2 = group_next [OF 1 this]
  obtain w3 where call: "sample_notifier ''transaction.captured'' (TxEvent ev) \<lparr>hs_world = w2, hs_calls = 0, hs_seen = []\<rparr>
      = (Inr (), \<lparr>hs_world = w3, hs_calls = 1, hs_seen = [(TxEvent ev, hook_merchant)]\<rparr>)" "w_db w3 = w_db w2"
    using hook_send [OF round(4,5) x(3)] by blast
  have "?notifier sample_notifier" by (auto simp: is_notifier_def sample_notifier_def acq_refl)
  moreover have "process_message (\<lambda>_. []) sample_notifier (\<lambda>_. False) (message_of x) (gr_state s2, gr_dlq s2)
      = (Handled, \<lparr>hs_world = w3, hs_calls = 1, hs_seen = [(TxEvent ev, hook_merchant)]\<rparr>, sample_kafka)"
    using call(1) by (simp add: process_message_def maxAttempts_def numeral_eq_Suc msg s2_def sample_group_def)
  moreover define s3 where "s3 = s2\<lparr>gr_state := \<lparr>hs_world = w3, hs_calls = 1, hs_seen = [(TxEvent ev, hook_merchant)]\<rparr>,
      gr_dlq := sample_kafka, gr_fetched := (gr_fetched s2)(tp := gr_fetched s2 tp + 1),
      gr_committed := (if True then (gr_committed s2)(tp := gr_fetched s2 tp + 1) else gr_committed s2)\<rparr>"
  ultimately have "group_step False (\<lambda>_. 0) notifier_topics ?notifier hook_others s2 s3"
    unfolding s3_def by (intro group_consume) (auto simp: s2_def sample_group_def msg tp_def [symmetric], simp add: tp_def notifier_topics_def)
  note 3 = group_next [OF 2 this]
  have s3: "t_outbox (w_db (hs_world (gr_state s3))) = [x]" "gr_committed s3 tp = 1" "gr_log s3 = [message_of x]"
    "hs_seen (gr_state s3) = [(TxEvent ev, hook_merchant)]" "k_log (gr_dlq s3) = []"
    by (simp_all add: s3_def s2_def sample_group_def call(2) round(3) sample_kafka_def)
  show ?thesis using 3 s3 msg(3,4) x(1) by (intro exI [of _ s3] exI [of _ x]) (simp add: tp_def)
qed

theorem webhooks_delivered_witness:
  "\<exists>s x. group_reach False (\<lambda>_. 0) notifier_topics (is_notifier (\<lambda>k b. k @ b) ''s'' (\<lambda>_. ''{}'')) hook_others sample_group s
     \<and> x \<in> set (t_outbox (w_db (hs_world (gr_state s)))) \<and> gr_committed s (''transaction.captured'', 0) = 1
     \<and> (\<exists>headers sig. Webhook ''https://ec'' ''{}'' headers \<in> set (w_effects (hs_world (gr_state s)))
          \<and> map_of headers ''X-Signature'' = Some (''sha256='' @ sig) \<and> Verify (\<lambda>k b. k @ b) ''s'' ''{}'' sig)"
proof -
  obtain s x where s: "group_reach False (\<lambda>_. 0) notifier_topics (is_notifier (\<lambda>k b. k @ b) ''s'' (\<lambda>_. ''{}'')) hook_others sample_group s"
    "t_outbox (w_db (hs_world (gr_state s))) = [x]" "gr_committed s (''transaction.captured'', 0) = 1"
    "partition_of (\<lambda>_. 0) (''transaction.captured'', 0) (gr_log s) = [message_of x]" "hs_seen (gr_state s) = [(ob_event x, hook_merchant)]"
    "k_log (gr_dlq s) = []" "EventType (ob_event x) = ''transaction.captured''"
    using hook_run by (elim exE conjE)
  have start: "t_outbox (w_db (hs_world (gr_state sample_group))) = []" "gr_log sample_group = []" "k_ends (gr_dlq sample_group) = (\<lambda>_. Acked)"
    "gr_fetched sample_group = (\<lambda>_. 0)" "gr_committed sample_group = (\<lambda>_. 0)"
    by (simp_all add: sample_group_def hook_world_def sample_pipe_def sample_kafka_def sample_tables_def)
  have "\<exists>headers sig. Webhook ''https://ec'' ''{}'' headers \<in> set (w_effects (hs_world (gr_state s)))
          \<and> map_of headers ''X-Signature'' = Some (''sha256='' @ sig) \<and> Verify (\<lambda>k b. k @ b) ''s'' ''{}'' sig"
  proof -
    have "x \<in> set (t_outbox (w_db (hs_world (gr_state s))))" "EventType (ob_event x) \<in> set notifier_topics"
      by (simp_all add: s(2,7) notifier_topics_def)
    note delivered = conjunct2 [OF webhooks_delivered [OF s(1) start this, unfolded s(7)], rule_format, of 0]
    show ?thesis using delivered [unfolded s(3,4)] by (auto simp: dead_lettered_def s(5,6) hook_toDomain)
  qed
  then show ?thesis using s(1-3) by (intro exI [of _ s] exI [of _ x]) simp
qed

end
