(* ===== verification/Card_Vault.thy ===== *)
theory Card_Vault
  imports Authorization
begin

text \<open>
  The card vault, a service of its own: the cipher (\<open>internal/infrastructure/cryptoutil\<close>), its
  table (\<open>postgres/card_vault_store.go\<close>), its server (\<open>internal/handler/grpc/vault_server.go\<close>)
  and the client the API uses (\<open>grpcclient/vault.go\<close>).

  AES-GCM, base64 and the random nonces are library code: an \<open>aead\<close> has the two functions of
  Go's \<open>cipher.AEAD\<close>, and the only thing assumed of it, where it is assumed, is that it opens
  what it sealed (\<open>aead_opens\<close>). Logging and tracing are left out.
\<close>

section \<open>The cipher\<close>

record aead =
  NonceSize :: nat
  Seal :: "string \<Rightarrow> string \<Rightarrow> string"
  Open :: "string \<Rightarrow> string \<Rightarrow> string option"

definition aead_opens :: "aead \<Rightarrow> bool" where
  "aead_opens c \<longleftrightarrow> (\<forall>nonce plain. length nonce = NonceSize c \<longrightarrow> Open c nonce (Seal c nonce plain) = Some plain)"

text \<open>\<open>decode\<close> is \<open>base64.StdEncoding.DecodeString\<close>, \<open>gcm\<close> is AES-GCM with a 32-byte key.\<close>

definition NewAESGCM :: "(string \<Rightarrow> string result) \<Rightarrow> (string \<Rightarrow> aead) \<Rightarrow> string \<Rightarrow> aead result" where
  "NewAESGCM decode gcm base64Key =
     (case decode base64Key of
        Inl err \<Rightarrow> Inl (Errorf [] err)
      | Inr key \<Rightarrow>
          if length key \<noteq> 32 then Inl (ErrorString ''a chave precisa ter 32 bytes (AES-256)'') else Inr (gcm key))"

text \<open>\<open>random\<close> is what \<open>rand.Read\<close> gives for a nonce.\<close>

definition Encrypt :: "aead \<Rightarrow> string result \<Rightarrow> string \<Rightarrow> string result" where
  "Encrypt c random plain =
     (case random of Inl err \<Rightarrow> Inl err | Inr nonce \<Rightarrow> Inr (nonce @ Seal c nonce plain))"

definition Decrypt :: "aead \<Rightarrow> string \<Rightarrow> string result" where
  "Decrypt c data =
     (if length data < NonceSize c then Inl (ErrorString ''dado cifrado curto demais'')
      else case Open c (take (NonceSize c) data) (drop (NonceSize c) data) of
        None \<Rightarrow> Inl (ErrorString ''falha ao decifrar: dado corrompido ou chave errada'')
      | Some plain \<Rightarrow> Inr plain)"

lemma Decrypt_Encrypt:
  "aead_opens c \<Longrightarrow> (\<And>nonce. random = Inr nonce \<Longrightarrow> length nonce = NonceSize c) \<Longrightarrow>
     Encrypt c random plain = Inr data \<Longrightarrow> Decrypt c data = Inr plain"
  by (auto simp: Encrypt_def Decrypt_def aead_opens_def split: sum.splits)

section \<open>The table\<close>

record card_record =
  cr_Token :: string
  cr_PANCiphertext :: string
  cr_ExpiryCiphertext :: string
  cr_Brand :: string
  cr_BIN :: string
  cr_Last4 :: string

definition vault_Save :: "go_error option \<Rightarrow> card_record \<Rightarrow> card_record list \<Rightarrow> unit result \<times> card_record list" where
  "vault_Save fault rec rows =
     (case fault of
        Some e \<Rightarrow> (Inl (Errorf [] e), rows)
      | None \<Rightarrow> if cr_Token rec \<in> cr_Token ` set rows
                then (Inl (Errorf [] (ErrorString ''violates constraint'')), rows) else (Inr (), rows @ [rec]))"

definition vault_Find :: "go_error option \<Rightarrow> string \<Rightarrow> card_record list \<Rightarrow> card_record result" where
  "vault_Find fault token rows =
     (case fault of
        Some e \<Rightarrow> Inl (Errorf [] e)
      | None \<Rightarrow> (case filter (\<lambda>r. cr_Token r = token) rows of
                   [] \<Rightarrow> Inl (Sentinel ErrNotFound)
                 | r # _ \<Rightarrow> Inr r))"

section \<open>The server\<close>

datatype grpc_code = InvalidArgument | NotFound | Internal | Unavailable | CodeDeadlineExceeded | OtherCode

type_synonym 'a rpc = "(grpc_code \<times> string) + 'a"

text \<open>The expression \<open>^(0[1-9]|1[0-2])/\d{2}$\<close>.\<close>

definition expiry_ok :: "string \<Rightarrow> bool" where
  "expiry_ok s = (case s of
     [a, b, c, d, e] \<Rightarrow> ((a = CHR ''0'' \<and> is_digit b \<and> b \<noteq> CHR ''0'') \<or> (a = CHR ''1'' \<and> (b = CHR ''0'' \<or> b = CHR ''1'' \<or> b = CHR ''2'')))
        \<and> c = CHR ''/'' \<and> is_digit d \<and> is_digit e
   | _ \<Rightarrow> False)"

record tokenize_response =
  tr_Token :: string
  tr_Brand :: string
  tr_Bin :: string
  tr_Last4 :: string

record call_inputs =
  ci_uuid :: string
  ci_nonces :: "string result \<times> string result"
  ci_fault :: "go_error option"

definition VaultServer_Tokenize ::
  "aead \<Rightarrow> call_inputs \<Rightarrow> string \<Rightarrow> string \<Rightarrow> card_record list \<Rightarrow> tokenize_response rpc \<times> card_record list" where
  "VaultServer_Tokenize c inp pan expiry rows =
     (if \<not> Luhn pan \<or> \<not> expiry_ok expiry then (Inl (InvalidArgument, ''cartao invalido''), rows)
      else let token = NewID (ci_uuid inp) ''tok'' in
        case CardInfoFromPAN token pan of
          Inl err \<Rightarrow> (Inl (InvalidArgument, ''cartao invalido''), rows)
        | Inr info \<Rightarrow>
            (case Encrypt c (fst (ci_nonces inp)) pan of
               Inl err \<Rightarrow> (Inl (Internal, ''falha ao cifrar''), rows)
             | Inr panCT \<Rightarrow>
                 (case Encrypt c (snd (ci_nonces inp)) expiry of
                    Inl err \<Rightarrow> (Inl (Internal, ''falha ao cifrar''), rows)
                  | Inr expCT \<Rightarrow>
                      (case vault_Save (ci_fault inp) \<lparr>cr_Token = token, cr_PANCiphertext = panCT, cr_ExpiryCiphertext = expCT,
                              cr_Brand = Brand info, cr_BIN = BIN info, cr_Last4 = Last4 info\<rparr> rows of
                         (Inl err, rows') \<Rightarrow> (Inl (Internal, ''falha ao guardar''), rows')
                       | (Inr _, rows') \<Rightarrow>
                           (Inr \<lparr>tr_Token = token, tr_Brand = Brand info, tr_Bin = BIN info, tr_Last4 = Last4 info\<rparr>, rows')))))"

record detokenize_response =
  dr_Pan :: string
  dr_Expiry :: string

definition VaultServer_Detokenize ::
  "aead \<Rightarrow> go_error option \<Rightarrow> string \<Rightarrow> card_record list \<Rightarrow> detokenize_response rpc" where
  "VaultServer_Detokenize c fault token rows =
     (case vault_Find fault token rows of
        Inl err \<Rightarrow> if errors_Is err ErrNotFound then Inl (NotFound, ''token desconhecido'') else Inl (Internal, ''falha ao ler'')
      | Inr rec \<Rightarrow>
          (case Decrypt c (cr_PANCiphertext rec) of
             Inl err \<Rightarrow> Inl (Internal, ''falha ao decifrar'')
           | Inr pan \<Rightarrow>
               (case Decrypt c (cr_ExpiryCiphertext rec) of
                  Inl err \<Rightarrow> Inl (Internal, ''falha ao decifrar'')
                | Inr expiry \<Rightarrow> Inr \<lparr>dr_Pan = pan, dr_Expiry = expiry\<rparr>)))"

section \<open>The client\<close>

text \<open>The error of a call that did not come back as a value: a status of the server or of the transport.\<close>

definition rpc_error :: "grpc_code \<times> string \<Rightarrow> go_error" where
  "rpc_error e = ErrorString (snd e)"

definition VaultClient_Detokenize :: "detokenize_response rpc \<Rightarrow> card_data result" where
  "VaultClient_Detokenize answer =
     (case answer of
        Inl e \<Rightarrow> if fst e = NotFound then Inl (Sentinel ErrInvalidToken) else Inl (rpc_error e)
      | Inr resp \<Rightarrow> Inr \<lparr>cd_PAN = dr_Pan resp, cd_Expiry = dr_Expiry resp\<rparr>)"

record tokenized_card =
  tk_Token :: string
  tk_Brand :: string
  tk_BIN :: string
  tk_Last4 :: string

definition VaultClient_Tokenize :: "tokenize_response rpc \<Rightarrow> tokenized_card result" where
  "VaultClient_Tokenize answer =
     (case answer of
        Inl e \<Rightarrow> if fst e = InvalidArgument then Inl (Sentinel ErrInvalidPAN)
                 else Inl (Errorf [snd e] (Sentinel ErrNotFound))
      | Inr resp \<Rightarrow> Inr \<lparr>tk_Token = tr_Token resp, tk_Brand = tr_Brand resp, tk_BIN = tr_Bin resp, tk_Last4 = tr_Last4 resp\<rparr>)"

section \<open>What the vault keeps\<close>

text \<open>The calls that change the vault, in any order and from any client.\<close>

inductive vault_reach :: "aead \<Rightarrow> card_record list \<Rightarrow> card_record list \<Rightarrow> bool" for c rows0 where
  vault_start: "vault_reach c rows0 rows0"
| vault_call: "vault_reach c rows0 rows \<Longrightarrow> VaultServer_Tokenize c inp pan expiry rows = (r, rows') \<Longrightarrow> vault_reach c rows0 rows'"

lemma Tokenize_rows:
  "VaultServer_Tokenize c inp pan expiry rows = (r, rows') \<Longrightarrow>
     rows' = rows \<or> (\<exists>rec. rows' = rows @ [rec] \<and> cr_Token rec \<notin> cr_Token ` set rows)"
  by (auto simp: VaultServer_Tokenize_def vault_Save_def Let_def split: if_splits sum.splits option.splits)

lemma vault_reach_find:
  assumes "vault_reach c rows0 rows" "vault_Find None token rows0 = Inr rec"
  shows "vault_Find None token rows = Inr rec"
  using assms
proof (induction rule: vault_reach.induct)
  case (vault_call rows inp pan expiry r rows')
  then show ?case using Tokenize_rows [OF vault_call(2)] by (auto simp: vault_Find_def split: list.splits)
qed


text \<open>A cipher for the witness: it puts the nonce before the text and checks it there.\<close>

definition sample_aead :: aead where
  "sample_aead = \<lparr>NonceSize = 2, Seal = (\<lambda>nonce plain. nonce @ plain),
     Open = (\<lambda>nonce data. if take 2 data = nonce then Some (drop 2 data) else None)\<rparr>"

definition sample_inputs :: call_inputs where
  "sample_inputs = \<lparr>ci_uuid = ''7'', ci_nonces = (Inr ''ab'', Inr ''cd''), ci_fault = None\<rparr>"


end
