(* ===== verification/Idempotency.thy ===== *)
theory Idempotency
  imports Notifying
begin

text \<open>
  Idempotent requests: the key store of \<open>internal/infrastructure/postgres/idempotency_store.go\<close>
  (the contract is in \<open>internal/application/idempotency.go\<close>) and the middleware of
  \<open>internal/handler/http/middleware/idempotency.go\<close> around a handler.

  Several requests run at once, on several servers, against one table. Each statement of the
  store is atomic, but between two statements of a request any other request may take a
  step; \<open>idem_step\<close> is that interleaving. A statement may fail, with or without having
  taken effect, a handler may answer anything, and a request may die at any point where its
  handler runs or has just run.
\<close>

section \<open>The store\<close>

datatype IdempotencyState = IdempotencyNew | IdempotencyReplay | IdempotencyConflict | IdempotencyInProgress

record IdempotencyResult =
  ir_State :: IdempotencyState
  ir_Status :: int
  ir_Body :: string

record key_row =
  kr_hash :: string
  kr_response :: "(int \<times> string) option"
  kr_expires :: time

type_synonym key_table = "string \<times> string \<rightharpoonup> key_row"

text \<open>How a statement ends: it is applied, or the driver reports an error and it is applied or not.\<close>

datatype sql_end = Applied | Reported go_error bool

definition run_sql :: "sql_end \<Rightarrow> 'a \<times> key_table \<Rightarrow> key_table \<Rightarrow> 'a result \<times> key_table" where
  "run_sql how after before =
     (case how of
        Applied \<Rightarrow> (Inr (fst after), snd after)
      | Reported e applied \<Rightarrow> (Inl e, if applied then snd after else before))"

text \<open>The INSERT with ON CONFLICT DO NOTHING: the number of rows affected.\<close>

definition insert_key :: "string \<Rightarrow> string \<Rightarrow> string \<Rightarrow> time \<Rightarrow> key_table \<Rightarrow> nat \<times> key_table" where
  "insert_key merchantID key hash expires t =
     (case t (merchantID, key) of
        Some row \<Rightarrow> (0, t)
      | None \<Rightarrow> (1, t((merchantID, key) \<mapsto> \<lparr>kr_hash = hash, kr_response = None, kr_expires = expires\<rparr>)))"

text \<open>The first half of \<open>Begin\<close>, up to the test of the rows affected, and the second half from the
  SELECT on. Between them another request may run.\<close>

definition Begin_insert ::
  "sql_end \<Rightarrow> string \<Rightarrow> string \<Rightarrow> string \<Rightarrow> time \<Rightarrow> key_table \<Rightarrow> bool result \<times> key_table" where
  "Begin_insert how merchantID key requestHash expires t =
     (case run_sql how (insert_key merchantID key requestHash expires t) t of
        (Inl e, t') \<Rightarrow> (Inl (Errorf [] e), t')
      | (Inr n, t') \<Rightarrow> (Inr (n = 1), t'))"

definition Begin_select ::
  "go_error option \<Rightarrow> string \<Rightarrow> string \<Rightarrow> string \<Rightarrow> key_table \<Rightarrow> IdempotencyResult result" where
  "Begin_select fault merchantID key requestHash t =
     (case fault of
        Some e \<Rightarrow> Inl (Errorf [] e)
      | None \<Rightarrow>
          (case t (merchantID, key) of
             None \<Rightarrow> Inr \<lparr>ir_State = IdempotencyInProgress, ir_Status = 0, ir_Body = ''''\<rparr>
           | Some row \<Rightarrow>
               if kr_hash row \<noteq> requestHash
               then Inr \<lparr>ir_State = IdempotencyConflict, ir_Status = 0, ir_Body = ''''\<rparr>
               else (case kr_response row of
                       None \<Rightarrow> Inr \<lparr>ir_State = IdempotencyInProgress, ir_Status = 0, ir_Body = ''''\<rparr>
                     | Some (status, body) \<Rightarrow>
                         Inr \<lparr>ir_State = IdempotencyReplay, ir_Status = status, ir_Body = body\<rparr>)))"

text \<open>\<open>Begin\<close> as a whole; \<open>others\<close> is what the other requests do to the table between its two statements.\<close>

definition Begin ::
  "sql_end \<Rightarrow> (key_table \<Rightarrow> key_table) \<Rightarrow> go_error option \<Rightarrow> string \<Rightarrow> string \<Rightarrow> string \<Rightarrow> time
   \<Rightarrow> key_table \<Rightarrow> IdempotencyResult result \<times> key_table" where
  "Begin how others fault merchantID key requestHash expires t =
     (case Begin_insert how merchantID key requestHash expires t of
        (Inl e, t') \<Rightarrow> (Inl e, t')
      | (Inr True, t') \<Rightarrow> (Inr \<lparr>ir_State = IdempotencyNew, ir_Status = 0, ir_Body = ''''\<rparr>, t')
      | (Inr False, t') \<Rightarrow> (Begin_select fault merchantID key requestHash (others t'), others t'))"

definition Complete :: "sql_end \<Rightarrow> string \<Rightarrow> string \<Rightarrow> int \<Rightarrow> string \<Rightarrow> key_table \<Rightarrow> unit result \<times> key_table" where
  "Complete how merchantID key status body t =
     run_sql how ((), t((merchantID, key) := map_option (kr_response_update (\<lambda>_. Some (status, body))) (t (merchantID, key)))) t"

definition Abandon :: "sql_end \<Rightarrow> string \<Rightarrow> string \<Rightarrow> key_table \<Rightarrow> unit result \<times> key_table" where
  "Abandon how merchantID key t =
     run_sql how ((), case t (merchantID, key) of
         Some row \<Rightarrow> if kr_response row = None then t((merchantID, key) := None) else t
       | None \<Rightarrow> t) t"

section \<open>The middleware\<close>

text \<open>
  A request as the middleware sees it. \<open>rq_body\<close> is what \<open>io.ReadAll\<close> gives (None: it fails);
  the limit of one megabyte is applied by \<open>read_body\<close>, and the handler reads the same bytes.
\<close>

record request =
  rq_merchant :: string
  rq_key :: string
  rq_method :: string
  rq_path :: string
  rq_body :: "string option"

datatype reply_body = Bytes string | ProblemJSON string string string

record reply =
  rp_status :: int
  rp_headers :: "(string \<times> string) list"
  rp_body :: reply_body

definition abortProblem :: "string \<Rightarrow> int \<Rightarrow> string \<Rightarrow> string \<Rightarrow> reply" where
  "abortProblem path status code detail =
     \<lparr>rp_status = status, rp_headers = [(''Content-Type'', ''application/problem+json'')],
      rp_body = ProblemJSON code detail path\<rparr>"

definition read_body :: "request \<Rightarrow> string option" where
  "read_body rq = map_option (take 1048576) (rq_body rq)"

text \<open>\<open>sha256.Sum256\<close> is the parameter \<open>sha\<close>.\<close>

definition request_hash :: "(string \<Rightarrow> string) \<Rightarrow> request \<Rightarrow> string \<Rightarrow> string" where
  "request_hash sha rq body =
     hex_encode (sha (rq_method rq @ '' '' @ rq_path rq @ [CHR 0x0A] @ body))"

text \<open>What is refused before the store is asked, else the hash.\<close>

definition check_request :: "(string \<Rightarrow> string) \<Rightarrow> request \<Rightarrow> reply + string" where
  "check_request sha rq =
     (if rq_key rq = '''' \<or> length (rq_key rq) > 128
      then Inl (abortProblem (rq_path rq) 400 ''IDEMPOTENCY_KEY_REQUIRED''
             ''envie o header Idempotency-Key (um UUID por operacao)'')
      else case read_body rq of
        None \<Rightarrow> Inl (abortProblem (rq_path rq) 400 ''INVALID_BODY'' ''nao foi possivel ler o corpo'')
      | Some body \<Rightarrow> Inr (request_hash sha rq body))"

text \<open>What becomes of the store's answer: a reply, or None where the handler runs.\<close>

definition store_reply :: "request \<Rightarrow> IdempotencyResult result \<Rightarrow> reply option" where
  "store_reply rq res =
     (case res of
        Inl e \<Rightarrow> Some (abortProblem (rq_path rq) 503 ''IDEMPOTENCY_UNAVAILABLE'' ''tente novamente'')
      | Inr r \<Rightarrow>
          (case ir_State r of
             IdempotencyReplay \<Rightarrow>
               Some \<lparr>rp_status = ir_Status r, rp_headers = [(''Idempotent-Replayed'', ''true''), (''Content-Type'', ''application/json'')],
                     rp_body = Bytes (ir_Body r)\<rparr>
           | IdempotencyConflict \<Rightarrow>
               Some (abortProblem (rq_path rq) 409 ''IDEMPOTENCY_KEY_REUSED'' ''esta chave ja foi usada com um corpo diferente'')
           | IdempotencyInProgress \<Rightarrow>
               Some (abortProblem (rq_path rq) 409 ''REQUEST_IN_PROGRESS'' ''a requisicao original ainda esta em processamento'')
           | IdempotencyNew \<Rightarrow> None))"

text \<open>After the handler: the key is released or the response kept.\<close>

definition after_handler :: "sql_end \<Rightarrow> request \<Rightarrow> int \<Rightarrow> string \<Rightarrow> key_table \<Rightarrow> key_table" where
  "after_handler how rq status body t =
     (if status \<ge> 500 then snd (Abandon how (rq_merchant rq) (rq_key rq) t)
      else snd (Complete how (rq_merchant rq) (rq_key rq) status body t))"

text \<open>
  One request alone: the middleware around a handler of the state \<open>'w\<close>. The handler's status
  and bytes go to the client as they are written.
\<close>

definition Idempotency_middleware ::
  "(string \<Rightarrow> string) \<Rightarrow> time \<Rightarrow> (request \<Rightarrow> 'w \<Rightarrow> (int \<times> string) \<times> 'w) \<Rightarrow> request
   \<Rightarrow> key_table \<times> 'w \<Rightarrow> reply \<times> key_table \<times> 'w" where
  "Idempotency_middleware sha expires handler rq s =
     (case s of (t, w) \<Rightarrow>
        case check_request sha rq of
          Inl rp \<Rightarrow> (rp, t, w)
        | Inr hash \<Rightarrow>
            (case Begin Applied id None (rq_merchant rq) (rq_key rq) hash expires t of
               (res, t') \<Rightarrow>
                 (case store_reply rq res of
                    Some rp \<Rightarrow> (rp, t', w)
                  | None \<Rightarrow>
                      (case handler rq w of
                         ((status, body), w') \<Rightarrow>
                           (\<lparr>rp_status = status, rp_headers = [], rp_body = Bytes body\<rparr>,
                            after_handler Applied rq status body t', w')))))"

section \<open>A request and its repetition\<close>

text \<open>With a store that works, a request that gets an answer below 500 from its handler and the same
  request sent again leave the state as one request does, and the second answer has the
  first one's status and body, marked as a replay.\<close>

theorem repeated_request:
  assumes "check_request sha rq = Inr hash" "t (rq_merchant rq, rq_key rq) = None"
    and "handler rq w = ((status, body), w')" "status < 500"
    and "Idempotency_middleware sha expires handler rq (t, w) = (rp1, s1)"
    and "Idempotency_middleware sha expires' handler rq s1 = (rp2, s2)"
  shows "s2 = s1 \<and> snd s1 = w' \<and> rp_status rp1 = status \<and> rp_body rp1 = Bytes body
    \<and> rp_status rp2 = status \<and> rp_body rp2 = Bytes body \<and> (''Idempotent-Replayed'', ''true'') \<in> set (rp_headers rp2)"
proof -
  define k where "k = (rq_merchant rq, rq_key rq)"
  have s1: "s1 = (t(k \<mapsto> \<lparr>kr_hash = hash, kr_response = Some (status, body), kr_expires = expires\<rparr>), w')"
    and rp1: "rp_status rp1 = status" "rp_body rp1 = Bytes body"
    using assms(1-5)
    by (auto simp: Idempotency_middleware_def Begin_def Begin_insert_def run_sql_def insert_key_def store_reply_def
        after_handler_def Complete_def k_def)
  then show ?thesis
    using assms(1,6)
    by (auto simp: Idempotency_middleware_def Begin_def Begin_insert_def run_sql_def insert_key_def store_reply_def
        Begin_select_def k_def)
qed

section \<open>Requests that interleave\<close>

datatype progress =
    Arrived request
  | Selecting request string
  | Running request string
  | Finished request string int string
  | Answered request reply
  | Dead request

text \<open>The log records every run of a handler: its start and what it answered.\<close>

datatype idem_event = Started nat request string | Returned nat request string int string

record idem_world =
  iw_keys :: key_table
  iw_procs :: "nat \<rightharpoonup> progress"
  iw_log :: "idem_event list"

definition key_of :: "request \<Rightarrow> string \<times> string" where
  "key_of rq = (rq_merchant rq, rq_key rq)"

inductive idem_step :: "(string \<Rightarrow> string) \<Rightarrow> idem_world \<Rightarrow> idem_world \<Rightarrow> bool" for sha where
  arrive: "iw_procs w p = None \<Longrightarrow> idem_step sha w (w\<lparr>iw_procs := (iw_procs w)(p \<mapsto> Arrived rq)\<rparr>)"
| refuse: "iw_procs w p = Some (Arrived rq) \<Longrightarrow> check_request sha rq = Inl rp \<Longrightarrow>
    idem_step sha w (w\<lparr>iw_procs := (iw_procs w)(p \<mapsto> Answered rq rp)\<rparr>)"
| reserve: "iw_procs w p = Some (Arrived rq) \<Longrightarrow> check_request sha rq = Inr hash \<Longrightarrow>
    Begin_insert how (rq_merchant rq) (rq_key rq) hash expires (iw_keys w) = (Inr True, t) \<Longrightarrow>
    idem_step sha w \<lparr>iw_keys = t, iw_procs = (iw_procs w)(p \<mapsto> Running rq hash), iw_log = iw_log w @ [Started p rq hash]\<rparr>"
| taken: "iw_procs w p = Some (Arrived rq) \<Longrightarrow> check_request sha rq = Inr hash \<Longrightarrow>
    Begin_insert how (rq_merchant rq) (rq_key rq) hash expires (iw_keys w) = (Inr False, t) \<Longrightarrow>
    idem_step sha w (w\<lparr>iw_keys := t, iw_procs := (iw_procs w)(p \<mapsto> Selecting rq hash)\<rparr>)"
| unavailable: "iw_procs w p = Some (Arrived rq) \<Longrightarrow> check_request sha rq = Inr hash \<Longrightarrow>
    Begin_insert how (rq_merchant rq) (rq_key rq) hash expires (iw_keys w) = (Inl e, t) \<Longrightarrow>
    store_reply rq (Inl e) = Some rp \<Longrightarrow>
    idem_step sha w (w\<lparr>iw_keys := t, iw_procs := (iw_procs w)(p \<mapsto> Answered rq rp)\<rparr>)"
| look: "iw_procs w p = Some (Selecting rq hash) \<Longrightarrow>
    Begin_select fault (rq_merchant rq) (rq_key rq) hash (iw_keys w) = res \<Longrightarrow> store_reply rq res = Some rp \<Longrightarrow>
    idem_step sha w (w\<lparr>iw_procs := (iw_procs w)(p \<mapsto> Answered rq rp)\<rparr>)"
| handle: "iw_procs w p = Some (Running rq hash) \<Longrightarrow>
    idem_step sha w (w\<lparr>iw_procs := (iw_procs w)(p \<mapsto> Finished rq hash status body),
                       iw_log := iw_log w @ [Returned p rq hash status body]\<rparr>)"
| conclude: "iw_procs w p = Some (Finished rq hash status body) \<Longrightarrow>
    rp = \<lparr>rp_status = status, rp_headers = [], rp_body = Bytes body\<rparr> \<Longrightarrow>
    idem_step sha w (w\<lparr>iw_keys := after_handler how rq status body (iw_keys w),
                       iw_procs := (iw_procs w)(p \<mapsto> Answered rq rp)\<rparr>)"
| die: "iw_procs w p = Some (Running rq hash) \<or> iw_procs w p = Some (Finished rq hash status body) \<Longrightarrow>
    idem_step sha w (w\<lparr>iw_procs := (iw_procs w)(p \<mapsto> Dead rq)\<rparr>)"

definition idem_start :: idem_world where
  "idem_start = \<lparr>iw_keys = Map.empty, iw_procs = Map.empty, iw_log = []\<rparr>"

inductive idem_reach :: "(string \<Rightarrow> string) \<Rightarrow> idem_world \<Rightarrow> bool" for sha where
  idem_init: "idem_reach sha idem_start"
| idem_next: "idem_reach sha w \<Longrightarrow> idem_step sha w w' \<Longrightarrow> idem_reach sha w'"

definition failed_run :: "idem_event list \<Rightarrow> nat \<Rightarrow> string \<times> string \<Rightarrow> bool" where
  "failed_run log p k \<longleftrightarrow> list_ex (\<lambda>e. case e of
     Returned q rq hash status body \<Rightarrow> q = p \<and> key_of rq = k \<and> status \<ge> 500 | _ \<Rightarrow> False) log"

subsection \<open>Every run has its row\<close>

text \<open>
  The invariant gives the rows owners: each run for a key owns the key's row or has failed, a
  process that still runs owns its row, which keeps the hash of its request, and a stored
  response is what the owner's handler returned. A row without an owner comes from an
  INSERT that was applied but reported as failed: it never gets a response.
\<close>

fun busy :: "progress \<Rightarrow> (request \<times> string) option" where
  "busy (Running rq hash) = Some (rq, hash)"
| "busy (Finished rq hash status body) = Some (rq, hash)"
| "busy _ = None"

type_synonym owners = "string \<times> string \<rightharpoonup> nat"

definition log_ok :: "(string \<Rightarrow> string) \<Rightarrow> idem_event list \<Rightarrow> owners \<Rightarrow> bool" where
  "log_ok sha log own \<longleftrightarrow>
     (\<forall>p rq hash. Started p rq hash \<in> set log \<longrightarrow>
        check_request sha rq = Inr hash \<and> (own (key_of rq) = Some p \<or> failed_run log p (key_of rq)))
     \<and> (\<forall>p rq hash status body. Returned p rq hash status body \<in> set log \<longrightarrow> check_request sha rq = Inr hash)"

definition rows_ok :: "key_table \<Rightarrow> idem_event list \<Rightarrow> owners \<Rightarrow> bool" where
  "rows_ok t log own \<longleftrightarrow> dom own \<subseteq> dom t \<and>
     (\<forall>k row. t k = Some row \<longrightarrow>
        (case kr_response row of None \<Rightarrow> True
         | Some (status, body) \<Rightarrow> \<exists>p rq. own k = Some p \<and> key_of rq = k \<and> status < 500
             \<and> Returned p rq (kr_hash row) status body \<in> set log))"

definition busy_ok :: "idem_world \<Rightarrow> owners \<Rightarrow> bool" where
  "busy_ok w own \<longleftrightarrow>
     (\<forall>p x rq hash. iw_procs w p = Some x \<longrightarrow> busy x = Some (rq, hash) \<longrightarrow>
        own (key_of rq) = Some p \<and> Started p rq hash \<in> set (iw_log w)
        \<and> (\<exists>row. iw_keys w (key_of rq) = Some row \<and> kr_hash row = hash))
     \<and> (\<forall>p rq hash status body. iw_procs w p = Some (Finished rq hash status body) \<longrightarrow>
        Returned p rq hash status body \<in> set (iw_log w))"

definition replay_known :: "(string \<Rightarrow> string) \<Rightarrow> idem_event list \<Rightarrow> request \<Rightarrow> reply \<Rightarrow> bool" where
  "replay_known sha log rq rp \<longleftrightarrow>
     (\<exists>q rq' hash status body. Returned q rq' hash status body \<in> set log \<and> key_of rq' = key_of rq
        \<and> check_request sha rq = Inr hash \<and> check_request sha rq' = Inr hash \<and> status < 500
        \<and> rp_status rp = status \<and> rp_body rp = Bytes body)"

definition answers_ok :: "(string \<Rightarrow> string) \<Rightarrow> idem_world \<Rightarrow> bool" where
  "answers_ok sha w \<longleftrightarrow>
     (\<forall>p rq hash. iw_procs w p = Some (Selecting rq hash) \<longrightarrow> check_request sha rq = Inr hash)
     \<and> (\<forall>p rq rp. iw_procs w p = Some (Answered rq rp) \<longrightarrow> (''Idempotent-Replayed'', ''true'') \<in> set (rp_headers rp) \<longrightarrow>
          replay_known sha (iw_log w) rq rp)"

definition owner_ok :: "(string \<Rightarrow> string) \<Rightarrow> idem_world \<Rightarrow> owners \<Rightarrow> bool" where
  "owner_ok sha w own \<longleftrightarrow> log_ok sha (iw_log w) own \<and> rows_ok (iw_keys w) (iw_log w) own
     \<and> busy_ok w own \<and> answers_ok sha w"

lemma failed_run_append [simp]: "failed_run (log @ es) p k \<longleftrightarrow> failed_run log p k \<or> failed_run es p k"
  by (simp add: failed_run_def)

lemma replay_known_mono: "replay_known sha log rq rp \<Longrightarrow> replay_known sha (log @ es) rq rp"
  by (auto simp: replay_known_def)

lemma Begin_insert_cases:
  "Begin_insert how m k hash expires t = (r, t') \<Longrightarrow>
     (r = Inr True \<longrightarrow> t (m, k) = None \<and> t' = t((m, k) \<mapsto> \<lparr>kr_hash = hash, kr_response = None, kr_expires = expires\<rparr>))
     \<and> (r = Inr False \<longrightarrow> t' = t)
     \<and> (t' = t \<or> (t (m, k) = None \<and> t' = t((m, k) \<mapsto> \<lparr>kr_hash = hash, kr_response = None, kr_expires = expires\<rparr>)))"
  by (auto simp: Begin_insert_def run_sql_def insert_key_def split: option.splits sql_end.splits if_splits)

lemma after_handler_cases:
  obtains "after_handler how rq status body t = t"
  | row where "t (key_of rq) = Some row" "status < 500"
      "after_handler how rq status body t = t(key_of rq \<mapsto> row\<lparr>kr_response := Some (status, body)\<rparr>)"
  | row where "t (key_of rq) = Some row" "status \<ge> 500" "kr_response row = None"
      "after_handler how rq status body t = t(key_of rq := None)"
proof (cases "after_handler how rq status body t = t")
  case False
  define u where "u = (if status \<ge> 500 then (case t (key_of rq) of
         None \<Rightarrow> t | Some row \<Rightarrow> if kr_response row = None then t(key_of rq := None) else t)
       else t(key_of rq := map_option (kr_response_update (\<lambda>_. Some (status, body))) (t (key_of rq))))"
  have u: "after_handler how rq status body t = u"
    using False unfolding u_def key_of_def
    by (cases how; cases "t (rq_merchant rq, rq_key rq)") (auto simp: after_handler_def Abandon_def Complete_def run_sql_def)
  have same: "t(k := None) = t" if "t k = None" for k using that by (metis fun_upd_triv)
  obtain row where row: "t (key_of rq) = Some row"
    using False unfolding u by (cases "t (key_of rq)") (auto simp: u_def same split: if_splits)
  show ?thesis
  proof (cases "status \<ge> 500")
    case True
    then show ?thesis using that(3) [OF row True] False row unfolding u by (auto simp: u_def split: if_splits)
  next
    case False
    then show ?thesis using that(2) [OF row] row unfolding u by (simp add: u_def)
  qed
qed (rule that(1))

text \<open>A process that moves to a state in which it runs nothing.\<close>

lemma idle_move:
  assumes "owner_ok sha w own" "busy x = None" "\<forall>rq hash. x = Selecting rq hash \<longrightarrow> check_request sha rq = Inr hash"
    "\<forall>rq rp. x = Answered rq rp \<longrightarrow> (''Idempotent-Replayed'', ''true'') \<in> set (rp_headers rp) \<longrightarrow> replay_known sha (iw_log w) rq rp"
  shows "owner_ok sha (w\<lparr>iw_procs := (iw_procs w)(p \<mapsto> x)\<rparr>) own"
  using assms unfolding owner_ok_def busy_ok_def answers_ok_def by (auto split: if_splits)

text \<open>A new row without an owner.\<close>

lemma orphan_row:
  assumes "owner_ok sha w own" "iw_keys w k = None" "kr_response row = None"
  shows "owner_ok sha (w\<lparr>iw_keys := (iw_keys w)(k \<mapsto> row)\<rparr>) own"
proof -
  have "busy_ok (w\<lparr>iw_keys := (iw_keys w)(k \<mapsto> row)\<rparr>) own"
    using assms unfolding owner_ok_def busy_ok_def by (auto 0 4)
  moreover have "rows_ok ((iw_keys w)(k \<mapsto> row)) (iw_log w) own"
    using assms unfolding owner_ok_def rows_ok_def by (simp add: subset_insertI2 split: option.split)
  ultimately show ?thesis
    using assms unfolding owner_ok_def answers_ok_def by simp
qed

text \<open>The row of a key without one, taken by a process that starts its run.\<close>

lemma start_run:
  assumes ok: "owner_ok sha w own" and rq: "check_request sha rq = Inr hash" and free: "iw_keys w (key_of rq) = None"
  shows "owner_ok sha \<lparr>iw_keys = (iw_keys w)(key_of rq \<mapsto> \<lparr>kr_hash = hash, kr_response = None, kr_expires = e\<rparr>),
      iw_procs = (iw_procs w)(p \<mapsto> Running rq hash), iw_log = iw_log w @ [Started p rq hash]\<rparr> (own(key_of rq \<mapsto> p))"
proof -
  have none: "own (key_of rq) = None" using ok free unfolding owner_ok_def rows_ok_def by (metis domIff subset_iff)
  have idle: "key_of rq' \<noteq> key_of rq" if "iw_procs w q = Some x" "busy x = Some (rq', h)" for q x rq' h
    using ok that none unfolding owner_ok_def busy_ok_def by fastforce
  have "log_ok sha (iw_log w @ [Started p rq hash]) (own(key_of rq \<mapsto> p))"
    using ok rq none unfolding owner_ok_def log_ok_def by auto (metis option.distinct(1))
  moreover have "rows_ok ((iw_keys w)(key_of rq \<mapsto> \<lparr>kr_hash = hash, kr_response = None, kr_expires = e\<rparr>))
      (iw_log w @ [Started p rq hash]) (own(key_of rq \<mapsto> p))"
    using ok free unfolding owner_ok_def rows_ok_def by (fastforce split: option.splits)
  moreover have "busy_ok \<lparr>iw_keys = (iw_keys w)(key_of rq \<mapsto> \<lparr>kr_hash = hash, kr_response = None, kr_expires = e\<rparr>),
      iw_procs = (iw_procs w)(p \<mapsto> Running rq hash), iw_log = iw_log w @ [Started p rq hash]\<rparr> (own(key_of rq \<mapsto> p))"
    using ok idle unfolding owner_ok_def busy_ok_def by auto
  moreover have "answers_ok sha \<lparr>iw_keys = (iw_keys w)(key_of rq \<mapsto> \<lparr>kr_hash = hash, kr_response = None, kr_expires = e\<rparr>),
      iw_procs = (iw_procs w)(p \<mapsto> Running rq hash), iw_log = iw_log w @ [Started p rq hash]\<rparr>"
    using ok unfolding owner_ok_def answers_ok_def by (auto intro: replay_known_mono)
  ultimately show ?thesis by (simp add: owner_ok_def)
qed

text \<open>A handler that returns.\<close>

lemma return_run:
  assumes ok: "owner_ok sha w own" and p: "iw_procs w p = Some (Running rq hash)"
  shows "owner_ok sha (w\<lparr>iw_procs := (iw_procs w)(p \<mapsto> Finished rq hash status body),
      iw_log := iw_log w @ [Returned p rq hash status body]\<rparr>) own"
proof -
  have st: "Started p rq hash \<in> set (iw_log w)" "own (key_of rq) = Some p"
    using ok p unfolding owner_ok_def busy_ok_def by fastforce+
  then have "check_request sha rq = Inr hash" using ok unfolding owner_ok_def log_ok_def by blast
  then have "log_ok sha (iw_log w @ [Returned p rq hash status body]) own"
    using ok unfolding owner_ok_def log_ok_def by auto
  moreover have "rows_ok (iw_keys w) (iw_log w @ [Returned p rq hash status body]) own"
    using ok unfolding owner_ok_def rows_ok_def by (fastforce split: option.splits)
  moreover have "busy_ok (w\<lparr>iw_procs := (iw_procs w)(p \<mapsto> Finished rq hash status body),
      iw_log := iw_log w @ [Returned p rq hash status body]\<rparr>) own"
    using ok p unfolding owner_ok_def busy_ok_def by (fastforce split: if_splits)
  moreover have "answers_ok sha (w\<lparr>iw_procs := (iw_procs w)(p \<mapsto> Finished rq hash status body),
      iw_log := iw_log w @ [Returned p rq hash status body]\<rparr>)"
    using ok unfolding owner_ok_def answers_ok_def by (auto intro: replay_known_mono)
  ultimately show ?thesis by (simp add: owner_ok_def)
qed

lemma row_set:
  assumes "rows_ok t log own" "own (key_of rq) = Some p" "Returned p rq hash status body \<in> set log"
    and "kr_hash row = hash" "status < 500"
  shows "rows_ok (t(key_of rq \<mapsto> row\<lparr>kr_response := Some (status, body)\<rparr>)) log own"
  using assms unfolding rows_ok_def by (auto split: option.split)

lemma row_deleted: "rows_ok t log own \<Longrightarrow> rows_ok (t(k := None)) log (own(k := None))"
  unfolding rows_ok_def by (simp only: fun_upd_apply) (auto split: option.split_asm)

lemma rows_okD:
  assumes "rows_ok t log own" "t k = Some row" "kr_response row = Some (status, body)"
  shows "\<exists>p rq. own k = Some p \<and> key_of rq = k \<and> status < 500 \<and> Returned p rq (kr_hash row) status body \<in> set log"
  using assms(1) [unfolded rows_ok_def, THEN conjunct2, rule_format, OF assms(2)] assms(3) by simp

text \<open>The end of a request, its row kept, filled or deleted.\<close>

lemma end_run:
  assumes ok: "owner_ok sha w own" and p: "iw_procs w p = Some (Finished rq hash status body)"
  shows "\<exists>own'. owner_ok sha (w\<lparr>iw_keys := after_handler how rq status body (iw_keys w),
      iw_procs := (iw_procs w)(p \<mapsto> Answered rq \<lparr>rp_status = status, rp_headers = [], rp_body = Bytes body\<rparr>)\<rparr>) own'"
proof -
  define x where "x = Answered rq \<lparr>rp_status = status, rp_headers = [], rp_body = Bytes body\<rparr>"
  have still: "owner_ok sha (w\<lparr>iw_procs := (iw_procs w)(p \<mapsto> x)\<rparr>) own"
    by (rule idle_move [OF ok]) (simp_all add: x_def)
  have mine: "own (key_of rq) = Some p" "Returned p rq hash status body \<in> set (iw_log w)"
    and row: "\<exists>row. iw_keys w (key_of rq) = Some row \<and> kr_hash row = hash"
    using ok p unfolding owner_ok_def busy_ok_def by fastforce+
  have other: "key_of rq' \<noteq> key_of rq" if "q \<noteq> p" "iw_procs w q = Some y" "busy y = Some (rq', h)" for q y rq' h
    using ok that mine(1) unfolding owner_ok_def busy_ok_def by (metis option.inject)
  show ?thesis
  proof (cases rule: after_handler_cases [of how rq status body "iw_keys w"])
    case 1
    then show ?thesis using still unfolding x_def by auto
  next
    case (2 r)
    have r: "kr_hash r = hash" using row 2(1) by auto
    have "rows_ok (after_handler how rq status body (iw_keys w)) (iw_log w) own"
      using row_set [where own = own and p = p, OF _ mine r 2(2)] ok unfolding 2(3) owner_ok_def by blast
    moreover have "busy_ok (w\<lparr>iw_keys := after_handler how rq status body (iw_keys w), iw_procs := (iw_procs w)(p \<mapsto> x)\<rparr>) own"
      using ok other unfolding 2(3) owner_ok_def busy_ok_def x_def by auto
    ultimately have "owner_ok sha (w\<lparr>iw_keys := after_handler how rq status body (iw_keys w), iw_procs := (iw_procs w)(p \<mapsto> x)\<rparr>) own"
      using still unfolding owner_ok_def answers_ok_def by simp
    then show ?thesis unfolding x_def by auto
  next
    case (3 r)
    define own' where "own' = own(key_of rq := None)"
    have "failed_run (iw_log w) p (key_of rq)"
      using mine(2) 3(2) unfolding failed_run_def list_ex_iff by (intro bexI [OF _ mine(2)]) simp
    then have "log_ok sha (iw_log w) own'"
      using ok mine(1) unfolding owner_ok_def log_ok_def own'_def by auto (metis option.inject)
    moreover have "rows_ok (after_handler how rq status body (iw_keys w)) (iw_log w) own'"
      using ok row_deleted unfolding 3(4) owner_ok_def own'_def by blast
    moreover have "busy_ok (w\<lparr>iw_keys := after_handler how rq status body (iw_keys w), iw_procs := (iw_procs w)(p \<mapsto> x)\<rparr>) own'"
      using ok other unfolding 3(4) owner_ok_def busy_ok_def x_def own'_def by auto
    ultimately have "owner_ok sha (w\<lparr>iw_keys := after_handler how rq status body (iw_keys w), iw_procs := (iw_procs w)(p \<mapsto> x)\<rparr>) own'"
      using still unfolding owner_ok_def answers_ok_def by simp
    then show ?thesis unfolding x_def by auto
  qed
qed

lemma store_reply_replay:
  assumes "owner_ok sha w own" "iw_procs w p = Some (Selecting rq hash)"
    and "store_reply rq (Begin_select fault (rq_merchant rq) (rq_key rq) hash (iw_keys w)) = Some rp"
    and "(''Idempotent-Replayed'', ''true'') \<in> set (rp_headers rp)"
  shows "replay_known sha (iw_log w) rq rp"
proof -
  obtain row status body where row: "iw_keys w (key_of rq) = Some row" "kr_hash row = hash"
    "kr_response row = Some (status, body)" "rp_status rp = status" "rp_body rp = Bytes body"
    using assms(3,4) by (auto simp: store_reply_def Begin_select_def abortProblem_def key_of_def
        split: option.splits if_splits)
  have "rows_ok (iw_keys w) (iw_log w) own" using assms(1) by (simp add: owner_ok_def)
  then obtain q rq' where q: "key_of rq' = key_of rq" "status < 500" "Returned q rq' hash status body \<in> set (iw_log w)"
    using rows_okD row(1-3) by metis
  moreover have "check_request sha rq = Inr hash" using assms(1,2) unfolding owner_ok_def answers_ok_def by blast
  moreover have "check_request sha rq' = Inr hash" using assms(1) q(3) unfolding owner_ok_def log_ok_def by blast
  ultimately show ?thesis using row(4,5) unfolding replay_known_def by blast
qed

lemma idem_step_owner:
  assumes "idem_step sha w w'" "owner_ok sha w own"
  shows "\<exists>own'. owner_ok sha w' own'"
  using assms
proof (induction rule: idem_step.induct)
  case (arrive w p rq)
  then show ?case by (intro exI, intro idle_move) auto
next
  case (refuse w p rq rp)
  then have "(''Idempotent-Replayed'', ''true'') \<notin> set (rp_headers rp)"
    by (auto simp: check_request_def abortProblem_def split: if_splits option.splits)
  then show ?case using refuse by (intro exI, intro idle_move) auto
next
  case (reserve w p rq hash how expires t)
  have "iw_keys w (key_of rq) = None" "t = (iw_keys w)(key_of rq \<mapsto> \<lparr>kr_hash = hash, kr_response = None, kr_expires = expires\<rparr>)"
    using Begin_insert_cases [OF reserve(3)] by (auto simp: key_of_def)
  then show ?case using start_run [OF reserve(4,2)] by blast
next
  case (taken w p rq hash how expires t)
  have "t = iw_keys w" using Begin_insert_cases [OF taken(3)] by simp
  then have "owner_ok sha (w\<lparr>iw_keys := t, iw_procs := (iw_procs w)(p \<mapsto> Selecting rq hash)\<rparr>) own"
    using idle_move [OF taken(4), of "Selecting rq hash"] taken(2) by simp
  then show ?case by blast
next
  case (unavailable w p rq hash how expires e t rp)
  have keyed: "owner_ok sha (w\<lparr>iw_keys := t\<rparr>) own"
    using Begin_insert_cases [OF unavailable(3)] unavailable(5) orphan_row [OF unavailable(5)] by (auto simp: key_of_def)
  have "(''Idempotent-Replayed'', ''true'') \<notin> set (rp_headers rp)"
    using unavailable(4) by (auto simp: store_reply_def abortProblem_def)
  then have "owner_ok sha (w\<lparr>iw_keys := t, iw_procs := (iw_procs w)(p \<mapsto> Answered rq rp)\<rparr>) own"
    using idle_move [OF keyed, of "Answered rq rp"] by simp
  then show ?case by blast
next
  case (look w p rq hash fault res rp)
  have "owner_ok sha (w\<lparr>iw_procs := (iw_procs w)(p \<mapsto> Answered rq rp)\<rparr>) own"
    by (rule idle_move [OF look(4)]) (use store_reply_replay [OF look(4,1)] look(2,3) in auto)
  then show ?case by blast
next
  case (handle w p rq hash status body)
  then show ?case using return_run by blast
next
  case (conclude w p rq hash status body rp how)
  then show ?case using end_run by blast
next
  case (die w p rq hash status body)
  then show ?case by (intro exI, intro idle_move) auto
qed

lemma idem_reach_owner: "idem_reach sha w \<Longrightarrow> \<exists>own. owner_ok sha w own"
proof (induction rule: idem_reach.induct)
  case idem_init
  have "owner_ok sha idem_start Map.empty"
    by (simp add: owner_ok_def log_ok_def rows_ok_def busy_ok_def answers_ok_def idem_start_def)
  then show ?case by blast
next
  case (idem_next w w')
  then show ?case using idem_step_owner by blast
qed

text \<open>C8: whatever requests run at once and wherever the database fails or a server dies, a handler runs at
  most once per merchant and key, except after runs that answered 500 or more: of two runs
  for one key, one has failed so. An answer marked as a replay repeats the status and the
  body another run for the same key and the same request hash returned.\<close>

theorem idempotent_once:
  assumes "idem_reach sha w"
  shows "(p \<noteq> q \<longrightarrow> Started p rq hash \<in> set (iw_log w) \<longrightarrow> Started q rq' hash' \<in> set (iw_log w) \<longrightarrow>
      (rq_merchant rq, rq_key rq) = (rq_merchant rq', rq_key rq') \<longrightarrow>
      failed_run (iw_log w) p (rq_merchant rq, rq_key rq) \<or> failed_run (iw_log w) q (rq_merchant rq, rq_key rq))
    \<and> (iw_procs w p = Some (Answered rq rp) \<longrightarrow> (''Idempotent-Replayed'', ''true'') \<in> set (rp_headers rp) \<longrightarrow>
      (\<exists>r rq0 h body. Returned r rq0 h (rp_status rp) body \<in> set (iw_log w) \<and> rp_status rp < 500 \<and> rp_body rp = Bytes body
         \<and> (rq_merchant rq0, rq_key rq0) = (rq_merchant rq, rq_key rq) \<and> check_request sha rq = Inr h \<and> check_request sha rq0 = Inr h))"
proof -
  obtain own where ok: "owner_ok sha w own" using idem_reach_owner [OF assms] by blast
  have runs: "own (key_of rq) = Some p \<or> failed_run (iw_log w) p (key_of rq)" if "Started p rq hash \<in> set (iw_log w)" for p rq hash
    using ok that unfolding owner_ok_def log_ok_def by blast
  have "replay_known sha (iw_log w) rq rp"
    if "iw_procs w p = Some (Answered rq rp)" "(''Idempotent-Replayed'', ''true'') \<in> set (rp_headers rp)"
    using ok that unfolding owner_ok_def answers_ok_def by blast
  then show ?thesis
    using runs [of p rq hash] runs [of q rq' hash'] unfolding replay_known_def key_of_def by (metis option.inject)
qed

section \<open>A sample run\<close>

definition sample_request :: request where
  "sample_request = \<lparr>rq_merchant = ''m_1'', rq_key = ''k'', rq_method = ''POST'', rq_path = ''/v1/transactions'', rq_body = Some ''x''\<rparr>"

definition sample_hash :: string where
  "sample_hash = request_hash id sample_request ''x''"

lemma sample_check: "check_request id sample_request = Inr sample_hash"
  by (simp add: check_request_def sample_request_def read_body_def sample_hash_def)

lemma sample_key: "rq_merchant sample_request = ''m_1''" "rq_key sample_request = ''k''" "key_of sample_request = (''m_1'', ''k'')"
  by (simp_all add: sample_request_def key_of_def)

theorem repeated_request_witness:
  "rp_body (fst (Idempotency_middleware id 9 (\<lambda>rq (n :: nat). ((201, ''ok''), n + 1)) sample_request
      (snd (Idempotency_middleware id 5 (\<lambda>rq (n :: nat). ((201, ''ok''), n + 1)) sample_request (Map.empty, 0))))) = Bytes ''ok''"
proof -
  define h :: "request \<Rightarrow> nat \<Rightarrow> (int \<times> string) \<times> nat" where "h = (\<lambda>rq n. ((201, ''ok''), n + 1))"
  define x1 where "x1 = Idempotency_middleware id 5 h sample_request (Map.empty, 0)"
  define x2 where "x2 = Idempotency_middleware id 9 h sample_request (snd x1)"
  have runs: "Idempotency_middleware id 5 h sample_request (Map.empty, 0) = (fst x1, snd x1)"
    "Idempotency_middleware id 9 h sample_request (snd x1) = (fst x2, snd x2)" by (simp_all add: x1_def x2_def)
  have "rp_body (fst x2) = Bytes ''ok''"
    using repeated_request [OF sample_check _ _ _ runs, of 201 "''ok''" 1] by (simp add: h_def)
  then show ?thesis by (simp add: x1_def x2_def h_def)
qed

text \<open>A first run fails and releases the key, a second one succeeds, a third request gets its answer.\<close>

definition sample_row :: key_row where
  "sample_row = \<lparr>kr_hash = sample_hash, kr_response = None, kr_expires = 5\<rparr>"

lemma sample_insert:
  "Begin_insert Applied ''m_1'' ''k'' sample_hash 5 Map.empty = (Inr True, [(''m_1'', ''k'') \<mapsto> sample_row])"
  "Begin_insert Applied ''m_1'' ''k'' sample_hash 5 [(''m_1'', ''k'') \<mapsto> row] = (Inr False, [(''m_1'', ''k'') \<mapsto> row])"
  by (simp_all add: Begin_insert_def run_sql_def insert_key_def sample_row_def)

lemma sample_run:
  assumes start: "idem_reach id w" "iw_procs w p = None" "iw_keys w = Map.empty" and s: "status \<ge> 500 \<or> status < 500"
  shows "idem_reach id \<lparr>iw_keys = after_handler Applied sample_request status body [(''m_1'', ''k'') \<mapsto> sample_row],
      iw_procs = (iw_procs w)(p \<mapsto> Answered sample_request \<lparr>rp_status = status, rp_headers = [], rp_body = Bytes body\<rparr>),
      iw_log = iw_log w @ [Started p sample_request sample_hash, Returned p sample_request sample_hash status body]\<rparr>"
proof -
  define w1 where "w1 = w\<lparr>iw_procs := (iw_procs w)(p \<mapsto> Arrived sample_request)\<rparr>"
  have 1: "idem_reach id w1" unfolding w1_def by (rule idem_next [OF start(1) arrive [OF start(2)]])
  define w2 where "w2 = \<lparr>iw_keys = [(''m_1'', ''k'') \<mapsto> sample_row], iw_procs = (iw_procs w1)(p \<mapsto> Running sample_request sample_hash),
      iw_log = iw_log w1 @ [Started p sample_request sample_hash]\<rparr>"
  have "idem_step id w1 w2"
    unfolding w2_def by (rule reserve [OF _ sample_check, where how = Applied and expires = 5]) (simp_all add: w1_def start(3) sample_key sample_insert)
  then have 2: "idem_reach id w2" by (rule idem_next [OF 1])
  define w3 where "w3 = w2\<lparr>iw_procs := (iw_procs w2)(p \<mapsto> Finished sample_request sample_hash status body),
                       iw_log := iw_log w2 @ [Returned p sample_request sample_hash status body]\<rparr>"
  have 3: "idem_reach id w3" unfolding w3_def by (rule idem_next [OF 2 handle]) (simp add: w2_def)
  have "idem_step id w3 (w3\<lparr>iw_keys := after_handler Applied sample_request status body (iw_keys w3),
      iw_procs := (iw_procs w3)(p \<mapsto> Answered sample_request \<lparr>rp_status = status, rp_headers = [], rp_body = Bytes body\<rparr>)\<rparr>)"
    by (rule conclude [OF _ refl]) (simp add: w3_def)
  from idem_next [OF 3 this] show ?thesis by (simp add: w3_def w2_def w1_def)
qed

theorem idempotent_once_witness:
  "\<exists>w rp. idem_reach id w \<and> Started 0 sample_request sample_hash \<in> set (iw_log w)
     \<and> Started 1 sample_request sample_hash \<in> set (iw_log w) \<and> failed_run (iw_log w) 0 (''m_1'', ''k'')
     \<and> iw_procs w 2 = Some (Answered sample_request rp) \<and> rp_body rp = Bytes ''ok''"
proof -
  define x1 where "x1 = \<lparr>iw_keys = Map.empty, iw_procs = [0 \<mapsto> Answered sample_request \<lparr>rp_status = 500, rp_headers = [], rp_body = Bytes ''no''\<rparr>],
      iw_log = [Started 0 sample_request sample_hash, Returned 0 sample_request sample_hash 500 ''no'']\<rparr>"
  have 1: "idem_reach id x1"
    using sample_run [OF idem_init, of 0 500 "''no''"]
    by (simp add: idem_start_def x1_def after_handler_def Abandon_def run_sql_def sample_key sample_row_def)
  define x2 where "x2 = \<lparr>iw_keys = [(''m_1'', ''k'') \<mapsto> sample_row\<lparr>kr_response := Some (201, ''ok'')\<rparr>],
      iw_procs = (iw_procs x1)(1 \<mapsto> Answered sample_request \<lparr>rp_status = 201, rp_headers = [], rp_body = Bytes ''ok''\<rparr>),
      iw_log = iw_log x1 @ [Started 1 sample_request sample_hash, Returned 1 sample_request sample_hash 201 ''ok'']\<rparr>"
  have 2: "idem_reach id x2"
    using sample_run [OF 1, of 1 201 "''ok''"]
    by (simp add: x1_def x2_def after_handler_def Complete_def run_sql_def sample_key sample_row_def)
  define x3 where "x3 = x2\<lparr>iw_procs := (iw_procs x2)(2 \<mapsto> Arrived sample_request)\<rparr>"
  have 3: "idem_reach id x3" unfolding x3_def by (rule idem_next [OF 2 arrive]) (simp add: x2_def x1_def)
  have "idem_step id x3 (x3\<lparr>iw_keys := iw_keys x3, iw_procs := (iw_procs x3)(2 \<mapsto> Selecting sample_request sample_hash)\<rparr>)"
    by (rule taken [OF _ sample_check, where how = Applied and expires = 5]) (simp_all add: x3_def x2_def sample_key sample_insert)
  then have 4: "idem_reach id (x3\<lparr>iw_keys := iw_keys x3, iw_procs := (iw_procs x3)(2 \<mapsto> Selecting sample_request sample_hash)\<rparr>)"
    by (rule idem_next [OF 3])
  define rp where "rp = \<lparr>rp_status = 201, rp_headers = [(''Idempotent-Replayed'', ''true''), (''Content-Type'', ''application/json'')],
                     rp_body = Bytes ''ok''\<rparr>"
  define x5 where "x5 = x3\<lparr>iw_procs := (iw_procs x3)(2 \<mapsto> Answered sample_request rp)\<rparr>"
  have "idem_step id (x3\<lparr>iw_keys := iw_keys x3, iw_procs := (iw_procs x3)(2 \<mapsto> Selecting sample_request sample_hash)\<rparr>)
     ((x3\<lparr>iw_keys := iw_keys x3, iw_procs := (iw_procs x3)(2 \<mapsto> Selecting sample_request sample_hash)\<rparr>)
       \<lparr>iw_procs := (iw_procs (x3\<lparr>iw_keys := iw_keys x3, iw_procs := (iw_procs x3)(2 \<mapsto> Selecting sample_request sample_hash)\<rparr>))(2 \<mapsto> Answered sample_request rp)\<rparr>)"
    by (rule look [where fault = None, OF _ refl])
      (auto simp: x3_def x2_def sample_key sample_row_def Begin_select_def store_reply_def rp_def)
  from idem_next [OF 4 this] have 5: "idem_reach id x5" by (simp add: x5_def)
  have facts: "Started 0 sample_request sample_hash \<in> set (iw_log x5)" "Started 1 sample_request sample_hash \<in> set (iw_log x5)"
    "iw_procs x5 2 = Some (Answered sample_request rp)" "\<not> failed_run (iw_log x5) 1 (''m_1'', ''k'')"
    by (simp_all add: x5_def x3_def x2_def x1_def failed_run_def)
  then show ?thesis
    using idempotent_once [OF 5, of 0 1 sample_request sample_hash sample_request sample_hash rp] 5
    by (auto simp: sample_key rp_def)
qed

end
