(* ===== verification/Http.thy ===== *)
theory Http
  imports Onboarding Disputes Scheduling Card_Vault Idempotency
begin

text \<open>
  \<open>internal/handler/http\<close>: what the API answers. The transport objects of \<open>dto.go\<close>, the error
  map of \<open>problem.go\<close>, the authentication of \<open>middleware/auth.go\<close>, the handlers of
  \<open>merchants.go\<close>, \<open>transactions.go\<close>, \<open>receivables.go\<close> and \<open>anticipations.go\<close>, and the routes
  of \<open>router.go\<close> with the scope each demands.

  Gin, its validator and the JWT library are third-party code. A request comes with its body
  already bound: \<open>Inl\<close> the text of the binder's error, or \<open>Inr\<close> the transport object; the
  verified claims of a token are the argument \<open>verify\<close>. Response bodies are the transport
  objects, not their JSON text. The texts of errors are an argument, and the accents of the
  program's own texts are dropped. Logs and metrics are in \<open>Observability\<close>.
\<close>

section \<open>Transport objects\<close>

record create_merchant_request =
  cm_Document :: string
  cm_LegalName :: string
  cm_MCC :: string
  cm_BankCode :: string
  cm_BankBranch :: string
  cm_BankNumber :: string
  cm_BankKind :: string
  cm_DebitBps :: int
  cm_CreditBps :: int
  cm_CreditInstallmentBps :: "(int, int) fmap"
  cm_AnticipationBpsMonth :: int
  cm_WebhookURL :: string

record update_merchant_settings_request =
  um_WebhookURL :: "string option"
  um_AutoAnticipation :: "bool option"

record tokenize_card_request =
  tq_PAN :: string
  tq_Expiry :: string

record authorize_request =
  aq_Amount :: int64
  aq_Product :: string
  aq_Installments :: int
  aq_CardToken :: string

record anticipation_request =
  nq_ReceivableIDs :: "string list"

record open_chargeback_request =
  bq_MerchantID :: string
  bq_TransactionID :: string
  bq_ReasonCode :: string
  bq_Amount :: int64

record merchant_response =
  mr_ID :: string
  mr_Document :: string
  mr_LegalName :: string
  mr_MCC :: string
  mr_Status :: string
  mr_WebhookURL :: string
  mr_AutoAnticipation :: bool
  mr_CreatedAt :: time

definition toMerchantResponse :: "merchant \<Rightarrow> merchant_response" where
  "toMerchantResponse m =
     \<lparr>mr_ID = m_id m, mr_Document = Masked (m_document m), mr_LegalName = m_legalName m, mr_MCC = m_mcc m,
      mr_Status = merchant_status_string (m_status m), mr_WebhookURL = m_webhookURL m,
      mr_AutoAnticipation = m_autoAnticipation m, mr_CreatedAt = m_createdAt m\<rparr>"

record card_token_response =
  ct_Token :: string
  ct_Brand :: string
  ct_BIN :: string
  ct_Last4 :: string

record transaction_response =
  xr_ID :: string
  xr_MerchantID :: string
  xr_Amount :: int64
  xr_AmountFormatted :: string
  xr_Product :: string
  xr_Installments :: int
  xr_Status :: string
  xr_AuthorizationCode :: string
  xr_NSU :: string
  xr_ResponseCode :: string
  xr_CardBrand :: string
  xr_CardLast4 :: string
  xr_CreatedAt :: time
  xr_CapturedAt :: "time option"
  xr_CanceledAt :: "time option"

definition toTransactionResponse :: "transaction \<Rightarrow> transaction_response" where
  "toTransactionResponse t =
     \<lparr>xr_ID = tx_id t, xr_MerchantID = tx_merchantID t, xr_Amount = tx_amount t, xr_AmountFormatted = money_String (tx_amount t),
      xr_Product = product_string (tx_product t), xr_Installments = tx_installments t, xr_Status = tx_status_string (tx_status t),
      xr_AuthorizationCode = tx_authorizationCode t, xr_NSU = tx_nsu t, xr_ResponseCode = tx_responseCode t,
      xr_CardBrand = Brand (tx_card t), xr_CardLast4 = Last4 (tx_card t),
      xr_CreatedAt = tx_createdAt t, xr_CapturedAt = tx_capturedAt t, xr_CanceledAt = tx_canceledAt t\<rparr>"

record receivable_response =
  rr_ID :: string
  rr_TransactionID :: string
  rr_InstallmentNo :: int
  rr_Installments :: int
  rr_Product :: string
  rr_Brand :: string
  rr_Gross :: int64
  rr_Fee :: int64
  rr_Net :: int64
  rr_NetFormatted :: string
  rr_DueDate :: string
  rr_Status :: string
  rr_SettlementID :: string
  rr_AnticipationID :: string

definition toReceivableResponse :: "receivable \<Rightarrow> receivable_response" where
  "toReceivableResponse r =
     \<lparr>rr_ID = rcv_id r, rr_TransactionID = rcv_transactionID r, rr_InstallmentNo = rcv_installmentNo r,
      rr_Installments = rcv_installments r, rr_Product = product_string (rcv_product r), rr_Brand = rcv_brand r,
      rr_Gross = rcv_gross r, rr_Fee = rcv_fee r, rr_Net = rcv_net r, rr_NetFormatted = money_String (rcv_net r),
      rr_DueDate = format_date (rcv_dueDate r), rr_Status = rcv_status_string (rcv_status r),
      rr_SettlementID = rcv_settlementID r, rr_AnticipationID = rcv_anticipationID r\<rparr>"

definition toReceivableResponses :: "receivable list \<Rightarrow> receivable_response list" where
  "toReceivableResponses rs = map toReceivableResponse rs"

record daily_summary_response =
  dsr_DueDate :: string
  dsr_Status :: string
  dsr_Count :: int
  dsr_Net :: int64

definition toSummaryResponses :: "daily_summary list \<Rightarrow> daily_summary_response list" where
  "toSummaryResponses ss = map (\<lambda>s. \<lparr>dsr_DueDate = format_date (ds_DueDate s), dsr_Status = rcv_status_string (ds_Status s),
     dsr_Count = ds_Count s, dsr_Net = ds_Net s\<rparr>) ss"

record anticipation_item_response =
  nir_ReceivableID :: string
  nir_DueDate :: string
  nir_Days :: int
  nir_Net :: int64
  nir_PresentValue :: int64
  nir_Discount :: int64

record anticipation_response =
  nr_ID :: string
  nr_MerchantID :: string
  nr_Status :: string
  nr_RateBpsMonth :: int
  nr_Gross :: int64
  nr_Discount :: int64
  nr_Net :: int64
  nr_NetFormatted :: string
  nr_RequestedAt :: time
  nr_Items :: "anticipation_item_response list"

definition toAnticipationResponse :: "anticipation \<Rightarrow> anticipation_response" where
  "toAnticipationResponse a =
     \<lparr>nr_ID = ant_id a, nr_MerchantID = ant_merchantID a, nr_Status = ant_status_string (ant_status a),
      nr_RateBpsMonth = ant_rateMonth a, nr_Gross = ant_gross a, nr_Discount = ant_discount a, nr_Net = ant_net a,
      nr_NetFormatted = money_String (ant_net a), nr_RequestedAt = ant_requestedAt a,
      nr_Items = map (\<lambda>it. \<lparr>nir_ReceivableID = it_ReceivableID it, nir_DueDate = format_date (it_DueDate it), nir_Days = it_Days it,
        nir_Net = it_Net it, nir_PresentValue = it_PresentValue it, nir_Discount = it_Discount it\<rparr>) (ant_items a)\<rparr>"

record settlement_response =
  sr_ID :: string
  sr_Date :: string
  sr_Total :: int64
  sr_ToMerchant :: int64
  sr_ToCreditors :: int64
  sr_Retained :: int64
  sr_Status :: string
  sr_ExternalRef :: string
  sr_CreatedAt :: time

definition toSettlementResponses :: "settlement list \<Rightarrow> settlement_response list" where
  "toSettlementResponses ss = map (\<lambda>s. \<lparr>sr_ID = stl_id s, sr_Date = format_date (stl_date s), sr_Total = stl_total s,
     sr_ToMerchant = stl_toMerchant s, sr_ToCreditors = stl_toCreditors s, sr_Retained = stl_retained s,
     sr_Status = stl_status_string (stl_status s), sr_ExternalRef = stl_externalRef s, sr_CreatedAt = stl_createdAt s\<rparr>) ss"

record chargeback_response =
  br_ID :: string
  br_TransactionID :: string
  br_MerchantID :: string
  br_ReasonCode :: string
  br_Amount :: int64
  br_Status :: string
  br_OpenedAt :: time
  br_Deadline :: time

definition toChargebackResponse :: "chargeback \<Rightarrow> chargeback_response" where
  "toChargebackResponse c =
     \<lparr>br_ID = cb_id c, br_TransactionID = cb_transactionID c, br_MerchantID = cb_merchantID c, br_ReasonCode = cb_reasonCode c,
      br_Amount = cb_amount c, br_Status = cb_status_string (cb_status c), br_OpenedAt = cb_openedAt c, br_Deadline = cb_deadline c\<rparr>"

section \<open>Problems\<close>

record problem =
  pb_Type :: string
  pb_Title :: string
  pb_Status :: int
  pb_Detail :: string
  pb_Instance :: string
  pb_Code :: string

datatype json =
    JProblem problem
  | JMerchant merchant_response
  | JCardToken card_token_response
  | JTransaction transaction_response
  | JReceivables "receivable_response list"
  | JSummary "daily_summary_response list"
  | JSettlements "settlement_response list"
  | JAnticipation anticipation_response
  | JChargeback chargeback_response

record http_response =
  hr_status :: int
  hr_headers :: "(string \<times> string) list"
  hr_body :: json

text \<open>\<open>http.StatusText\<close> of the statuses the API uses.\<close>

definition StatusText :: "int \<Rightarrow> string" where
  "StatusText status =
     (if status = 400 then ''Bad Request'' else if status = 401 then ''Unauthorized'' else if status = 403 then ''Forbidden''
      else if status = 404 then ''Not Found'' else if status = 409 then ''Conflict''
      else if status = 422 then ''Unprocessable Entity'' else if status = 500 then ''Internal Server Error''
      else if status = 503 then ''Service Unavailable'' else if status = 504 then ''Gateway Timeout'' else '''')"

definition http_problem :: "string \<Rightarrow> int \<Rightarrow> string \<Rightarrow> string \<Rightarrow> http_response" where
  "http_problem path status code detail =
     \<lparr>hr_status = status, hr_headers = [(''Content-Type'', ''application/problem+json'')],
      hr_body = JProblem \<lparr>pb_Type = ''https://api.adquirente.com/errors/'' @ code, pb_Title = StatusText status,
        pb_Status = status, pb_Detail = detail, pb_Instance = path, pb_Code = code\<rparr>\<rparr>"

definition errorMap :: "(sentinel \<times> int \<times> string) list" where
  "errorMap =
    [(ErrNotFound, 404, ''NOT_FOUND''),
     (ErrInvalidTransition, 409, ''INVALID_TRANSITION''),
     (ErrConcurrentUpdate, 409, ''CONCURRENT_UPDATE''),
     (ErrAlreadyDone, 409, ''ALREADY_DONE''),
     (ErrInvalidAmount, 400, ''INVALID_AMOUNT''),
     (ErrInvalidProduct, 400, ''INVALID_PRODUCT''),
     (ErrInvalidDocument, 400, ''INVALID_DOCUMENT''),
     (ErrInvalidBankAccount, 400, ''INVALID_BANK_ACCOUNT''),
     (ErrInvalidLegalName, 400, ''INVALID_LEGAL_NAME''),
     (ErrInvalidMCC, 400, ''INVALID_MCC''),
     (ErrInvalidFeePlan, 400, ''INVALID_FEE_PLAN''),
     (ErrInvalidWebhook, 400, ''INVALID_WEBHOOK_URL''),
     (ErrInvalidPAN, 400, ''INVALID_CARD''),
     (ErrInvalidToken, 400, ''INVALID_CARD_TOKEN''),
     (ErrDebitInstallments, 400, ''DEBIT_CANNOT_INSTALL''),
     (ErrMaxInstallments, 400, ''INVALID_INSTALLMENTS''),
     (ErrNoReceivables, 400, ''NO_RECEIVABLES''),
     (ErrMerchantInactive, 422, ''MERCHANT_INACTIVE''),
     (ErrInstallmentsNotAllowed, 422, ''INSTALLMENTS_NOT_ALLOWED''),
     (ErrLimitExceeded, 422, ''LIMIT_EXCEEDED''),
     (ErrNotAnticipable, 422, ''RECEIVABLE_NOT_ANTICIPABLE''),
     (ErrAntWrongMerchant, 403, ''FORBIDDEN''),
     (ErrReceivableLiened, 422, ''RECEIVABLE_LIENED''),
     (ErrCbInvalidAmount, 422, ''INVALID_CHARGEBACK_AMOUNT''),
     (ErrTransactionStatus, 422, ''TRANSACTION_NOT_DISPUTABLE''),
     (ErrIssuerUnavailable, 503, ''ISSUER_UNAVAILABLE''),
     (DeadlineExceeded, 504, ''UPSTREAM_TIMEOUT'')]"

fun respond_loop :: "(go_error \<Rightarrow> string) \<Rightarrow> string \<Rightarrow> go_error \<Rightarrow> (sentinel \<times> int \<times> string) list \<Rightarrow> http_response" where
  "respond_loop text path err [] = http_problem path 500 ''INTERNAL_ERROR'' ''erro interno do servidor''"
| "respond_loop text path err ((target, status, code) # rest) =
     (if errors_Is err target then http_problem path status code (text err) else respond_loop text path err rest)"

definition respondError :: "(go_error \<Rightarrow> string) \<Rightarrow> string \<Rightarrow> go_error \<Rightarrow> http_response" where
  "respondError text path err = respond_loop text path err errorMap"

section \<open>Who is calling\<close>

record principal =
  pr_ClientID :: string
  pr_MerchantID :: string
  pr_Scopes :: "string list"

definition Has :: "principal \<Rightarrow> string \<Rightarrow> bool" where
  "Has p scope \<longleftrightarrow> scope \<in> set (pr_Scopes p)"

record claims =
  cl_Subject :: string
  cl_MerchantID :: string
  cl_Scope :: string

text \<open>\<open>strings.Fields\<close> on a text of ASCII characters.\<close>

definition is_space :: "char \<Rightarrow> bool" where
  "is_space c \<longleftrightarrow> byte c = 32 \<or> (9 \<le> byte c \<and> byte c \<le> 13)"

fun Fields :: "string \<Rightarrow> string \<Rightarrow> string list" where
  "Fields [] word' = (if word' = [] then [] else [word'])"
| "Fields (c # cs) word' =
     (if is_space c then (if word' = [] then Fields cs [] else word' # Fields cs []) else Fields cs (word' @ [c]))"

definition TrimPrefix :: "string \<Rightarrow> string \<Rightarrow> string" where
  "TrimPrefix s p = (if has_prefix s p then drop (length p) s else s)"

text \<open>The problems of the middleware have no type; here it is empty.\<close>

definition gin_problem :: "string \<Rightarrow> (string \<times> string) list \<Rightarrow> int \<Rightarrow> string \<Rightarrow> string \<Rightarrow> http_response" where
  "gin_problem path headers status code detail =
     \<lparr>hr_status = status, hr_headers = headers @ [(''Content-Type'', ''application/problem+json'')],
      hr_body = JProblem \<lparr>pb_Type = '''', pb_Title = StatusText status, pb_Status = status, pb_Detail = detail,
        pb_Instance = path, pb_Code = code\<rparr>\<rparr>"

definition unauthorized :: "string \<Rightarrow> string \<Rightarrow> http_response" where
  "unauthorized path detail =
     gin_problem path [(''WWW-Authenticate'', ''Bearer realm=\"adquirente\"'')] 401 ''UNAUTHENTICATED'' detail"

definition Authenticate :: "(string \<Rightarrow> claims option) \<Rightarrow> string \<Rightarrow> string \<Rightarrow> http_response + principal" where
  "Authenticate verify path header =
     (let raw = TrimPrefix header ''Bearer ''
      in if raw = '''' \<or> raw = header then Inl (unauthorized path ''token ausente'')
         else case verify raw of
           None \<Rightarrow> Inl (unauthorized path ''token invalido'')
         | Some c \<Rightarrow> Inr \<lparr>pr_ClientID = cl_Subject c, pr_MerchantID = cl_MerchantID c, pr_Scopes = Fields (cl_Scope c) []\<rparr>)"

definition Authorize_scope :: "string \<Rightarrow> string \<Rightarrow> principal \<Rightarrow> http_response option" where
  "Authorize_scope path scope p =
     (if \<not> Has p scope then Some (gin_problem path [] 403 ''FORBIDDEN'' (''escopo insuficiente: '' @ scope)) else None)"

end
