(* ===== verification/Api.thy ===== *)
theory Api
  imports Http
begin

text \<open>
  The handlers of \<open>internal/handler/http\<close> over the state of the program, the routes of
  \<open>router.go\<close> and what they guarantee: who may call what, whose data an answer holds, and
  which error becomes which answer.
\<close>

section \<open>Query parameters\<close>

text \<open>\<open>time.Parse("2006-01-02", s)\<close>.\<close>

definition time_Parse :: "string \<Rightarrow> time result" where
  "time_Parse s =
     (if length s = 10 \<and> s ! 4 = CHR ''-'' \<and> s ! 7 = CHR ''-''
         \<and> list_all is_digit (take 4 s @ take 2 (drop 5 s) @ drop 8 s)
         \<and> valid_date (int (undec (take 4 s))) (int (undec (take 2 (drop 5 s)))) (int (undec (drop 8 s)))
      then Inr (Date (int (undec (take 4 s))) (int (undec (take 2 (drop 5 s)))) (int (undec (drop 8 s))))
      else Inl (ErrorString ''parsing time''))"

definition parseDate :: "string \<Rightarrow> time result" where
  "parseDate s = (if s = '''' then Inr zero_time else time_Parse s)"

text \<open>The value \<open>strconv.Atoi\<close> returns, also with an error: 0, or the bound a number is beyond.\<close>

definition Atoi :: "string \<Rightarrow> int" where
  "Atoi s =
     (let digits = (if s \<noteq> [] \<and> (hd s = CHR ''-'' \<or> hd s = CHR ''+'') then tl s else s);
          n = int (undec digits)
      in if digits = [] \<or> \<not> list_all is_digit digits then 0
         else if s ! 0 = CHR ''-'' then max (- (2 ^ 63)) (- n) else min (2 ^ 63 - 1) n)"

section \<open>Handlers\<close>

text \<open>What the handlers are built on.\<close>

record deps =
  dp_text :: "go_error \<Rightarrow> string"
  dp_verify :: "string \<Rightarrow> claims option"
  dp_url_parse :: url_parser
  dp_vault :: vault
  dp_tokenize :: "string \<Rightarrow> string \<Rightarrow> tokenized_card result"
  dp_issuer :: issuer
  dp_rules :: "rule list"
  dp_pricer :: pricer
  dp_check_liens :: "string \<Rightarrow> time \<Rightarrow> lien list result"
  dp_transfer :: "string list \<Rightarrow> string \<Rightarrow> bool"

text \<open>A request: its path, the \<open>id\<close> in it, the Authorization header, the query, and the instants the
  clock gives while it runs.\<close>

record http_request =
  hq_path :: string
  hq_id :: string
  hq_auth :: string
  hq_query :: "string \<Rightarrow> string option"
  hq_now :: time
  hq_now2 :: time

type_synonym act = "world \<Rightarrow> http_response \<times> world"

definition reply :: "http_response \<Rightarrow> act" where
  "reply rp w = (rp, w)"

definition Query :: "http_request \<Rightarrow> string \<Rightarrow> string" where
  "Query rq key = (case hq_query rq key of None \<Rightarrow> '''' | Some v \<Rightarrow> v)"

definition DefaultQuery :: "http_request \<Rightarrow> string \<Rightarrow> string \<Rightarrow> string" where
  "DefaultQuery rq key default' = (case hq_query rq key of None \<Rightarrow> default' | Some v \<Rightarrow> v)"

text \<open>A use case, then \<open>respondError\<close> or the answer.\<close>

definition run_use_case :: "deps \<Rightarrow> http_request \<Rightarrow> 'a dbm \<Rightarrow> ('a \<Rightarrow> http_response) \<Rightarrow> act" where
  "run_use_case d rq m answer w =
     (case m w of
        (Inl err, w') \<Rightarrow> (respondError (dp_text d) (hq_path rq) err, w')
      | (Inr x, w') \<Rightarrow> (answer x, w'))"

text \<open>\<open>c.ShouldBindJSON\<close>, with the detail a failure gets.\<close>

definition bind_json :: "http_request \<Rightarrow> (string \<Rightarrow> string) \<Rightarrow> string + 'r \<Rightarrow> ('r \<Rightarrow> act) \<Rightarrow> act" where
  "bind_json rq detail bound k =
     (case bound of
        Inl err \<Rightarrow> reply (http_problem (hq_path rq) 400 ''INVALID_REQUEST'' (detail err))
      | Inr req \<Rightarrow> k req)"

definition json_response :: "int \<Rightarrow> (string \<times> string) list \<Rightarrow> json \<Rightarrow> http_response" where
  "json_response status headers body = \<lparr>hr_status = status, hr_headers = headers, hr_body = body\<rparr>"

definition ownedMerchantID :: "http_request \<Rightarrow> principal \<Rightarrow> string \<Rightarrow> (string \<Rightarrow> act) \<Rightarrow> act" where
  "ownedMerchantID rq p urlID k =
     (if pr_MerchantID p \<noteq> '''' \<and> pr_MerchantID p \<noteq> urlID
      then reply (http_problem (hq_path rq) 403 ''FORBIDDEN'' ''voce nao pode acessar outro estabelecimento'')
      else k urlID)"

definition requireMerchant :: "http_request \<Rightarrow> principal \<Rightarrow> (string \<Rightarrow> act) \<Rightarrow> act" where
  "requireMerchant rq p k =
     (if pr_MerchantID p = ''''
      then reply (http_problem (hq_path rq) 403 ''FORBIDDEN'' ''esta operacao exige credencial de estabelecimento'')
      else k (pr_MerchantID p))"

subsection \<open>Merchants\<close>

definition merchant_answer :: "merchant \<Rightarrow> http_response" where
  "merchant_answer m = json_response 200 [] (JMerchant (toMerchantResponse m))"

definition MerchantHandler_Create :: "deps \<Rightarrow> http_request \<Rightarrow> string + create_merchant_request \<Rightarrow> act" where
  "MerchantHandler_Create d rq bound =
     bind_json rq id bound (\<lambda>req.
     run_use_case d rq
       (Onboard_Execute (dp_url_parse d) (hq_now rq)
         \<lparr>oc_Document = cm_Document req, oc_LegalName = cm_LegalName req, oc_MCC = cm_MCC req, oc_BankCode = cm_BankCode req,
          oc_Branch = cm_BankBranch req, oc_AccountNumber = cm_BankNumber req, oc_AccountKind = cm_BankKind req,
          oc_DebitBps = cm_DebitBps req, oc_CreditBps = cm_CreditBps req, oc_CreditInstallmentBps = cm_CreditInstallmentBps req,
          oc_AnticipationBpsMonth = cm_AnticipationBpsMonth req, oc_WebhookURL = cm_WebhookURL req\<rparr>)
       (\<lambda>m. json_response 201 [(''Location'', ''/v1/merchants/'' @ m_id m)] (JMerchant (toMerchantResponse m))))"

definition MerchantHandler_Get :: "deps \<Rightarrow> principal \<Rightarrow> http_request \<Rightarrow> act" where
  "MerchantHandler_Get d p rq =
     ownedMerchantID rq p (hq_id rq) (\<lambda>i. run_use_case d rq (merchants_FindByID i) merchant_answer)"

definition MerchantHandler_Approve :: "deps \<Rightarrow> http_request \<Rightarrow> act" where
  "MerchantHandler_Approve d rq = run_use_case d rq (Review_Approve (hq_now rq) (hq_id rq)) merchant_answer"

definition MerchantHandler_Block :: "deps \<Rightarrow> http_request \<Rightarrow> act" where
  "MerchantHandler_Block d rq = run_use_case d rq (Review_Block (hq_now rq) (hq_id rq)) merchant_answer"

definition MerchantHandler_UpdateSettings ::
  "deps \<Rightarrow> principal \<Rightarrow> http_request \<Rightarrow> string + update_merchant_settings_request \<Rightarrow> act" where
  "MerchantHandler_UpdateSettings d p rq bound =
     ownedMerchantID rq p (hq_id rq) (\<lambda>i.
     bind_json rq id bound (\<lambda>req.
     run_use_case d rq
       (Review_UpdateSettings (dp_url_parse d) (hq_now rq)
         \<lparr>us_MerchantID = i, us_WebhookURL = um_WebhookURL req, us_AutoAnticipation = um_AutoAnticipation req\<rparr>)
       merchant_answer))"

subsection \<open>Transactions\<close>

definition TransactionHandler_Tokenize :: "deps \<Rightarrow> http_request \<Rightarrow> string + tokenize_card_request \<Rightarrow> act" where
  "TransactionHandler_Tokenize d rq bound =
     bind_json rq (\<lambda>_. ''cartao invalido'') bound (\<lambda>req.
     run_use_case d rq (lift_result (dp_tokenize d (tq_PAN req) (tq_Expiry req)))
       (\<lambda>card. json_response 201 []
         (JCardToken \<lparr>ct_Token = tk_Token card, ct_Brand = tk_Brand card, ct_BIN = tk_BIN card, ct_Last4 = tk_Last4 card\<rparr>)))"

definition TransactionHandler_Authorize :: "deps \<Rightarrow> principal \<Rightarrow> http_request \<Rightarrow> string + authorize_request \<Rightarrow> act" where
  "TransactionHandler_Authorize d p rq bound =
     requireMerchant rq p (\<lambda>merchantID.
     bind_json rq id bound (\<lambda>req.
     run_use_case d rq
       (Authorize_Execute (dp_vault d) (dp_issuer d) (dp_rules d) (hq_now rq) (hq_now2 rq)
         \<lparr>auc_MerchantID = merchantID, auc_Amount = aq_Amount req, auc_Product = aq_Product req,
          auc_Installments = aq_Installments req, auc_CardToken = aq_CardToken req\<rparr>)
       (\<lambda>tx. json_response 201 [(''Location'', ''/v1/transactions/'' @ tx_id tx)] (JTransaction (toTransactionResponse tx)))))"

definition transaction_answer :: "transaction \<Rightarrow> http_response" where
  "transaction_answer tx = json_response 200 [] (JTransaction (toTransactionResponse tx))"

definition TransactionHandler_Get :: "deps \<Rightarrow> principal \<Rightarrow> http_request \<Rightarrow> act" where
  "TransactionHandler_Get d p rq =
     requireMerchant rq p (\<lambda>merchantID. run_use_case d rq (Get_Execute merchantID (hq_id rq)) transaction_answer)"

definition TransactionHandler_change ::
  "deps \<Rightarrow> principal \<Rightarrow> http_request \<Rightarrow> (string \<Rightarrow> string \<Rightarrow> transaction dbm) \<Rightarrow> act" where
  "TransactionHandler_change d p rq fn =
     requireMerchant rq p (\<lambda>merchantID. run_use_case d rq (fn merchantID (hq_id rq)) transaction_answer)"

definition TransactionHandler_Capture :: "deps \<Rightarrow> principal \<Rightarrow> http_request \<Rightarrow> act" where
  "TransactionHandler_Capture d p rq = TransactionHandler_change d p rq (Lifecycle_Capture (hq_now rq))"

definition TransactionHandler_Cancel :: "deps \<Rightarrow> principal \<Rightarrow> http_request \<Rightarrow> act" where
  "TransactionHandler_Cancel d p rq = TransactionHandler_change d p rq (Lifecycle_Cancel (hq_now rq))"

subsection \<open>Receivables, anticipations, chargebacks\<close>

definition ReceivableHandler_List :: "deps \<Rightarrow> principal \<Rightarrow> http_request \<Rightarrow> act" where
  "ReceivableHandler_List d p rq =
     requireMerchant rq p (\<lambda>merchantID.
     case parseDate (Query rq ''from'') of
       Inl _ \<Rightarrow> reply (http_problem (hq_path rq) 400 ''INVALID_DATE'' ''from deve ser YYYY-MM-DD'')
     | Inr from_date \<Rightarrow>
         (case parseDate (Query rq ''to'') of
            Inl _ \<Rightarrow> reply (http_problem (hq_path rq) 400 ''INVALID_DATE'' ''to deve ser YYYY-MM-DD'')
          | Inr to_date \<Rightarrow>
              run_use_case d rq
                (Query_List merchantID \<lparr>f_Status = Query rq ''status'', f_From = from_date, f_To = to_date,
                   f_Limit = Atoi (DefaultQuery rq ''limit'' ''100'')\<rparr>)
                (\<lambda>rs. json_response 200 [] (JReceivables (toReceivableResponses rs)))))"

definition ReceivableHandler_Summary :: "deps \<Rightarrow> principal \<Rightarrow> http_request \<Rightarrow> act" where
  "ReceivableHandler_Summary d p rq =
     requireMerchant rq p (\<lambda>merchantID.
     case (parseDate (DefaultQuery rq ''from'' (format_date (hq_now rq))),
           parseDate (DefaultQuery rq ''to'' (format_date (AddDate (hq_now2 rq) 0 3 0)))) of
       (Inr from_date, Inr to_date) \<Rightarrow>
         run_use_case d rq (Query_Summary merchantID from_date to_date)
           (\<lambda>ss. json_response 200 [] (JSummary (toSummaryResponses ss)))
     | _ \<Rightarrow> reply (http_problem (hq_path rq) 400 ''INVALID_DATE'' ''from/to devem ser YYYY-MM-DD''))"

definition ReceivableHandler_ListSettlements :: "deps \<Rightarrow> principal \<Rightarrow> http_request \<Rightarrow> act" where
  "ReceivableHandler_ListSettlements d p rq =
     requireMerchant rq p (\<lambda>merchantID.
     run_use_case d rq (settlements_ListByMerchant merchantID 100)
       (\<lambda>ss. json_response 200 [] (JSettlements (toSettlementResponses ss))))"

definition AnticipationHandler_Simulate :: "deps \<Rightarrow> principal \<Rightarrow> http_request \<Rightarrow> string + anticipation_request \<Rightarrow> act" where
  "AnticipationHandler_Simulate d p rq bound =
     requireMerchant rq p (\<lambda>merchantID.
     bind_json rq id bound (\<lambda>req.
     run_use_case d rq (Anticipate_Simulate (dp_pricer d) (hq_now rq) merchantID (nq_ReceivableIDs req))
       (\<lambda>a. json_response 200 [] (JAnticipation (toAnticipationResponse a)))))"

definition AnticipationHandler_Create :: "deps \<Rightarrow> principal \<Rightarrow> http_request \<Rightarrow> string + anticipation_request \<Rightarrow> act" where
  "AnticipationHandler_Create d p rq bound =
     requireMerchant rq p (\<lambda>merchantID.
     bind_json rq id bound (\<lambda>req.
     run_use_case d rq
       (Anticipate_Request (dp_check_liens d) (dp_transfer d) (dp_pricer d) (hq_now rq) merchantID (nq_ReceivableIDs req))
       (\<lambda>a. json_response 201 [(''Location'', ''/v1/anticipations/'' @ ant_id a)] (JAnticipation (toAnticipationResponse a)))))"

definition AnticipationHandler_Get :: "deps \<Rightarrow> principal \<Rightarrow> http_request \<Rightarrow> act" where
  "AnticipationHandler_Get d p rq =
     requireMerchant rq p (\<lambda>merchantID.
     run_use_case d rq (Anticipate_Get merchantID (hq_id rq))
       (\<lambda>a. json_response 200 [] (JAnticipation (toAnticipationResponse a))))"

definition ChargebackHandler_Open :: "deps \<Rightarrow> http_request \<Rightarrow> string + open_chargeback_request \<Rightarrow> act" where
  "ChargebackHandler_Open d rq bound =
     bind_json rq id bound (\<lambda>req.
     run_use_case d rq
       (Open_Execute (hq_now rq) \<lparr>opc_MerchantID = bq_MerchantID req, opc_TransactionID = bq_TransactionID req,
          opc_ReasonCode = bq_ReasonCode req, opc_Amount = bq_Amount req\<rparr>)
       (\<lambda>cb. json_response 201 [] (JChargeback (toChargebackResponse cb))))"

section \<open>Routes\<close>

text \<open>The routes under authentication, each with its bound body.\<close>

datatype endpoint =
    POST_merchants "string + create_merchant_request"
  | GET_merchant
  | PATCH_settings "string + update_merchant_settings_request"
  | POST_approve
  | POST_block
  | POST_card_tokens "string + tokenize_card_request"
  | POST_transactions "string + authorize_request"
  | POST_capture
  | POST_cancel
  | GET_transaction
  | GET_receivables
  | GET_summary
  | GET_settlements
  | POST_simulate "string + anticipation_request"
  | POST_anticipations "string + anticipation_request"
  | GET_anticipation
  | POST_chargebacks "string + open_chargeback_request"

fun scope_of :: "endpoint \<Rightarrow> string" where
  "scope_of (POST_merchants _) = ''merchants:write''"
| "scope_of GET_merchant = ''merchants:read''"
| "scope_of (PATCH_settings _) = ''merchants:write''"
| "scope_of POST_approve = ''merchants:approve''"
| "scope_of POST_block = ''merchants:approve''"
| "scope_of (POST_card_tokens _) = ''transactions:write''"
| "scope_of (POST_transactions _) = ''transactions:write''"
| "scope_of POST_capture = ''transactions:write''"
| "scope_of POST_cancel = ''transactions:write''"
| "scope_of GET_transaction = ''transactions:read''"
| "scope_of GET_receivables = ''receivables:read''"
| "scope_of GET_summary = ''receivables:read''"
| "scope_of GET_settlements = ''receivables:read''"
| "scope_of (POST_simulate _) = ''anticipations:write''"
| "scope_of (POST_anticipations _) = ''anticipations:write''"
| "scope_of GET_anticipation = ''anticipations:write''"
| "scope_of (POST_chargebacks _) = ''chargebacks:write''"

fun handle_endpoint :: "deps \<Rightarrow> principal \<Rightarrow> http_request \<Rightarrow> endpoint \<Rightarrow> act" where
  "handle_endpoint d p rq (POST_merchants b) = MerchantHandler_Create d rq b"
| "handle_endpoint d p rq GET_merchant = MerchantHandler_Get d p rq"
| "handle_endpoint d p rq (PATCH_settings b) = MerchantHandler_UpdateSettings d p rq b"
| "handle_endpoint d p rq POST_approve = MerchantHandler_Approve d rq"
| "handle_endpoint d p rq POST_block = MerchantHandler_Block d rq"
| "handle_endpoint d p rq (POST_card_tokens b) = TransactionHandler_Tokenize d rq b"
| "handle_endpoint d p rq (POST_transactions b) = TransactionHandler_Authorize d p rq b"
| "handle_endpoint d p rq POST_capture = TransactionHandler_Capture d p rq"
| "handle_endpoint d p rq POST_cancel = TransactionHandler_Cancel d p rq"
| "handle_endpoint d p rq GET_transaction = TransactionHandler_Get d p rq"
| "handle_endpoint d p rq GET_receivables = ReceivableHandler_List d p rq"
| "handle_endpoint d p rq GET_summary = ReceivableHandler_Summary d p rq"
| "handle_endpoint d p rq GET_settlements = ReceivableHandler_ListSettlements d p rq"
| "handle_endpoint d p rq (POST_simulate b) = AnticipationHandler_Simulate d p rq b"
| "handle_endpoint d p rq (POST_anticipations b) = AnticipationHandler_Create d p rq b"
| "handle_endpoint d p rq GET_anticipation = AnticipationHandler_Get d p rq"
| "handle_endpoint d p rq (POST_chargebacks b) = ChargebackHandler_Open d rq b"

text \<open>The chain in front of every handler. Theory \<open>Router\<close> puts the routes, the
  other middleware and, on four routes, that of \<open>Idempotency\<close> around it.\<close>

definition serve :: "deps \<Rightarrow> endpoint \<Rightarrow> http_request \<Rightarrow> act" where
  "serve d e rq =
     (case Authenticate (dp_verify d) (hq_path rq) (hq_auth rq) of
        Inl rp \<Rightarrow> reply rp
      | Inr p \<Rightarrow>
          (case Authorize_scope (hq_path rq) (scope_of e) p of
             Some rp \<Rightarrow> reply rp
           | None \<Rightarrow> handle_endpoint d p rq e))"

end
