(* ===== verification/Api_Guarantees.thy ===== *)
theory Api_Guarantees
  imports Api Outcomes
begin

text \<open>
  What the API promises as a whole, over every route: nothing happens without a token of the
  right scope, an error answer has changed nothing, a merchant's answers depend on its own
  data only, every error of the program has one answer, and a date in an answer is accepted
  as a parameter.
\<close>

section \<open>Access and errors\<close>

definition safe_act :: "act \<Rightarrow> bool" where
  "safe_act a \<longleftrightarrow> (\<forall>w rp w'. a w = (rp, w') \<longrightarrow> 400 \<le> hr_status rp \<longrightarrow> w_db w' = w_db w)"

text \<open>What every run of an act does to the state, for a relation that the empty change has.\<close>

definition acts :: "(world \<Rightarrow> world \<Rightarrow> bool) \<Rightarrow> act \<Rightarrow> bool" where
  "acts R a \<longleftrightarrow> (\<forall>w. R w (snd (a w)))"

lemma actsD: "acts R a \<Longrightarrow> a w = (rp, w') \<Longrightarrow> R w w'"
  unfolding acts_def by (metis snd_conv)

lemma acts_reply: "(\<And>w. R w w) \<Longrightarrow> acts R (reply rp)"
  by (simp add: acts_def reply_def)

lemma acts_run: "runs R m \<Longrightarrow> acts R (run_use_case d rq m ans)"
  unfolding acts_def run_use_case_def runs_def by (auto split: prod.split sum.split) (metis snd_conv)+

lemma acts_chain:
  assumes "\<And>w. R w w"
  shows "(\<And>req. acts R (k req)) \<Longrightarrow> acts R (bind_json rq detail bound k)"
    and "(\<And>i. acts R (f i)) \<Longrightarrow> acts R (ownedMerchantID rq p i f)"
    and "(\<And>i. acts R (f i)) \<Longrightarrow> acts R (requireMerchant rq p f)"
  using acts_reply [of R, OF assms] by (simp_all add: bind_json_def ownedMerchantID_def requireMerchant_def split: sum.split)

lemma safe_reply: "safe_act (reply rp)"
  by (simp add: safe_act_def reply_def)

lemma safe_run: "clean m \<Longrightarrow> (\<And>x. hr_status (answer x) < 400) \<Longrightarrow> safe_act (run_use_case d rq m answer)"
  unfolding safe_act_def
proof (intro allI impI)
  fix w rp w' assume m: "clean m" and answer: "\<And>x. hr_status (answer x) < 400"
    and run: "run_use_case d rq m answer w = (rp, w')" and st: "400 \<le> hr_status rp"
  obtain r w1 where 1: "m w = (r, w1)" by fastforce
  show "w_db w' = w_db w"
  proof (cases r)
    case (Inl e)
    then show ?thesis using m run 1 by (auto simp: run_use_case_def clean_def)
  next
    case (Inr x)
    then show ?thesis using answer [of x] run st 1 by (simp add: run_use_case_def)
  qed
qed

lemma safe_bind: "(\<And>req. safe_act (k req)) \<Longrightarrow> safe_act (bind_json rq detail bound k)"
  by (simp add: bind_json_def safe_reply split: sum.split)

lemma safe_owned: "(\<And>i. safe_act (k i)) \<Longrightarrow> safe_act (ownedMerchantID rq p i k)"
  by (simp add: ownedMerchantID_def safe_reply)

lemma safe_require: "(\<And>i. safe_act (k i)) \<Longrightarrow> safe_act (requireMerchant rq p k)"
  by (simp add: requireMerchant_def safe_reply)

lemma answers_below_400:
  "hr_status (json_response 200 hs b) < 400" "hr_status (json_response 201 hs b) < 400"
  "hr_status (merchant_answer m) < 400" "hr_status (transaction_answer t) < 400"
  by (simp_all add: json_response_def merchant_answer_def transaction_answer_def)

lemma clean_cases:
  "clean (Onboard_Execute parse now oc)" "clean (Review_change change i)"
  "clean (Authorize_Execute vault issuer rules now now' ac)" "clean (Lifecycle_change change' mid i)"
  "clean (Anticipate_Simulate pv now mid ids)" "clean (Anticipate_Request check_liens transfer pv now mid ids)"
  "clean (Open_Execute now opc)"
  by (simp_all add: clean_use_cases)

lemma clean_reads:
  "clean (merchants_FindByID i)" "clean (Get_Execute mid i)" "clean (Query_List mid f)" "clean (Query_Summary mid lo hi)"
  "clean (settlements_ListByMerchant mid n)" "clean (Anticipate_Get mid i)" "clean (lift_result r)"
  unfolding Get_Execute_def Query_List_def Query_Summary_def settlements_ListByMerchant_def settlements_list_def Anticipate_Get_def
  by (intro clean_still frame)+

lemma safe_endpoint: "safe_act (handle_endpoint d p rq e)"
proof (cases e)
  case GET_receivables
  then show ?thesis unfolding handle_endpoint.simps GET_receivables ReceivableHandler_List_def
    by (intro safe_require) (auto intro!: safe_reply safe_run clean_reads answers_below_400 split: sum.split)
next
  case GET_summary
  then show ?thesis unfolding handle_endpoint.simps GET_summary ReceivableHandler_Summary_def
    by (intro safe_require) (auto intro!: safe_reply safe_run clean_reads answers_below_400 split: sum.split)
qed (simp_all only: handle_endpoint.simps MerchantHandler_Create_def MerchantHandler_Get_def MerchantHandler_Approve_def
    MerchantHandler_Block_def MerchantHandler_UpdateSettings_def TransactionHandler_Tokenize_def TransactionHandler_Authorize_def
    TransactionHandler_Get_def TransactionHandler_change_def TransactionHandler_Capture_def TransactionHandler_Cancel_def
    ReceivableHandler_ListSettlements_def AnticipationHandler_Simulate_def AnticipationHandler_Create_def
    AnticipationHandler_Get_def ChargebackHandler_Open_def Review_Approve_def Review_Block_def Review_UpdateSettings_def
    Lifecycle_Capture_def Lifecycle_Cancel_def,
    (intro safe_bind safe_owned safe_require safe_run clean_cases clean_reads answers_below_400)+)

text \<open>For every route: an answer of 400 or above has left the database as it was, so a request that
  failed can be sent again; and a request changes anything at all only with a bearer token
  that verifies and whose scopes include the route's.\<close>

theorem api_guarded:
  assumes "serve d e rq w = (rp, w')"
  shows "(400 \<le> hr_status rp \<longrightarrow> w_db w' = w_db w)
    \<and> (w' \<noteq> w \<longrightarrow> (\<exists>c. dp_verify d (drop 7 (hq_auth rq)) = Some c \<and> has_prefix (hq_auth rq) ''Bearer ''
          \<and> scope_of e \<in> set (Fields (cl_Scope c) [])))"
proof (cases "Authenticate (dp_verify d) (hq_path rq) (hq_auth rq)")
  case (Inl rp')
  then show ?thesis using assms by (simp add: serve_def reply_def)
next
  case (Inr p)
  then obtain c where c: "dp_verify d (drop 7 (hq_auth rq)) = Some c" "has_prefix (hq_auth rq) ''Bearer ''"
    "pr_Scopes p = Fields (cl_Scope c) []"
    by (auto simp: Authenticate_def TrimPrefix_def Let_def numeral_eq_Suc split: if_splits option.splits)
  show ?thesis
  proof (cases "Has p (scope_of e)")
    case False
    then show ?thesis using assms Inr by (simp add: serve_def Authorize_scope_def reply_def)
  next
    case True
    then have "handle_endpoint d p rq e w = (rp, w')" using assms Inr by (simp add: serve_def Authorize_scope_def)
    then show ?thesis using safe_endpoint [of d p rq e] c True unfolding safe_act_def Has_def by auto
  qed
qed

text \<open>A merchant with a token of its own asks for a sale of another.\<close>

definition sample_deps :: deps where
  "sample_deps = \<lparr>dp_text = (\<lambda>_. ''not found''),
     dp_verify = (\<lambda>raw. if raw = ''t'' then Some \<lparr>cl_Subject = ''app'', cl_MerchantID = ''m_2'', cl_Scope = ''transactions:read''\<rparr> else None),
     dp_url_parse = (\<lambda>_. None), dp_vault = (\<lambda>_. Inl (Sentinel ErrNotFound)), dp_tokenize = (\<lambda>_ _. Inl (Sentinel ErrInvalidPAN)),
     dp_issuer = (\<lambda>_. Inl (Sentinel ErrIssuerUnavailable)), dp_rules = [], dp_pricer = (\<lambda>net _ _. net),
     dp_check_liens = (\<lambda>_ _. Inr []), dp_transfer = (\<lambda>_ _. True)\<rparr>"

definition sample_request :: http_request where
  "sample_request = \<lparr>hq_path = ''/v1/transactions/x'', hq_id = NewID ''7'' ''tx'', hq_auth = ''Bearer t'', hq_query = (\<lambda>_. None),
     hq_now = 8, hq_now2 = 8\<rparr>"

lemma sample_answer:
  assumes "w_faults w = (\<lambda>_. None)" "filter (\<lambda>t. tx_merchantID t = ''m_2'') (t_transactions (w_db w)) = []"
  shows "serve sample_deps GET_transaction sample_request w
    = (http_problem ''/v1/transactions/x'' 404 ''NOT_FOUND'' ''not found'', w\<lparr>w_stmts := w_stmts w + 1\<rparr>)"
proof -
  have auth: "Authenticate (dp_verify sample_deps) (hq_path sample_request) (hq_auth sample_request)
      = Inr \<lparr>pr_ClientID = ''app'', pr_MerchantID = ''m_2'', pr_Scopes = [''transactions:read'']\<rparr>"
  proof -
    have "TrimPrefix ''Bearer t'' ''Bearer '' = ''t''" "Fields ''transactions:read'' [] = [''transactions:read'']" by code_simp+
    then show ?thesis by (simp add: Authenticate_def sample_deps_def sample_request_def)
  qed
  have none: "transactions_find ''m_2'' i (w_db w) = None" for i
    using assms(2) by (auto simp: transactions_find_def find_None_iff filter_empty_conv)
  have "Get_Execute ''m_2'' i w = (Inl (Sentinel ErrNotFound), w\<lparr>w_stmts := w_stmts w + 1\<rparr>)" for i
    by (simp add: Get_Execute_def transactions_FindByID_def none assms(1) mbind_def wrap_def query_def stmt_def)
  then show ?thesis
    by (simp add: serve_def auth Authorize_scope_def Has_def TransactionHandler_Get_def requireMerchant_def run_use_case_def
        respondError_def errorMap_def) (simp add: sample_deps_def sample_request_def)
qed

lemma sample_sale_of_m1: "tx_merchantID sample_captured = ''m_1''"
  by (simp add: sample_captured_def tx_Restore_def)

theorem api_guarded_witness:
  "case serve sample_deps GET_transaction sample_request sample_world of (rp, w') \<Rightarrow>
     hr_status rp = 404 \<and> w' \<noteq> sample_world \<and> w_db w' = w_db sample_world
     \<and> (\<exists>c. dp_verify sample_deps ''t'' = Some c \<and> ''transactions:read'' \<in> set (Fields (cl_Scope c) []))"
proof -
  have run: "serve sample_deps GET_transaction sample_request sample_world
      = (http_problem ''/v1/transactions/x'' 404 ''NOT_FOUND'' ''not found'', sample_world\<lparr>w_stmts := w_stmts sample_world + 1\<rparr>)"
    by (rule sample_answer) (simp_all add: sample_world_def sample_tables_def sample_sale_of_m1)
  have moved: "sample_world\<lparr>w_stmts := w_stmts sample_world + 1\<rparr> \<noteq> sample_world"
    by (metis n_not_Suc_n Suc_eq_plus1 world.select_convs(4) world.surjective world.update_convs(4))
  have token: "drop 7 (hq_auth sample_request) = ''t''" by (simp add: sample_request_def numeral_eq_Suc)
  show ?thesis
    using api_guarded [OF run] moved unfolding run token by (auto simp: http_problem_def)
qed

section \<open>One answer per error\<close>

lemma errors_Is_unique: "errors_Is e s \<Longrightarrow> errors_Is e t \<Longrightarrow> s = t"
  by (induction e s rule: errors_Is.induct) auto

lemma respond_loop_found:
  "distinct (map fst rows) \<Longrightarrow> (s, status, code) \<in> set rows \<Longrightarrow> errors_Is err s \<Longrightarrow>
     respond_loop text path err rows = http_problem path status code (text err)"
  by (induction rows) (use errors_Is_unique in \<open>force+\<close>)

lemma respond_loop_none:
  "\<not> (\<exists>s \<in> fst ` set rows. errors_Is err s) \<Longrightarrow>
     respond_loop text path err rows = http_problem path 500 ''INTERNAL_ERROR'' ''erro interno do servidor''"
  by (induction rows) auto


section \<open>A merchant's answers depend on its own data\<close>

text \<open>Two worlds a merchant cannot tell apart.\<close>

definition same_view :: "string \<Rightarrow> world \<Rightarrow> world \<Rightarrow> bool" where
  "same_view mid w1 w2 \<longleftrightarrow> w_faults w1 = w_faults w2 \<and> w_stmts w1 = w_stmts w2 \<and> w_uuids w1 = w_uuids w2 \<and> w_draws w1 = w_draws w2
     \<and> filter (\<lambda>m. m_id m = mid) (t_merchants (w_db w1)) = filter (\<lambda>m. m_id m = mid) (t_merchants (w_db w2))
     \<and> filter (\<lambda>t. tx_merchantID t = mid) (t_transactions (w_db w1)) = filter (\<lambda>t. tx_merchantID t = mid) (t_transactions (w_db w2))
     \<and> filter (\<lambda>r. rcv_merchantID r = mid) (t_receivables (w_db w1)) = filter (\<lambda>r. rcv_merchantID r = mid) (t_receivables (w_db w2))
     \<and> filter (\<lambda>s. stl_merchantID s = mid) (t_settlements (w_db w1)) = filter (\<lambda>s. stl_merchantID s = mid) (t_settlements (w_db w2))
     \<and> filter (\<lambda>a. ant_merchantID a = mid) (t_anticipations (w_db w1)) = filter (\<lambda>a. ant_merchantID a = mid) (t_anticipations (w_db w2))"

definition own_view :: "string \<Rightarrow> 'a dbm \<Rightarrow> bool" where
  "own_view mid m \<longleftrightarrow> (\<forall>w1 w2. same_view mid w1 w2 \<longrightarrow> fst (m w1) = fst (m w2) \<and> same_view mid (snd (m w1)) (snd (m w2)))"

named_theorems view \<open>what a merchant reads of its own\<close>

lemma own_ret [view]: "own_view mid (ret x)" and own_fail [view]: "own_view mid (fail e)"
  and own_lift [view]: "own_view mid (lift_result r)" and own_fresh [view]: "own_view mid fresh"
  by (auto simp: own_view_def fresh_def same_view_def)

lemma own_mbind [view]:
  assumes m: "own_view mid m" and f: "\<And>x. own_view mid (f x)"
  shows "own_view mid (mbind m f)"
  unfolding own_view_def
proof (intro allI impI)
  fix w1 w2 assume "same_view mid w1 w2"
  then have "fst (m w1) = fst (m w2)" "same_view mid (snd (m w1)) (snd (m w2))" using m unfolding own_view_def by blast+
  then show "fst (mbind m f w1) = fst (mbind m f w2) \<and> same_view mid (snd (mbind m f w1)) (snd (mbind m f w2))"
    using f unfolding own_view_def mbind_def by (cases "m w1"; cases "m w2") (auto split: sum.split)
qed

lemma own_wrap [view]: "own_view mid m \<Longrightarrow> own_view mid (wrap args m)"
  unfolding own_view_def
proof (intro allI impI)
  fix w1 w2 assume m: "\<forall>w1 w2. same_view mid w1 w2 \<longrightarrow> fst (m w1) = fst (m w2) \<and> same_view mid (snd (m w1)) (snd (m w2))"
    and same: "same_view mid w1 w2"
  have "fst (m w1) = fst (m w2)" "same_view mid (snd (m w1)) (snd (m w2))" using m same by blast+
  then show "fst (wrap args m w1) = fst (wrap args m w2) \<and> same_view mid (snd (wrap args m w1)) (snd (wrap args m w2))"
    by (cases "m w1"; cases "m w2") (auto simp: wrap_def split: sum.split)
qed

lemma own_stmt:
  assumes "\<And>w1 w2. same_view mid w1 w2 \<Longrightarrow> fst (m w1) = fst (m w2) \<and> same_view mid (snd (m w1)) (snd (m w2))"
  shows "own_view mid (stmt m)"
  unfolding own_view_def
proof (intro allI impI)
  fix w1 w2 assume same: "same_view mid w1 w2"
  then have next': "same_view mid (w1\<lparr>w_stmts := w_stmts w1 + 1\<rparr>) (w2\<lparr>w_stmts := w_stmts w2 + 1\<rparr>)" by (simp add: same_view_def)
  have "w_faults w1 (w_stmts w1) = w_faults w2 (w_stmts w2)" using same by (simp add: same_view_def)
  then show "fst (stmt m w1) = fst (stmt m w2) \<and> same_view mid (snd (stmt m w1)) (snd (stmt m w2))"
    using assms [OF next'] next' by (auto simp: stmt_def split: option.split)
qed

lemma own_query: "(\<And>w1 w2. same_view mid w1 w2 \<Longrightarrow> q (w_db w1) = q (w_db w2)) \<Longrightarrow> own_view mid (query q)"
  unfolding query_def by (rule own_stmt) simp

lemma own_if [view]: "(b \<Longrightarrow> own_view mid m) \<Longrightarrow> (\<not> b \<Longrightarrow> own_view mid n) \<Longrightarrow> own_view mid (if b then m else n)"
  and own_option [view]: "own_view mid m0 \<Longrightarrow> (\<And>x. own_view mid (f x)) \<Longrightarrow> own_view mid (case v of None \<Rightarrow> m0 | Some x \<Rightarrow> f x)"
  and own_list [view]: "own_view mid m0 \<Longrightarrow> (\<And>x xs. own_view mid (g x xs)) \<Longrightarrow> own_view mid (case l of [] \<Rightarrow> m0 | x # xs \<Rightarrow> g x xs)"
  by (simp_all split: option.split list.split)

text \<open>A query that filters by the merchant reads nothing else.\<close>

lemma filter_own: "(\<And>x. P x \<Longrightarrow> Q x) \<Longrightarrow> filter P xs = filter P (filter Q xs)"
  unfolding filter_filter by (rule filter_cong) auto

lemma find_own: "(\<And>x. P x \<Longrightarrow> Q x) \<Longrightarrow> find P xs = find P (filter Q xs)"
  by (induction xs) auto

lemma own_reads [view]:
  "own_view mid (merchants_FindByID mid)" "own_view mid (transactions_FindByID mid i)"
  "own_view mid (receivables_ListByMerchant mid f)" "own_view mid (receivables_FindByIDs mid ids)"
  "own_view mid (receivables_Summary mid lo hi)" "own_view mid (settlements_ListByMerchant mid n)"
  "own_view mid (anticipations_FindByID mid i)"
proof -
  have rcv: "own_view mid (receivables_list (\<lambda>rows. h (filter P rows)))" if "\<And>r. P r \<Longrightarrow> rcv_merchantID r = mid" for h P
  proof -
    have "own_view mid (query (\<lambda>d. h (filter P (t_receivables d))))"
      by (rule own_query) (simp add: same_view_def filter_own [of P "\<lambda>r. rcv_merchantID r = mid", OF that])
    then show ?thesis unfolding receivables_list_def by (intro view)
  qed
  have ant: "own_view mid (anticipations_list (filter P))" if "\<And>a. P a \<Longrightarrow> ant_merchantID a = mid" for P
  proof -
    have "own_view mid (query (\<lambda>d. filter P (t_anticipations d)))"
      by (rule own_query) (simp add: same_view_def filter_own [of P "\<lambda>a. ant_merchantID a = mid", OF that])
    then show ?thesis unfolding anticipations_list_def by (intro view)
  qed
  have "own_view mid (query (\<lambda>t. find (\<lambda>m. m_id m = mid) (t_merchants t)))"
    by (rule own_query) (subst (1 2) find_own [where Q = "\<lambda>m. m_id m = mid"], auto simp: same_view_def)
  then show "own_view mid (merchants_FindByID mid)" unfolding merchants_FindByID_def by (intro view)
  have "own_view mid (query (transactions_find mid i))"
    unfolding transactions_find_def
    by (rule own_query) (subst (1 2) find_own [where Q = "\<lambda>t. tx_merchantID t = mid"], auto simp: same_view_def)
  then show "own_view mid (transactions_FindByID mid i)" unfolding transactions_FindByID_def by (intro view)
  show "own_view mid (receivables_ListByMerchant mid f)" unfolding receivables_ListByMerchant_def by (rule rcv) simp
  show "own_view mid (receivables_FindByIDs mid ids)" unfolding receivables_FindByIDs_def by (rule rcv) simp
  have sel: "filter (\<lambda>r. rcv_merchantID r = mid \<and> P r) (t_receivables (w_db w1)) = filter (\<lambda>r. rcv_merchantID r = mid \<and> P r) (t_receivables (w_db w2))"
    if "same_view mid w1 w2" for w1 w2 P
  proof -
    have "filter (\<lambda>r. rcv_merchantID r = mid) (t_receivables (w_db w1)) = filter (\<lambda>r. rcv_merchantID r = mid) (t_receivables (w_db w2))"
      using that by (simp add: same_view_def)
    from arg_cong [OF this, of "filter P"] show ?thesis by (simp add: filter_filter)
  qed
  show "own_view mid (receivables_Summary mid lo hi)"
    unfolding receivables_Summary_def by (intro view own_query) (simp only: sel)
  have "own_view mid (query (\<lambda>d. take (nat n) (sort_key (\<lambda>s. - stl_date s) (filter (\<lambda>s. stl_merchantID s = mid) (t_settlements d)))))"
    by (rule own_query) (simp add: same_view_def)
  then show "own_view mid (settlements_ListByMerchant mid n)"
    unfolding settlements_ListByMerchant_def settlements_list_def by (intro view)
  have "own_view mid (anticipations_list (filter (\<lambda>a. ant_id a = i \<and> ant_merchantID a = mid)))" by (rule ant) simp
  then show "own_view mid (anticipations_FindByID mid i)" unfolding anticipations_FindByID_def by (intro view)
qed

lemma own_Do [view]:
  assumes m: "own_view mid m"
  shows "own_view mid (Do m)"
  unfolding own_view_def
proof (intro allI impI)
  fix w1 w2 assume same: "same_view mid w1 w2"
  have bg: "own_view mid (wrap [] (stmt (ret ())))" by (intro view own_stmt) (simp add: own_view_def)
  obtain a1 x1 a2 x2 where a: "wrap [] (stmt (ret ())) w1 = (a1, x1)" "wrap [] (stmt (ret ())) w2 = (a2, x2)" by fastforce
  have sa: "a1 = a2" "same_view mid x1 x2" using bg same a unfolding own_view_def by (metis fst_conv snd_conv)+
  obtain b1 y1 b2 y2 where bb: "m x1 = (b1, y1)" "m x2 = (b2, y2)" by fastforce
  have sb: "b1 = b2" "same_view mid y1 y2" using m sa(2) bb unfolding own_view_def by (metis fst_conv snd_conv)+
  obtain c1 z1 c2 z2 where c: "wrap [] (stmt (ret ())) y1 = (c1, z1)" "wrap [] (stmt (ret ())) y2 = (c2, z2)" by fastforce
  have sc: "c1 = c2" "same_view mid z1 z2" using bg sb(2) c unfolding own_view_def by (metis fst_conv snd_conv)+
  have undone: "same_view mid (u1\<lparr>w_db := w_db x1\<rparr>) (u2\<lparr>w_db := w_db x2\<rparr>)" if "same_view mid u1 u2" for u1 u2
    using that sa(2) by (simp add: same_view_def)
  show "fst (Do m w1) = fst (Do m w2) \<and> same_view mid (snd (Do m w1)) (snd (Do m w2))"
    using sa sb sc undone [OF sb(2)] undone [OF sc(2)] by (simp add: Do_def a bb c split: sum.split)
qed

definition reads_only :: "endpoint \<Rightarrow> bool" where
  "reads_only e = (case e of GET_merchant \<Rightarrow> True | GET_transaction \<Rightarrow> True | GET_receivables \<Rightarrow> True | GET_summary \<Rightarrow> True
     | GET_settlements \<Rightarrow> True | GET_anticipation \<Rightarrow> True | POST_simulate _ \<Rightarrow> True | _ \<Rightarrow> False)"

definition own_act :: "string \<Rightarrow> act \<Rightarrow> bool" where
  "own_act mid a \<longleftrightarrow> (\<forall>w1 w2. same_view mid w1 w2 \<longrightarrow> fst (a w1) = fst (a w2))"

lemma own_reply: "own_act mid (reply rp)"
  by (simp add: own_act_def reply_def)

lemma own_run: "own_view mid m \<Longrightarrow> own_act mid (run_use_case d rq m answer)"
  unfolding own_act_def
proof (intro allI impI)
  fix w1 w2 assume m: "own_view mid m" and same: "same_view mid w1 w2"
  have "fst (m w1) = fst (m w2)" using m same unfolding own_view_def by blast
  then show "fst (run_use_case d rq m answer w1) = fst (run_use_case d rq m answer w2)"
    by (cases "m w1"; cases "m w2") (auto simp: run_use_case_def split: sum.split)
qed

lemma own_require: "pr_MerchantID p = mid \<Longrightarrow> own_act mid (k mid) \<Longrightarrow> own_act mid (requireMerchant rq p k)"
  by (simp add: requireMerchant_def own_reply)

lemma own_endpoint:
  assumes "reads_only e" "pr_MerchantID p = mid" "mid \<noteq> ''''"
  shows "own_act mid (handle_endpoint d p rq e)"
  using assms(1)
proof (cases e)
  case GET_merchant
  then show ?thesis using assms(2,3) by (simp add: MerchantHandler_Get_def ownedMerchantID_def own_reply own_run own_reads)
next
  case GET_transaction
  have "own_view mid (Get_Execute mid (hq_id rq))" unfolding Get_Execute_def by (intro view)
  then show ?thesis unfolding GET_transaction handle_endpoint.simps TransactionHandler_Get_def
    by (intro own_require own_run assms(2))
next
  case GET_receivables
  have "own_view mid (Query_List mid f)" for f unfolding Query_List_def by (intro view)
  then show ?thesis unfolding GET_receivables handle_endpoint.simps ReceivableHandler_List_def
    by (intro own_require assms(2)) (auto intro: own_reply own_run split: sum.split)
next
  case GET_summary
  have "own_view mid (Query_Summary mid lo hi)" for lo hi unfolding Query_Summary_def by (intro view)
  then show ?thesis unfolding GET_summary handle_endpoint.simps ReceivableHandler_Summary_def
    by (intro own_require assms(2)) (auto intro: own_reply own_run split: sum.split)
next
  case GET_settlements
  then show ?thesis unfolding GET_settlements handle_endpoint.simps ReceivableHandler_ListSettlements_def
    by (intro own_require own_run assms(2) own_reads)
next
  case GET_anticipation
  have "own_view mid (Anticipate_Get mid (hq_id rq))" unfolding Anticipate_Get_def by (intro view)
  then show ?thesis unfolding GET_anticipation handle_endpoint.simps AnticipationHandler_Get_def
    by (intro own_require own_run assms(2))
next
  case (POST_simulate b)
  have "own_view mid (Anticipate_Simulate pv now mid ids)" if "m0 = mid" for pv now ids m0
    unfolding Anticipate_Simulate_def by (intro view)
  then show ?thesis unfolding POST_simulate handle_endpoint.simps AnticipationHandler_Simulate_def
    by (intro own_require assms(2)) (auto simp: bind_json_def intro: own_reply own_run split: sum.split)
qed (simp_all add: reads_only_def)

text \<open>C24: what a merchant learns by asking depends on its own data alone. Every read route (its registration, a
  sale, the receivables, their summary, the settlements, an anticipation and a simulated
  anticipation) answers a merchant's token the same, status, headers and body, in any two
  states of the program that agree on that merchant's rows: nothing tells another
  merchant's rows apart from rows that do not exist.\<close>

theorem merchant_sees_own_data:
  assumes "reads_only e" "same_view mid w1 w2" "mid \<noteq> ''''"
    and "case dp_verify d (drop 7 (hq_auth rq)) of None \<Rightarrow> True | Some c \<Rightarrow> cl_MerchantID c = mid"
  shows "fst (serve d e rq w1) = fst (serve d e rq w2)"
proof (cases "Authenticate (dp_verify d) (hq_path rq) (hq_auth rq)")
  case (Inl rp)
  then show ?thesis by (simp add: serve_def reply_def)
next
  case (Inr p)
  then have "pr_MerchantID p = mid" using assms(4)
    by (auto simp: Authenticate_def TrimPrefix_def Let_def numeral_eq_Suc split: if_splits option.splits)
  then show ?thesis
    using own_endpoint [OF assms(1) _ assms(3)] assms(2) Inr
    by (auto simp: serve_def Authorize_scope_def reply_def own_act_def)
qed

theorem merchant_sees_own_data_witness:
  "fst (serve sample_deps GET_transaction sample_request sample_world)
     = fst (serve sample_deps GET_transaction sample_request (sample_world\<lparr>w_db := sample_tables\<lparr>t_transactions := [], t_merchants := []\<rparr>\<rparr>))"
proof (rule merchant_sees_own_data)
  show "reads_only GET_transaction" by (simp add: reads_only_def)
  show "same_view ''m_2'' sample_world (sample_world\<lparr>w_db := sample_tables\<lparr>t_transactions := [], t_merchants := []\<rparr>\<rparr>)"
    by (simp add: same_view_def sample_world_def sample_tables_def sample_sale_of_m1 start_ids)
  show "''m_2'' \<noteq> ''''" by simp
  show "case dp_verify sample_deps (drop 7 (hq_auth sample_request)) of None \<Rightarrow> True | Some c \<Rightarrow> cl_MerchantID c = ''m_2''"
    by (simp add: sample_deps_def sample_request_def numeral_eq_Suc)
qed

section \<open>Dates out and in\<close>

text \<open>Every day number is the number of a date of the calendar: the day after the last of a month is
  the first of the next.\<close>

lemma div_pred: "0 < n \<Longrightarrow> (y - 1) div n = y div n - (if y mod n = 0 then 1 else 0)" for y n :: int
proof -
  assume n: "0 < n"
  define q r where "q = y div n" and "r = y mod n"
  have y: "y = n * q + r" and r: "0 \<le> r" "r < n" using n by (simp_all add: q_def r_def)
  show ?thesis
  proof (cases "r = 0")
    case True
    have "y - 1 = n * (q - 1) + (n - 1)" using y True by (simp add: algebra_simps)
    then have "(y - 1) div n = q - 1" using int_div_pos_eq [of "y - 1" n "q - 1" "n - 1"] n by simp
    then show ?thesis using True by (simp add: q_def r_def)
  next
    case False
    then have "(y - 1) div n = q" using int_div_pos_eq [of "y - 1" n q "r - 1"] y r by simp
    then show ?thesis using False by (simp add: q_def r_def)
  qed
qed

lemma first_after_month:
  assumes "1 \<le> m" "m \<le> 12"
  shows "days_from_civil y m (days_in_month y m + 1)
    = (if m = 12 then days_from_civil (y + 1) 1 1 else days_from_civil y (m + 1) 1)"
proof (cases "m = 2")
  case True
  have leap: "y mod 400 = 0 \<longrightarrow> y mod 100 = 0" "y mod 100 = 0 \<longrightarrow> y mod 4 = 0"
    using dvd_trans [of 100 400 y] dvd_trans [of 4 100 y] by (simp_all add: mod_eq_0_iff_dvd)
  have abstract: "u - v + w = (a - b + c) - (if P \<and> (\<not> Q \<or> R) then 1 else 0 :: int)"
    if "u = a - (if P then 1 else 0)" "v = b - (if Q then 1 else 0)" "w = c - (if R then 1 else 0)" "R \<longrightarrow> Q" "Q \<longrightarrow> P"
    for u v w a b c and P Q R :: bool
    using that by (cases P; cases Q; cases R) simp_all
  have "(y - 1) div 4 - (y - 1) div 100 + (y - 1) div 400
      = y div 4 - y div 100 + y div 400 - (if is_leap y then 1 else 0)"
    unfolding is_leap_def by (rule abstract) (rule div_pred leap, simp?)+
  moreover have "365 * (y - 1) + u - v + w = 365 * y + a - b + c - 365 - k" if "u - v + w = a - b + c - k" for u v w a b c k
    using that by simp
  ultimately have "year_days (y - 1) = year_days y - 365 - (if is_leap y then 1 else 0)"
    unfolding year_days_def by blast
  then show ?thesis
    by (simp add: True days_from_civil_year_days days_in_month_def month_start_def)
next
  case False
  have "m = 1 \<or> m = 3 \<or> m = 4 \<or> m = 5 \<or> m = 6 \<or> m = 7 \<or> m = 8 \<or> m = 9 \<or> m = 10 \<or> m = 11 \<or> m = 12"
    using assms False by presburger
  then show ?thesis by (auto simp: days_from_civil_def days_in_month_def month_start_def)
qed

lemma next_date: "valid_date y m d \<Longrightarrow> \<exists>y' m' d'. valid_date y' m' d' \<and> days_from_civil y' m' d' = days_from_civil y m d + 1"
proof -
  assume v: "valid_date y m d"
  have one: "valid_date y'' m'' 1" if "1 \<le> m''" "m'' \<le> 12" for y'' m''
    using that by (simp add: valid_date_def days_in_month_def)
  show ?thesis
  proof (cases "d = days_in_month y m")
    case True
    then have next': "days_from_civil y m d + 1 = (if m = 12 then days_from_civil (y + 1) 1 1 else days_from_civil y (m + 1) 1)"
      using first_after_month [of m y] v by (simp add: valid_date_def days_from_civil_add)
    show ?thesis
    proof (cases "m = 12")
      case True
      then show ?thesis using next' one [of 1 "y + 1"] by (metis (full_types) dual_order.refl one_le_numeral)
    next
      case False
      then have "valid_date y (m + 1) 1" using one [of "m + 1" y] v by (simp add: valid_date_def)
      then show ?thesis using next' False by auto
    qed
  next
    case False
    then have "valid_date y m (d + 1)" using v by (auto simp: valid_date_def)
    then show ?thesis using days_from_civil_add [of y m d 1] by metis
  qed
qed

lemma every_day: "\<exists>y m d. valid_date y m d \<and> days_from_civil y m d = z"
proof -
  have base: "valid_date (1970 - 400 * k) 1 1 \<and> days_from_civil (1970 - 400 * k) 1 1 = - 146097 * k" for k
  proof -
    have d: "(1969 - 400 * k) div 4 = 492 - 100 * k" "(1969 - 400 * k) div 100 = 19 - 4 * k" "(1969 - 400 * k) div 400 = 4 - k"
      using int_div_pos_eq [of "1969 - 400 * k" 4 "492 - 100 * k" 1] int_div_pos_eq [of "1969 - 400 * k" 100 "19 - 4 * k" 69]
        int_div_pos_eq [of "1969 - 400 * k" 400 "4 - k" 369] by simp_all
    show ?thesis by (simp add: valid_date_def days_in_month_def days_from_civil_def month_start_def Let_def d)
  qed
  have "\<exists>y m d. valid_date y m d \<and> days_from_civil y m d = - 146097 * k + int n" for k n
  proof (induction n)
    case 0
    show ?case using base [of k] by auto
  next
    case (Suc n)
    then obtain y m d where "valid_date y m d" "days_from_civil y m d = - 146097 * k + int n" by blast
    then obtain y' m' d' where "valid_date y' m' d'" "days_from_civil y' m' d' = - 146097 * k + int n + 1"
      using next_date [of y m d] by auto
    then show ?case by (intro exI [of _ y'] exI [of _ m'] exI [of _ d']) simp
  qed
  from this [of "\<bar>z\<bar>" "nat (z + 146097 * \<bar>z\<bar>)"] show ?thesis by (simp split: if_splits)
qed

lemma valid_parts: "valid_date (Year t) (Month t) (Day t)"
proof -
  obtain y m d where "valid_date y m d" "days_from_civil y m d = day_number t" using every_day by blast
  then show ?thesis using civil_from_days_days_from_civil [of y m d] by (simp add: Year_def Month_def Day_def)
qed

lemma parse_parts:
  assumes "length ys = 4" "length ms = 2" "length ds = 2" "list_all is_digit (ys @ ms @ ds)"
    "valid_date (int (undec ys)) (int (undec ms)) (int (undec ds))"
  shows "time_Parse (ys @ ''-'' @ ms @ ''-'' @ ds) = Inr (Date (int (undec ys)) (int (undec ms)) (int (undec ds)))"
proof -
  obtain a b c e where ys: "ys = [a, b, c, e]" using assms(1) by (auto simp: numeral_eq_Suc length_Suc_conv)
  obtain f g where ms: "ms = [f, g]" using assms(2) by (auto simp: numeral_eq_Suc length_Suc_conv)
  obtain h i where ds: "ds = [h, i]" using assms(3) by (auto simp: numeral_eq_Suc length_Suc_conv)
  show ?thesis using assms(4,5) by (simp add: time_Parse_def ys ms ds)
qed

text \<open>A date the API prints it also reads: the text of any day of the years 0 to 9999 parses, in the
  query parameters, as the midnight of that day.\<close>

theorem date_parameter_roundtrip:
  assumes "midnight t" "0 \<le> Year t" "Year t \<le> 9999"
  shows "parseDate (format_date t) = Inr t"
proof -
  have parts: "valid_date (Year t) (Month t) (Day t)" "Date (Year t) (Month t) (Day t) = t"
    using valid_parts [of t] Month_range [of t] Date_of_parts [of t] midnight_eq [OF assms(1)]
    by (simp_all add: Date_def)
  then have "1 \<le> Month t" "Month t \<le> 12" "1 \<le> Day t" "Day t \<le> 31"
    by (auto simp: valid_date_def days_in_month_def split: if_splits)
  then have "length (dec_pad 4 (nat (Year t))) = 4" "length (dec_pad 2 (nat (Month t))) = 2" "length (dec_pad 2 (nat (Day t))) = 2"
    using assms by (simp_all add: length_dec_pad)
  moreover have "list_all is_digit (dec_pad 4 (nat (Year t)) @ dec_pad 2 (nat (Month t)) @ dec_pad 2 (nat (Day t)))"
    by (auto simp: list_all_iff dest: dec_pad_digits)
  ultimately have "time_Parse (format_date t) = Inr t"
    using parse_parts [of "dec_pad 4 (nat (Year t))" "dec_pad 2 (nat (Month t))" "dec_pad 2 (nat (Day t))"] parts assms
      \<open>1 \<le> Month t\<close> \<open>1 \<le> Day t\<close>
    by (simp add: format_date_def)
  moreover have "format_date t \<noteq> ''''" by (simp add: format_date_def)
  ultimately show ?thesis by (simp add: parseDate_def)
qed

theorem date_parameter_roundtrip_witness:
  "format_date (Date 2024 2 29) = ''2024-02-29'' \<and> parseDate (format_date (Date 2024 2 29)) = Inr (Date 2024 2 29)"
proof
  have "civil_from_days (days_from_civil 2024 2 29) = (2024, 2, 29)"
    by (rule civil_from_days_days_from_civil) (simp add: valid_date_def days_in_month_def is_leap_def)
  then have parts: "Year (Date 2024 2 29) = 2024" "Month (Date 2024 2 29) = 2" "Day (Date 2024 2 29) = 29"
    by (simp_all add: Year_def Month_def Day_def Date_def)
  have digits: "digit_char 0 = CHR ''0''" "digit_char 2 = CHR ''2''" "digit_char 4 = CHR ''4''" "digit_char 9 = CHR ''9''"
    by (simp_all add: digit_char_def char_of_def bit_iff_odd)
  have "dec 2024 = ''2024''" "dec 2 = ''2''" "dec 29 = ''29''" by (simp_all add: dec.simps digits)
  then have "dec_pad 4 2024 = ''2024''" "dec_pad 2 2 = ''02''" "dec_pad 2 29 = ''29''"
    by (simp_all add: dec_pad_def digits)
  then show "format_date (Date 2024 2 29) = ''2024-02-29''" by (simp add: format_date_def parts)
  show "parseDate (format_date (Date 2024 2 29)) = Inr (Date 2024 2 29)"
    by (rule date_parameter_roundtrip) (simp_all add: parts, simp add: Date_def)
qed

end
