(* ===== verification/Observability.thy ===== *)
theory Observability
  imports Adapters
begin

text \<open>
  \<open>internal/infrastructure/observability\<close> and the middleware \<open>Logger\<close> and \<open>Metrics\<close> of
  \<open>internal/handler/http/middleware/logger.go\<close>. The log library is modelled as far as its handlers
  are wrapped here: a handler has a level, the groups that are open and the attributes attached
  so far. The metrics library is a set of counters; OpenTelemetry's exporter is an argument.
\<close>

section \<open>Logs (logging.go)\<close>

definition LevelDebug :: int64 where "LevelDebug = -4"
definition LevelInfo :: int64 where "LevelInfo = 0"
definition LevelWarn :: int64 where "LevelWarn = 4"
definition LevelError :: int64 where "LevelError = 8"

text \<open>\<open>Level.UnmarshalText\<close>: a name in any case, with an offset or without; None is an error.\<close>

definition level_name :: "string \<Rightarrow> int64 option" where
  "level_name name =
     (if go_to_upper name = ''DEBUG'' then Some LevelDebug else if go_to_upper name = ''INFO'' then Some LevelInfo
      else if go_to_upper name = ''WARN'' then Some LevelWarn else if go_to_upper name = ''ERROR'' then Some LevelError else None)"

definition UnmarshalText :: "string \<Rightarrow> int64 option" where
  "UnmarshalText s =
     (let sign = (\<lambda>c. c = CHR ''+'' \<or> c = CHR ''-'');
          name = takeWhile (\<lambda>c. \<not> sign c) s;
          rest = dropWhile (\<lambda>c. \<not> sign c) s
      in if rest = '''' then level_name name
         else case ParseInt rest of None \<Rightarrow> None | Some offset \<Rightarrow> map_option (\<lambda>l. l + offset) (level_name name))"

type_synonym attr = "string \<times> string"

text \<open>An attribute in a line has the groups it is nested in.\<close>

record log_line =
  ln_Level :: int64
  ln_Message :: string
  ln_Attrs :: "(string list \<times> attr) list"

datatype log_handler =
    JSONHandler int64 "string list" "(string list \<times> attr) list"
  | traceHandler log_handler

fun WithAttrs :: "attr list \<Rightarrow> log_handler \<Rightarrow> log_handler" where
  "WithAttrs attrs (JSONHandler lvl groups done) = JSONHandler lvl groups (done @ map (Pair groups) attrs)"
| "WithAttrs attrs (traceHandler h) = traceHandler (WithAttrs attrs h)"

fun WithGroup :: "string \<Rightarrow> log_handler \<Rightarrow> log_handler" where
  "WithGroup name (JSONHandler lvl groups done) = JSONHandler lvl (groups @ [name]) done"
| "WithGroup name (traceHandler h) = traceHandler (WithGroup name h)"

fun Enabled :: "int64 \<Rightarrow> log_handler \<Rightarrow> bool" where
  "Enabled level (JSONHandler lvl groups done) \<longleftrightarrow> lvl \<le>s level"
| "Enabled level (traceHandler h) \<longleftrightarrow> Enabled level h"

text \<open>The span of a context: its trace and span ids where it is valid.\<close>

fun Handle :: "(string \<times> string) option \<Rightarrow> int64 \<Rightarrow> string \<Rightarrow> attr list \<Rightarrow> log_handler \<Rightarrow> log_line" where
  "Handle span level msg attrs (JSONHandler lvl groups done) =
     \<lparr>ln_Level = level, ln_Message = msg, ln_Attrs = done @ map (Pair groups) attrs\<rparr>"
| "Handle span level msg attrs (traceHandler h) =
     Handle span level msg
       (attrs @ (case span of Some (t, s) \<Rightarrow> [(''trace_id'', t), (''span_id'', s)] | None \<Rightarrow> [])) h"

definition logger_Log :: "(string \<times> string) option \<Rightarrow> int64 \<Rightarrow> string \<Rightarrow> attr list \<Rightarrow> log_handler \<Rightarrow> log_line option" where
  "logger_Log span level msg attrs h = (if Enabled level h then Some (Handle span level msg attrs h) else None)"

definition NewLogger :: "string \<Rightarrow> string \<Rightarrow> log_handler" where
  "NewLogger level service =
     WithAttrs [(''service'', service)]
       (traceHandler (JSONHandler (case UnmarshalText level of Some lvl \<Rightarrow> lvl | None \<Rightarrow> LevelInfo) [] []))"

text \<open>A logger a program derives from its first one.\<close>

inductive derived :: "log_handler \<Rightarrow> log_handler \<Rightarrow> bool" for h0 where
  derived_self: "derived h0 h0"
| derived_attrs: "derived h0 h \<Longrightarrow> derived h0 (WithAttrs attrs h)"
| derived_group: "derived h0 h \<Longrightarrow> derived h0 (WithGroup name h)"

text \<open>Whatever is derived from a program's logger, by further attributes and groups, keeps its level, says
  which service it is in every line, and adds the ids of the trace to every line of a request
  that is traced.\<close>

lemma derived_logger:
  "derived (NewLogger level service) h \<Longrightarrow>
     \<exists>groups done. h = traceHandler (JSONHandler (case UnmarshalText level of Some lvl \<Rightarrow> lvl | None \<Rightarrow> LevelInfo) groups
        (([], ''service'', service) # done))"
  by (induction rule: derived.induct) (auto simp: NewLogger_def)

lemma logged_line:
  assumes "derived (NewLogger level service) h" "logger_Log span l msg attrs h = out"
  shows "case out of
      None \<Rightarrow> l <s (case UnmarshalText level of Some lvl \<Rightarrow> lvl | None \<Rightarrow> LevelInfo)
    | Some line \<Rightarrow> (case UnmarshalText level of Some lvl \<Rightarrow> lvl | None \<Rightarrow> LevelInfo) \<le>s l
        \<and> ln_Attrs line ! 0 = ([], ''service'', service)
        \<and> (\<forall>t s. span = Some (t, s) \<longrightarrow> (\<exists>groups. {(groups, ''trace_id'', t), (groups, ''span_id'', s)} \<subseteq> set (ln_Attrs line)))"
  using derived_logger [OF assms(1)] assms(2)
  by (auto simp: logger_Log_def signed.not_le split: if_splits)

lemma sample_levels: "UnmarshalText ''verbose'' = None" "UnmarshalText ''Warn'' = Some LevelWarn" "UnmarshalText ''debug+2'' = Some (-2)"
proof -
  have upper: "go_to_upper ''verbose'' = ''VERBOSE''" "go_to_upper ''Warn'' = ''WARN''" "go_to_upper ''debug'' = ''DEBUG''" by code_simp+
  have "ParseInt ''+2'' = Some 2" by (simp add: ParseInt_def undec_def is_digit_def byte_def)
  then show "UnmarshalText ''verbose'' = None" "UnmarshalText ''Warn'' = Some LevelWarn" "UnmarshalText ''debug+2'' = Some (-2)"
    using upper by (simp_all add: UnmarshalText_def level_name_def LevelDebug_def)
qed

section \<open>Traces (otel.go)\<close>

text \<open>Whether spans are exported, and to which endpoint; the propagation of trace ids is always set up.\<close>

definition SetupTracing :: "(string \<Rightarrow> go_error option) \<Rightarrow> go_error option \<Rightarrow> string \<Rightarrow> string option result" where
  "SetupTracing new_exporter merge endpoint =
     (if endpoint = '''' then Inr None
      else case new_exporter endpoint of
        Some err \<Rightarrow> Inl (Errorf [''criar exporter OTLP''] err)
      | None \<Rightarrow> (case merge of Some err \<Rightarrow> Inl err | None \<Rightarrow> Inr (Some endpoint)))"

section \<open>Metrics (metrics.go)\<close>

text \<open>The vectors by their label values: counters, and the observed durations in nanoseconds.\<close>

record metrics =
  mx_HTTPRequests :: "string \<times> string \<times> string \<Rightarrow> nat"
  mx_HTTPDuration :: "string \<times> string \<Rightarrow> int list"
  mx_Authorizations :: "string \<times> string \<Rightarrow> nat"
  mx_IssuerLatency :: "int list"
  mx_SettledAmount :: nat
  mx_OutboxLag :: int

definition NewMetrics :: metrics where
  "NewMetrics = \<lparr>mx_HTTPRequests = (\<lambda>_. 0), mx_HTTPDuration = (\<lambda>_. []), mx_Authorizations = (\<lambda>_. 0),
     mx_IssuerLatency = [], mx_SettledAmount = 0, mx_OutboxLag = 0\<rparr>"

section \<open>The middleware (logger.go)\<close>

text \<open>
  What the middleware sees of a request after the handlers have run: the pattern of its route, empty where none
  matched, the status, the time it took in nanoseconds, and the principal \<open>Authenticate\<close> left.
\<close>

record served =
  sv_method :: string
  sv_FullPath :: string
  sv_status :: int
  sv_elapsed :: int
  sv_request_id :: string
  sv_client_ip :: string
  sv_principal :: "principal option"

definition Logger_level :: "int \<Rightarrow> int64" where
  "Logger_level status = (if status \<ge> 500 then LevelError else if status \<ge> 400 then LevelWarn else LevelInfo)"

definition Logger_attrs :: "served \<Rightarrow> attr list" where
  "Logger_attrs s =
     [(''method'', sv_method s), (''route'', sv_FullPath s), (''status'', dec (nat (sv_status s))),
      (''duration_ms'', dec (nat (sv_elapsed s div 1000000))), (''request_id'', sv_request_id s), (''client_ip'', sv_client_ip s)]
     @ (case sv_principal s of
          Some p \<Rightarrow> [(''client_id'', pr_ClientID p), (''merchant_id'', pr_MerchantID p)]
        | None \<Rightarrow> [])"

definition Logger :: "(string \<times> string) option \<Rightarrow> log_handler \<Rightarrow> served \<Rightarrow> log_line option" where
  "Logger span log s = logger_Log span (Logger_level (sv_status s)) ''request'' (Logger_attrs s) log"

definition Metrics :: "served \<Rightarrow> metrics \<Rightarrow> metrics" where
  "Metrics s m =
     (let route = (if sv_FullPath s = '''' then ''unmatched'' else sv_FullPath s);
          labels = (route, sv_method s, dec (nat (sv_status s)))
      in m\<lparr>mx_HTTPRequests := (mx_HTTPRequests m)(labels := mx_HTTPRequests m labels + 1),
           mx_HTTPDuration := (mx_HTTPDuration m)((route, sv_method s) := mx_HTTPDuration m (route, sv_method s) @ [sv_elapsed s])\<rparr>)"

end
