(* ===== verification/Router.thy ===== *)
theory Router
  imports Observability
begin

text \<open>
  The whole way of a request through \<open>NewRouter\<close> of \<open>internal/handler/http/router.go\<close>: its route is
  found by method and path, then the middleware run (request id, metrics, log, authentication,
  scope and, on four routes, idempotency) and the handler. Gin's recovery from a panic, its
  redirections for a trailing slash and OpenTelemetry's middleware are library code and are
  left out; a path that no route matches is answered with 404.
\<close>

section \<open>Patterns\<close>

text \<open>A pattern is its segments; \<open>:id\<close> matches any segment but an empty last one.\<close>

datatype segment = Lit string | Param

fun segments_of :: "string \<Rightarrow> string list" where
  "segments_of [] = [[]]"
| "segments_of (c # s) =
     (if c = CHR ''/'' then [] # segments_of s
      else case segments_of s of w # ws \<Rightarrow> (c # w) # ws | [] \<Rightarrow> [[c]])"

text \<open>The value of \<open>:id\<close>, empty where the pattern has none; None where the path does not match.\<close>

fun match_pattern :: "segment list \<Rightarrow> string list \<Rightarrow> string option" where
  "match_pattern [] [] = Some ''''"
| "match_pattern (Lit l # ps) (w # ws) = (if l = w then match_pattern ps ws else None)"
| "match_pattern (Param # ps) (w # ws) =
     (if ps = [] \<and> w = '''' then None else case match_pattern ps ws of None \<Rightarrow> None | Some _ \<Rightarrow> Some w)"
| "match_pattern _ _ = None"

definition match_path :: "segment list \<Rightarrow> string \<Rightarrow> string option" where
  "match_path ps path = (case path of [] \<Rightarrow> None | c # s \<Rightarrow> if c = CHR ''/'' then match_pattern ps (segments_of s) else None)"

definition pattern_text :: "segment list \<Rightarrow> string" where
  "pattern_text ps = concat (map (\<lambda>p. case p of Lit l \<Rightarrow> ''/'' @ l | Param \<Rightarrow> ''/:id'') ps)"

section \<open>The routes\<close>

text \<open>What gin's binder and validator make of a body, for every transport object.\<close>

record binders =
  bn_create_merchant :: "string option \<Rightarrow> string + create_merchant_request"
  bn_update_settings :: "string option \<Rightarrow> string + update_merchant_settings_request"
  bn_tokenize :: "string option \<Rightarrow> string + tokenize_card_request"
  bn_authorize :: "string option \<Rightarrow> string + authorize_request"
  bn_anticipation :: "string option \<Rightarrow> string + anticipation_request"
  bn_chargeback :: "string option \<Rightarrow> string + open_chargeback_request"

text \<open>A page of the router; a guarded one is under authentication, and the flag says whether the
  idempotency middleware is in front of its handler.\<close>

datatype page = Health_live | Health_ready | Metrics_page | Openapi_file
  | Guarded bool "binders \<Rightarrow> string option \<Rightarrow> endpoint"

record route =
  rt_method :: string
  rt_pattern :: "segment list"
  rt_page :: page

definition v1 :: "string \<Rightarrow> segment list \<Rightarrow> bool \<Rightarrow> (binders \<Rightarrow> string option \<Rightarrow> endpoint) \<Rightarrow> route" where
  "v1 method ps idempotent e = \<lparr>rt_method = method, rt_pattern = Lit ''v1'' # ps, rt_page = Guarded idempotent e\<rparr>"

definition routes :: "bool \<Rightarrow> route list" where
  "routes production =
     [\<lparr>rt_method = ''GET'', rt_pattern = [Lit ''health'', Lit ''live''], rt_page = Health_live\<rparr>,
      \<lparr>rt_method = ''GET'', rt_pattern = [Lit ''health'', Lit ''ready''], rt_page = Health_ready\<rparr>,
      \<lparr>rt_method = ''GET'', rt_pattern = [Lit ''metrics''], rt_page = Metrics_page\<rparr>]
     @ (if \<not> production
        then [\<lparr>rt_method = ''GET'', rt_pattern = [Lit ''openapi.yaml''], rt_page = Openapi_file\<rparr>,
              \<lparr>rt_method = ''HEAD'', rt_pattern = [Lit ''openapi.yaml''], rt_page = Openapi_file\<rparr>]
        else [])
     @ [v1 ''POST'' [Lit ''merchants''] False (\<lambda>b body. POST_merchants (bn_create_merchant b body)),
        v1 ''GET'' [Lit ''merchants'', Param] False (\<lambda>b body. GET_merchant),
        v1 ''PATCH'' [Lit ''merchants'', Param, Lit ''settings''] False (\<lambda>b body. PATCH_settings (bn_update_settings b body)),
        v1 ''POST'' [Lit ''merchants'', Param, Lit ''approve''] False (\<lambda>b body. POST_approve),
        v1 ''POST'' [Lit ''merchants'', Param, Lit ''block''] False (\<lambda>b body. POST_block),
        v1 ''POST'' [Lit ''card-tokens''] False (\<lambda>b body. POST_card_tokens (bn_tokenize b body)),
        v1 ''POST'' [Lit ''transactions''] True (\<lambda>b body. POST_transactions (bn_authorize b body)),
        v1 ''POST'' [Lit ''transactions'', Param, Lit ''capture''] True (\<lambda>b body. POST_capture),
        v1 ''POST'' [Lit ''transactions'', Param, Lit ''cancel''] True (\<lambda>b body. POST_cancel),
        v1 ''GET'' [Lit ''transactions'', Param] False (\<lambda>b body. GET_transaction),
        v1 ''GET'' [Lit ''receivables''] False (\<lambda>b body. GET_receivables),
        v1 ''GET'' [Lit ''receivables'', Lit ''summary''] False (\<lambda>b body. GET_summary),
        v1 ''GET'' [Lit ''settlements''] False (\<lambda>b body. GET_settlements),
        v1 ''POST'' [Lit ''anticipations'', Lit ''simulate''] False (\<lambda>b body. POST_simulate (bn_anticipation b body)),
        v1 ''POST'' [Lit ''anticipations''] True (\<lambda>b body. POST_anticipations (bn_anticipation b body)),
        v1 ''GET'' [Lit ''anticipations'', Param] False (\<lambda>b body. GET_anticipation),
        \<lparr>rt_method = ''POST'', rt_pattern = [Lit ''internal'', Lit ''chargebacks''],
         rt_page = Guarded False (\<lambda>b body. POST_chargebacks (bn_chargeback b body))\<rparr>]"

definition find_route :: "bool \<Rightarrow> string \<Rightarrow> string \<Rightarrow> (route \<times> string) option" where
  "find_route production method path =
     (case find (\<lambda>r. rt_method r = method \<and> match_path (rt_pattern r) path \<noteq> None) (routes production) of
        None \<Rightarrow> None
      | Some r \<Rightarrow> Some (r, the (match_path (rt_pattern r) path)))"

section \<open>Health\<close>

text \<open>The routes without authentication that say whether the program runs: the status and the reason.\<close>

definition health_live :: "int \<times> string \<times> string" where
  "health_live = (200, ''ok'', '''')"

definition health_ready :: "(go_error \<Rightarrow> string) \<Rightarrow> go_error option \<Rightarrow> int \<times> string \<times> string" where
  "health_ready text ping = (case ping of Some err \<Rightarrow> (503, ''not ready'', text err) | None \<Rightarrow> (200, ''ready'', ''''))"

section \<open>A request\<close>

text \<open>
  A request, with what happens to it while it is served: the reading of its body, the instants of the clock,
  a fresh UUID, the times \<open>Logger\<close> and \<open>Metrics\<close> measure, its span, and the answer to a ping of the database.
\<close>

record server_request =
  sq_method :: string
  sq_path :: string
  sq_header :: "string \<Rightarrow> string"
  sq_query :: "string \<Rightarrow> string option"
  sq_body :: "string option"
  sq_client_ip :: string
  sq_now :: time
  sq_now2 :: time
  sq_uuid :: string
  sq_elapsed :: int
  sq_elapsed2 :: int
  sq_span :: "(string \<times> string) option"
  sq_ping :: "go_error option"

text \<open>The dependencies of the router; \<open>sd_encode\<close> is the JSON text of an answer, \<open>sd_openapi\<close> the status of the file.\<close>

record server =
  sd_log :: log_handler
  sd_deps :: deps
  sd_binders :: binders
  sd_sha :: "string \<Rightarrow> string"
  sd_encode :: "json \<Rightarrow> string"
  sd_ttl :: int
  sd_openapi :: int
  sd_prod :: bool

record server_world =
  sw_world :: world
  sw_keys :: key_table
  sw_metrics :: metrics

datatype content =
    Answer http_response
  | Middleware_reply Idempotency.reply
  | Health "int \<times> string \<times> string"
  | Exposition metrics
  | Openapi int
  | Not_found

fun content_status :: "content \<Rightarrow> int" where
  "content_status (Answer rp) = hr_status rp"
| "content_status (Middleware_reply rp) = rp_status rp"
| "content_status (Health h) = fst h"
| "content_status (Exposition m) = 200"
| "content_status (Openapi status) = status"
| "content_status Not_found = 404"

definition handler_request :: "server_request \<Rightarrow> string \<Rightarrow> http_request" where
  "handler_request q i = \<lparr>hq_path = sq_path q, hq_id = i, hq_auth = sq_header q ''Authorization'', hq_query = sq_query q,
     hq_now = sq_now q, hq_now2 = sq_now2 q\<rparr>"

definition idempotent_request :: "server_request \<Rightarrow> principal \<Rightarrow> Idempotency.request" where
  "idempotent_request q p = \<lparr>rq_merchant = pr_MerchantID p, rq_key = sq_header q ''Idempotency-Key'', rq_method = sq_method q,
     rq_path = sq_path q, rq_body = sq_body q\<rparr>"

text \<open>
  The counter of authorizations in \<open>TransactionHandler.Authorize\<close>: the use case ran where the
  merchant is known and the body bound.
\<close>

definition authorization_labels :: "principal \<Rightarrow> endpoint \<Rightarrow> http_response \<Rightarrow> (string \<times> string) option" where
  "authorization_labels p e rp =
     (case e of
        POST_transactions (Inr req) \<Rightarrow>
          if pr_MerchantID p = '''' then None
          else Some (aq_Product req, case hr_body rp of JTransaction t \<Rightarrow> go_to_lower (xr_Status t) | _ \<Rightarrow> ''error'')
      | _ \<Rightarrow> None)"

definition count_authorization :: "(string \<times> string) option \<Rightarrow> metrics \<Rightarrow> metrics" where
  "count_authorization labels m =
     (case labels of None \<Rightarrow> m
      | Some l \<Rightarrow> m\<lparr>mx_Authorizations := (mx_Authorizations m)(l := mx_Authorizations m l + 1)\<rparr>)"

text \<open>The handler of a guarded route behind its idempotency middleware; the answer of a handler that ran
  goes to the client as it is.\<close>

definition run_handler :: "server \<Rightarrow> bool \<Rightarrow> endpoint \<Rightarrow> principal \<Rightarrow> server_request \<Rightarrow> string \<Rightarrow> server_world \<Rightarrow> content \<times> server_world" where
  "run_handler sd idempotent e p q i s =
     (let counted = (\<lambda>rp t w. (Answer rp, \<lparr>sw_world = w, sw_keys = t,
            sw_metrics = count_authorization (authorization_labels p e rp) (sw_metrics s)\<rparr>))
      in if idempotent
         then case Idempotency_middleware (sd_sha sd) (sq_now q + sd_ttl sd)
                (\<lambda>rq (w, out). case handle_endpoint (sd_deps sd) p (handler_request q i) e w of
                   (rp, w') \<Rightarrow> ((hr_status rp, sd_encode sd (hr_body rp)), (w', Some rp)))
                (idempotent_request q p) (sw_keys s, (sw_world s, None)) of
              (rp, t, (w, None)) \<Rightarrow> (Middleware_reply rp, s\<lparr>sw_keys := t\<rparr>)
            | (_, t, (w, Some rp)) \<Rightarrow> counted rp t w
         else case handle_endpoint (sd_deps sd) p (handler_request q i) e (sw_world s) of
              (rp, w) \<Rightarrow> counted rp (sw_keys s) w)"

definition guarded_page ::
  "server \<Rightarrow> bool \<Rightarrow> (binders \<Rightarrow> string option \<Rightarrow> endpoint) \<Rightarrow> server_request \<Rightarrow> string \<Rightarrow> server_world
   \<Rightarrow> content \<times> principal option \<times> server_world" where
  "guarded_page sd idempotent build q i s =
     (case Authenticate (dp_verify (sd_deps sd)) (sq_path q) (sq_header q ''Authorization'') of
        Inl rp \<Rightarrow> (Answer rp, None, s)
      | Inr p \<Rightarrow>
          (let e = build (sd_binders sd) (if idempotent then map_option (take 1048576) (sq_body q) else sq_body q)
           in case Authorize_scope (sq_path q) (scope_of e) p of
                Some rp \<Rightarrow> (Answer rp, Some p, s)
              | None \<Rightarrow> (case run_handler sd idempotent e p q i s of (c, s') \<Rightarrow> (c, Some p, s'))))"

definition run_page :: "server \<Rightarrow> page \<Rightarrow> server_request \<Rightarrow> string \<Rightarrow> server_world \<Rightarrow> content \<times> principal option \<times> server_world" where
  "run_page sd pg q i s =
     (case pg of
        Health_live \<Rightarrow> (Health health_live, None, s)
      | Health_ready \<Rightarrow> (Health (health_ready (dp_text (sd_deps sd)) (sq_ping q)), None, s)
      | Metrics_page \<Rightarrow> (Exposition (sw_metrics s), None, s)
      | Openapi_file \<Rightarrow> (Openapi (sd_openapi sd), None, s)
      | Guarded idempotent build \<Rightarrow> guarded_page sd idempotent build q i s)"

text \<open>The answer, the id the request has been given, what is logged of it and the state after it.\<close>

definition NewRouter :: "server \<Rightarrow> server_request \<Rightarrow> server_world \<Rightarrow> (content \<times> string \<times> log_line option) \<times> server_world" where
  "NewRouter sd q s =
     (let rid = RequestID (sq_header q ''X-Request-Id'') (sq_uuid q);
          (pattern, (c, p, s')) =
            (case find_route (sd_prod sd) (sq_method q) (sq_path q) of
               None \<Rightarrow> ('''', (Not_found, None, s))
             | Some (r, i) \<Rightarrow> (pattern_text (rt_pattern r), run_page sd (rt_page r) q i s));
          sv = \<lparr>sv_method = sq_method q, sv_FullPath = pattern, sv_status = content_status c, sv_elapsed = sq_elapsed q,
                sv_request_id = rid, sv_client_ip = sq_client_ip q, sv_principal = p\<rparr>
      in ((c, rid, Logger (sq_span q) (sd_log sd) sv), s'\<lparr>sw_metrics := Metrics (sv\<lparr>sv_elapsed := sq_elapsed2 q\<rparr>) (sw_metrics s')\<rparr>))"

section \<open>What a request may do\<close>

text \<open>The handler of a route behind its middleware.\<close>

lemma endpoint_safe:
  "handle_endpoint d p rq e w = (rp, w') \<Longrightarrow> 400 \<le> hr_status rp \<Longrightarrow> w_db w' = w_db w"
  using safe_endpoint [of d p rq e] unfolding safe_act_def by auto

lemma run_handler_cases:
  assumes "run_handler sd idempotent e p q i s = (c, s')"
  obtains (ran) rp w t where "handle_endpoint (sd_deps sd) p (handler_request q i) e (sw_world s) = (rp, w)"
      "c = Answer rp" "s' = \<lparr>sw_world = w, sw_keys = t, sw_metrics = count_authorization (authorization_labels p e rp) (sw_metrics s)\<rparr>"
      "idempotent \<or> t = sw_keys s"
  | (held) rp t where "idempotent" "c = Middleware_reply rp" "s' = s\<lparr>sw_keys := t\<rparr>"
proof (cases idempotent)
  case False
  then show ?thesis using assms ran by (auto simp: run_handler_def split: prod.splits)
next
  case True
  define h where "h = (\<lambda>(rq :: Idempotency.request) (w, out :: http_response option).
      case handle_endpoint (sd_deps sd) p (handler_request q i) e w of
        (rp, w') \<Rightarrow> ((hr_status rp, sd_encode sd (hr_body rp)), (w', Some rp)))"
  obtain rp t w out where m: "Idempotency_middleware (sd_sha sd) (sq_now q + sd_ttl sd) h (idempotent_request q p)
      (sw_keys s, (sw_world s, None)) = (rp, t, (w, out))" by (metis prod.exhaust)
  have "(out = None \<and> w = sw_world s) \<or> (\<exists>r. out = Some r
      \<and> handle_endpoint (sd_deps sd) p (handler_request q i) e (sw_world s) = (r, w))"
    using m unfolding Idempotency_middleware_def h_def by (auto split: sum.splits prod.splits option.splits)
  then show ?thesis
    using assms True ran held m unfolding run_handler_def h_def [symmetric] Let_def by auto
qed

definition public_content :: "content \<Rightarrow> bool" where
  "public_content c \<longleftrightarrow> (case c of Answer rp \<Rightarrow> hr_status rp = 401 | Middleware_reply rp \<Rightarrow> False | _ \<Rightarrow> True)"

lemma guarded_page_safe:
  assumes run: "guarded_page sd idempotent build q i s = (c, p, s')"
  shows "(400 \<le> content_status c \<longrightarrow> w_db (sw_world s') = w_db (sw_world s))
    \<and> ((\<exists>rp. c = Answer rp \<and> hr_status rp = 401) \<and> s' = s \<or>
       (\<exists>cl body. dp_verify (sd_deps sd) (drop 7 (sq_header q ''Authorization'')) = Some cl
          \<and> has_prefix (sq_header q ''Authorization'') ''Bearer ''
          \<and> (s' = s \<or> scope_of (build (sd_binders sd) body) \<in> set (Fields (cl_Scope cl) []))))"
proof (cases "Authenticate (dp_verify (sd_deps sd)) (sq_path q) (sq_header q ''Authorization'')")
  case (Inl rp)
  then have "hr_status rp = 401"
    by (auto simp: Authenticate_def Let_def unauthorized_def gin_problem_def split: if_splits option.splits)
  then show ?thesis using run Inl by (auto simp: guarded_page_def)
next
  case (Inr p')
  then obtain cl where cl: "dp_verify (sd_deps sd) (drop 7 (sq_header q ''Authorization'')) = Some cl"
    "has_prefix (sq_header q ''Authorization'') ''Bearer ''" "pr_Scopes p' = Fields (cl_Scope cl) []"
    by (auto simp: Authenticate_def TrimPrefix_def Let_def numeral_eq_Suc split: if_splits option.splits)
  define body where "body = (if idempotent then map_option (take 1048576) (sq_body q) else sq_body q)"
  define e where "e = build (sd_binders sd) body"
  show ?thesis
  proof (cases "Has p' (scope_of e)")
    case False
    then show ?thesis using run Inr cl by (auto simp: guarded_page_def Authorize_scope_def e_def body_def)
  next
    case True
    then have h: "run_handler sd idempotent e p' q i s = (c, s')"
      using run Inr by (auto simp: guarded_page_def Authorize_scope_def e_def body_def split: prod.splits)
    from h have "400 \<le> content_status c \<longrightarrow> w_db (sw_world s') = w_db (sw_world s)"
      by (cases rule: run_handler_cases) (auto dest: endpoint_safe)
    then show ?thesis using cl True unfolding Has_def e_def by auto
  qed
qed


section \<open>What is counted\<close>

text \<open>A server's requests one after another, with their answers.\<close>

fun serve_all :: "server \<Rightarrow> server_request list \<Rightarrow> server_world \<Rightarrow> (server_request \<times> content) list \<times> server_world" where
  "serve_all sd [] s = ([], s)"
| "serve_all sd (q # qs) s =
     (case NewRouter sd q s of ((c, rid, line), s') \<Rightarrow>
        case serve_all sd qs s' of (answers, s'') \<Rightarrow> ((q, c) # answers, s''))"

definition route_label :: "bool \<Rightarrow> server_request \<Rightarrow> string" where
  "route_label production q =
     (case find_route production (sq_method q) (sq_path q) of None \<Rightarrow> ''unmatched'' | Some (r, i) \<Rightarrow> pattern_text (rt_pattern r))"

definition route_labels :: "bool \<Rightarrow> string list" where
  "route_labels production = remdups (''unmatched'' # map (\<lambda>r. pattern_text (rt_pattern r)) (routes production))"

lemma route_labels_count: "length (route_labels True) = 21" "length (route_labels False) = 22" "'''' \<notin> set (route_labels production)"
  by (cases production; simp add: route_labels_def routes_def v1_def pattern_text_def)+

lemma find_route_mem: "find_route production method path = Some (r, i) \<Longrightarrow> r \<in> set (routes production) \<and> rt_method r = method"
  by (auto simp: find_route_def find_Some_iff split: option.splits)

lemma route_label_mem: "route_label production q \<in> set (route_labels production)"
  by (auto simp: route_label_def route_labels_def dest: find_route_mem split: option.splits)

lemma page_metrics:
  "run_page sd pg q i s = (c, p, s') \<Longrightarrow> mx_HTTPRequests (sw_metrics s') = mx_HTTPRequests (sw_metrics s)
     \<and> mx_HTTPDuration (sw_metrics s') = mx_HTTPDuration (sw_metrics s)"
proof (cases pg)
  case (Guarded idempotent build)
  have count: "mx_HTTPRequests (count_authorization l m) = mx_HTTPRequests m" "mx_HTTPDuration (count_authorization l m) = mx_HTTPDuration m" for l m
    by (simp_all add: count_authorization_def split: option.split)
  assume "run_page sd pg q i s = (c, p, s')"
  then have "s' = s \<or> (\<exists>e p'. run_handler sd idempotent e p' q i s = (c, s'))"
    using Guarded by (auto simp: run_page_def guarded_page_def Let_def split: sum.splits option.splits prod.splits)
  then show ?thesis by (auto elim!: run_handler_cases simp: count)
qed (auto simp: run_page_def)

lemma NewRouter_metrics:
  assumes "NewRouter sd q s = ((c, rid, line), s')"
  defines "label \<equiv> route_label (sd_prod sd) q"
  shows "mx_HTTPRequests (sw_metrics s') l = mx_HTTPRequests (sw_metrics s) l
      + (if l = (label, sq_method q, dec (nat (content_status c))) then 1 else 0)"
    and "mx_HTTPDuration (sw_metrics s') k = mx_HTTPDuration (sw_metrics s) k @ (if k = (label, sq_method q) then [sq_elapsed2 q] else [])"
proof -
  obtain pattern p s1 where 1: "(case find_route (sd_prod sd) (sq_method q) (sq_path q) of None \<Rightarrow> ('''', (Not_found, None, s))
      | Some (r, i) \<Rightarrow> (pattern_text (rt_pattern r), run_page sd (rt_page r) q i s)) = (pattern, (c, p, s1))"
    and s': "sw_metrics s' = Metrics \<lparr>sv_method = sq_method q, sv_FullPath = pattern, sv_status = content_status c, sv_elapsed = sq_elapsed2 q,
                sv_request_id = rid, sv_client_ip = sq_client_ip q, sv_principal = p\<rparr> (sw_metrics s1)"
    using assms by (auto simp: NewRouter_def Let_def split: prod.splits)
  have "pattern_text (rt_pattern r) \<in> set (route_labels (sd_prod sd))" if "find_route (sd_prod sd) (sq_method q) (sq_path q) = Some (r, i)" for r i
    using find_route_mem [OF that] by (auto simp: route_labels_def)
  then have "pattern_text (rt_pattern r) \<noteq> ''''" if "find_route (sd_prod sd) (sq_method q) (sq_path q) = Some (r, i)" for r i
    using that route_labels_count(3) [of "sd_prod sd"] by metis
  then have label: "(if pattern = '''' then ''unmatched'' else pattern) = label"
    using 1 by (auto simp: label_def route_label_def split: option.splits prod.splits)
  have same: "mx_HTTPRequests (sw_metrics s1) = mx_HTTPRequests (sw_metrics s)" "mx_HTTPDuration (sw_metrics s1) = mx_HTTPDuration (sw_metrics s)"
    using 1 page_metrics by (auto split: option.splits prod.splits)
  show "mx_HTTPRequests (sw_metrics s') l = mx_HTTPRequests (sw_metrics s) l
      + (if l = (label, sq_method q, dec (nat (content_status c))) then 1 else 0)"
    "mx_HTTPDuration (sw_metrics s') k = mx_HTTPDuration (sw_metrics s) k @ (if k = (label, sq_method q) then [sq_elapsed2 q] else [])"
    unfolding s' Metrics_def Let_def served.simps label by (simp_all add: same)
qed

text \<open>C25: the metrics say what was served, and cheaply: every request is counted exactly once, under its method, its
  status and the pattern of its route; its duration is observed under its method and route; and
  whatever paths clients send, the route label takes at most 22 values.\<close>

theorem metrics_correct:
  assumes "serve_all sd qs s = (answers, s')" "sw_metrics s = NewMetrics"
  shows "(\<forall>l. mx_HTTPRequests (sw_metrics s') l
            = length (filter (\<lambda>(q, c). l = (route_label (sd_prod sd) q, sq_method q, dec (nat (content_status c)))) answers))
    \<and> (\<forall>k. mx_HTTPDuration (sw_metrics s') k = map sq_elapsed2 (filter (\<lambda>q. k = (route_label (sd_prod sd) q, sq_method q)) qs))
    \<and> map fst answers = qs
    \<and> fst ` {l. mx_HTTPRequests (sw_metrics s') l \<noteq> 0} \<subseteq> set (route_labels (sd_prod sd))
    \<and> length (route_labels (sd_prod sd)) \<le> 22"
proof -
  have exact: "(\<forall>l. mx_HTTPRequests (sw_metrics s') l = mx_HTTPRequests (sw_metrics s) l
            + length (filter (\<lambda>(q, c). l = (route_label (sd_prod sd) q, sq_method q, dec (nat (content_status c)))) answers))
    \<and> (\<forall>k. mx_HTTPDuration (sw_metrics s') k = mx_HTTPDuration (sw_metrics s) k
            @ map sq_elapsed2 (filter (\<lambda>q. k = (route_label (sd_prod sd) q, sq_method q)) qs))
    \<and> map fst answers = qs"
    using assms(1)
  proof (induction qs arbitrary: s answers)
    case (Cons q qs)
    obtain c rid line s1 answers1 where 1: "NewRouter sd q s = ((c, rid, line), s1)" "serve_all sd qs s1 = (answers1, s')"
      "answers = (q, c) # answers1" using Cons.prems by (auto split: prod.splits)
    show ?case using Cons.IH [OF 1(2)] by (simp add: 1(3) NewRouter_metrics [OF 1(1)])
  qed simp
  have zero: "mx_HTTPRequests (sw_metrics s) l = 0" "mx_HTTPDuration (sw_metrics s) k = []" for l k
    using assms(2) by (simp_all add: NewMetrics_def)
  have known: "l \<in> {l. mx_HTTPRequests (sw_metrics s') l \<noteq> 0} \<Longrightarrow> fst l \<in> set (route_labels (sd_prod sd))" for l
    using exact zero(1) [of l] by (auto simp: filter_empty_conv route_label_mem)
  have "length (route_labels (sd_prod sd)) \<le> 22" using route_labels_count(1,2) by (cases "sd_prod sd") simp_all
  then show ?thesis using exact known unfolding zero by auto
qed

text \<open>The method label has no such bound: a request with any other method makes series of its own.\<close>

lemma other_method_label:
  assumes "sq_method q \<notin> {''GET'', ''HEAD'', ''POST'', ''PATCH''}" "NewRouter sd q s = ((c, rid, line), s')"
  shows "mx_HTTPRequests (sw_metrics s') (''unmatched'', sq_method q, ''404'') = mx_HTTPRequests (sw_metrics s) (''unmatched'', sq_method q, ''404'') + 1"
proof -
  have none: "find_route (sd_prod sd) (sq_method q) (sq_path q) = None"
    using assms(1) find_route_mem [of "sd_prod sd" "sq_method q" "sq_path q"]
    by (cases "find_route (sd_prod sd) (sq_method q) (sq_path q)") (auto simp: routes_def v1_def split: if_splits)
  then have "c = Not_found" using assms(2) by (auto simp: NewRouter_def Let_def)
  moreover have "dec 404 = ''404''" by code_simp
  ultimately show ?thesis using NewRouter_metrics(1) [OF assms(2)] none by (simp add: route_label_def)
qed

end
