(* ===== verification/Login.thy ===== *)
theory Login
  imports Api
begin

text \<open>
  From the credentials of a client to the principal of a request: the token endpoint of
  \<open>cmd/auth-sim/main.go\<close> and, on the other side, the JWT options of
  \<open>internal/handler/http/middleware/auth.go\<close>. Signing and checking an RS256 signature are
  library code: \<open>sign\<close> makes a token, \<open>parse\<close> gives the content of a token whose signature
  is right. Constant-time comparison is equality. The last part is the key set document.
\<close>

section \<open>The token endpoint\<close>

record auth_client =
  au_Secret :: string
  au_MerchantID :: string
  au_Scope :: string

text \<open>The content of a token; instants in it are in seconds.\<close>

record jwt =
  jw_iss :: string
  jw_aud :: string
  jw_sub :: string
  jw_iat :: int
  jw_exp :: int
  jw_scope :: string
  jw_merchant_id :: "string option"

datatype token_answer =
    TokenError int string
  | TokenOK string int string

definition unix :: "time \<Rightarrow> int" where
  "unix t = t div 1000000000"

definition token_ttl :: int where
  "token_ttl = 15 * 60 * 1000000000"

definition token_endpoint ::
  "(string \<rightharpoonup> auth_client) \<Rightarrow> string \<Rightarrow> string \<Rightarrow> (jwt \<Rightarrow> string result) \<Rightarrow> time \<Rightarrow> string \<Rightarrow> string \<Rightarrow> string
   \<Rightarrow> token_answer" where
  "token_endpoint clients issuer audience sign now grant_type client_id client_secret =
     (if grant_type \<noteq> ''client_credentials'' then TokenError 400 ''unsupported_grant_type''
      else case clients client_id of
        None \<Rightarrow> TokenError 401 ''invalid_client''
      | Some cl \<Rightarrow>
          if au_Secret cl \<noteq> client_secret then TokenError 401 ''invalid_client''
          else case sign \<lparr>jw_iss = issuer, jw_aud = audience, jw_sub = client_id, jw_iat = unix now, jw_exp = unix (now + token_ttl),
                  jw_scope = au_Scope cl, jw_merchant_id = (if au_MerchantID cl \<noteq> '''' then Some (au_MerchantID cl) else None)\<rparr> of
            Inl err \<Rightarrow> TokenError 500 ''server_error''
          | Inr tok \<Rightarrow> TokenOK tok 900 (au_Scope cl))"

section \<open>What the API accepts\<close>

text \<open>
  \<open>jwt.ParseWithClaims\<close> with the options of \<open>Authenticate\<close>: the issuer, the audience, and an
  expiry that is not over.
\<close>

definition ParseWithClaims :: "(string \<Rightarrow> jwt option) \<Rightarrow> string \<Rightarrow> string \<Rightarrow> time \<Rightarrow> string \<Rightarrow> claims option" where
  "ParseWithClaims parse issuer audience now raw =
     (case parse raw of
        None \<Rightarrow> None
      | Some j \<Rightarrow>
          if jw_iss j = issuer \<and> jw_aud j = audience \<and> now < jw_exp j * 1000000000
          then Some \<lparr>cl_Subject = jw_sub j, cl_MerchantID = (case jw_merchant_id j of None \<Rightarrow> '''' | Some m \<Rightarrow> m), cl_Scope = jw_scope j\<rparr>
          else None)"

lemma token_answer_cases:
  "token_endpoint clients issuer audience sign now gt cid sec = TokenOK tok n scope \<Longrightarrow>
     \<exists>cl. clients cid = Some cl \<and> au_Secret cl = sec \<and> gt = ''client_credentials'' \<and> n = 900 \<and> scope = au_Scope cl
       \<and> sign \<lparr>jw_iss = issuer, jw_aud = audience, jw_sub = cid, jw_iat = unix now, jw_exp = unix (now + token_ttl),
            jw_scope = au_Scope cl, jw_merchant_id = (if au_MerchantID cl \<noteq> '''' then Some (au_MerchantID cl) else None)\<rparr> = Inr tok"
  by (auto simp: token_endpoint_def split: if_splits option.splits sum.splits)

lemma token_expiry: "unix (now + token_ttl) = unix now + 900"
  using div_mult_self1 [of 1000000000 now 900] by (simp add: unix_def token_ttl_def add.commute)

lemma bearer_header: "TrimPrefix (''Bearer '' @ tok) ''Bearer '' = tok"
  by (simp add: TrimPrefix_def has_prefix_def)

text \<open>C34: what a login is worth. A token comes only for the right secret of a known client. Sent as a bearer token it
  makes the API see that client, its merchant and its scopes, at any instant up to 15 minutes
  (to the second) after the login, and it is refused from then on; and an API for another
  issuer or another audience refuses it always.\<close>

theorem login_roundtrip:
  assumes "token_endpoint clients issuer audience sign now gt cid sec = TokenOK tok n scope"
    and "\<forall>j raw. sign j = Inr raw \<longrightarrow> raw \<noteq> '''' \<and> parse raw = Some j"
  shows "(\<exists>cl. clients cid = Some cl \<and> sec = au_Secret cl \<and> scope = au_Scope cl
      \<and> Authenticate (ParseWithClaims parse issuer' audience' later) path (''Bearer '' @ tok)
        = (if issuer' = issuer \<and> audience' = audience \<and> later < (unix now + 900) * 1000000000
           then Inr \<lparr>pr_ClientID = cid, pr_MerchantID = au_MerchantID cl, pr_Scopes = Fields scope []\<rparr>
           else Inl (unauthorized path ''token invalido'')))"
proof -
  from token_answer_cases [OF assms(1)] obtain cl where cl: "clients cid = Some cl" "au_Secret cl = sec" "scope = au_Scope cl"
    and signed: "sign \<lparr>jw_iss = issuer, jw_aud = audience, jw_sub = cid, jw_iat = unix now, jw_exp = unix (now + token_ttl),
       jw_scope = au_Scope cl, jw_merchant_id = (if au_MerchantID cl \<noteq> '''' then Some (au_MerchantID cl) else None)\<rparr> = Inr tok"
    by blast
  have tok: "tok \<noteq> ''''" "tok \<noteq> ''Bearer '' @ tok" using assms(2) signed by auto
  have "Authenticate (ParseWithClaims parse issuer' audience' later) path (''Bearer '' @ tok)
        = (if issuer' = issuer \<and> audience' = audience \<and> later < (unix now + 900) * 1000000000
           then Inr \<lparr>pr_ClientID = cid, pr_MerchantID = au_MerchantID cl, pr_Scopes = Fields scope []\<rparr>
           else Inl (unauthorized path ''token invalido''))"
    using tok assms(2) signed cl(3) by (auto simp: Authenticate_def bearer_header [simplified] Let_def ParseWithClaims_def token_expiry)
  then show ?thesis using cl by blast
qed

text \<open>One client, and a signature that is a single text.\<close>

definition sample_jwt :: jwt where
  "sample_jwt = \<lparr>jw_iss = ''i'', jw_aud = ''a'', jw_sub = ''app'', jw_iat = 100, jw_exp = 1000, jw_scope = ''x y'', jw_merchant_id = Some ''m_1''\<rparr>"

definition sample_clients :: "string \<rightharpoonup> auth_client" where
  "sample_clients = [''app'' \<mapsto> \<lparr>au_Secret = ''s'', au_MerchantID = ''m_1'', au_Scope = ''x y''\<rparr>]"

definition sample_sign :: "jwt \<Rightarrow> string result" where
  "sample_sign j = (if j = sample_jwt then Inr ''t'' else Inl (ErrorString ''''))"

theorem login_roundtrip_witness:
  "token_endpoint sample_clients ''i'' ''a'' sample_sign 100000000000 ''client_credentials'' ''app'' ''s'' = TokenOK ''t'' 900 ''x y''
   \<and> Authenticate (ParseWithClaims (\<lambda>raw. if raw = ''t'' then Some sample_jwt else None) ''i'' ''a'' 999999999999) ''/'' ''Bearer t''
     = Inr \<lparr>pr_ClientID = ''app'', pr_MerchantID = ''m_1'', pr_Scopes = Fields ''x y'' []\<rparr>"
proof
  show login: "token_endpoint sample_clients ''i'' ''a'' sample_sign 100000000000 ''client_credentials'' ''app'' ''s'' = TokenOK ''t'' 900 ''x y''"
    by (simp add: token_endpoint_def sample_clients_def sample_sign_def sample_jwt_def unix_def token_ttl_def)
  have "\<forall>j raw. sample_sign j = Inr raw \<longrightarrow> raw \<noteq> '''' \<and> (if raw = ''t'' then Some sample_jwt else None) = Some j"
    by (simp add: sample_sign_def)
  from login_roundtrip [OF login this, of "''i''" "''a''" 999999999999 "''/''"]
  show "Authenticate (ParseWithClaims (\<lambda>raw. if raw = ''t'' then Some sample_jwt else None) ''i'' ''a'' 999999999999) ''/'' ''Bearer t''
     = Inr \<lparr>pr_ClientID = ''app'', pr_MerchantID = ''m_1'', pr_Scopes = Fields ''x y'' []\<rparr>"
    by (simp add: unix_def sample_clients_def)
qed

section \<open>The key set\<close>

text \<open>
  The document \<open>/.well-known/jwks.json\<close>: the public key in JWK form, its numbers as the unpadded
  base64url text of their big-endian bytes.
\<close>

fun nat_bytes :: "nat \<Rightarrow> nat list" where
  "nat_bytes n = (if n = 0 then [] else nat_bytes (n div 256) @ [n mod 256])"

declare nat_bytes.simps [simp del]

fun sextets :: "nat list \<Rightarrow> nat list" where
  "sextets [] = []"
| "sextets [a] = [a div 4, a mod 4 * 16]"
| "sextets [a, b] = [a div 4, a mod 4 * 16 + b div 16, b mod 16 * 4]"
| "sextets (a # b # c # bs) = [a div 4, a mod 4 * 16 + b div 16, b mod 16 * 4 + c div 64, c mod 64] @ sextets bs"

definition url_alphabet :: string where
  "url_alphabet = ''ABCDEFGHIJKLMNOPQRSTUVWXYZabcdefghijklmnopqrstuvwxyz0123456789-_''"

definition RawURLEncoding :: "nat list \<Rightarrow> string" where
  "RawURLEncoding bs = map (\<lambda>d. url_alphabet ! d) (sextets bs)"

record jwk_document =
  jk_kty :: string
  jk_use :: string
  jk_alg :: string
  jk_kid :: string
  jk_n :: string
  jk_e :: string

definition jwk :: "nat \<Rightarrow> nat \<Rightarrow> string \<Rightarrow> jwk_document" where
  "jwk modulus exponent kid = \<lparr>jk_kty = ''RSA'', jk_use = ''sig'', jk_alg = ''RS256'', jk_kid = kid,
     jk_n = RawURLEncoding (nat_bytes modulus), jk_e = RawURLEncoding (nat_bytes exponent)\<rparr>"

definition jwks_endpoint :: "nat \<Rightarrow> nat \<Rightarrow> jwk_document list" where
  "jwks_endpoint modulus exponent = [jwk modulus exponent ''dev-key-1'']"

text \<open>How a client of the document reads it (RFC 7518).\<close>

fun unsextets :: "nat list \<Rightarrow> nat list" where
  "unsextets (w # x # y # z # ds) = [w * 4 + x div 16, x mod 16 * 16 + y div 4, y mod 4 * 64 + z] @ unsextets ds"
| "unsextets [w, x, y] = [w * 4 + x div 16, x mod 16 * 16 + y div 4]"
| "unsextets [w, x] = [w * 4 + x div 16]"
| "unsextets _ = []"

definition letter_value :: "char \<Rightarrow> nat" where
  "letter_value c = length (takeWhile (\<lambda>x. x \<noteq> c) url_alphabet)"

definition read_number :: "string \<Rightarrow> nat" where
  "read_number s = foldl (\<lambda>n b. n * 256 + b) 0 (unsextets (map letter_value s))"

lemma nat_bytes_value: "foldl (\<lambda>n b. n * 256 + b) 0 (nat_bytes n) = n"
  by (induction n rule: nat_bytes.induct) (simp add: nat_bytes.simps)

lemma nat_bytes_range: "list_all (\<lambda>b. b < 256) (nat_bytes n)"
  by (induction n rule: nat_bytes.induct) (simp add: nat_bytes.simps)

lemma sextets_range: "list_all (\<lambda>b. b < 256) bs \<Longrightarrow> list_all (\<lambda>d. d < 64) (sextets bs)"
  by (induction bs rule: sextets.induct) (simp_all, linarith+)

lemma unsextets_sextets: "list_all (\<lambda>b. b < 256) bs \<Longrightarrow> unsextets (sextets bs) = bs"
proof (induction bs rule: sextets.induct)
  case (4 a b c bs)
  have "b div 16 < 16" "c div 64 < 4" by (rule less_mult_imp_div_less, use 4 in simp)+
  then have "(a mod 4 * 16 + b div 16) div 16 = a mod 4" "(a mod 4 * 16 + b div 16) mod 16 = b div 16"
    "(b mod 16 * 4 + c div 64) div 4 = b mod 16" "(b mod 16 * 4 + c div 64) mod 4 = c div 64" by simp_all
  then show ?case using 4 by simp
next
  case (3 a b)
  have "b div 16 < 16" by (rule less_mult_imp_div_less, use 3 in simp)
  then have "(a mod 4 * 16 + b div 16) div 16 = a mod 4" "(a mod 4 * 16 + b div 16) mod 16 = b div 16" by simp_all
  then show ?case by simp
qed simp_all

lemma alphabet_facts: "distinct url_alphabet" "length url_alphabet = 64"
  by code_simp+

lemma letter_value_nth: "d < 64 \<Longrightarrow> letter_value (url_alphabet ! d) = d"
proof -
  assume d: "d < 64"
  have "takeWhile (\<lambda>x. x \<noteq> url_alphabet ! d) url_alphabet = take d url_alphabet"
    using d alphabet_facts by (intro takeWhile_eq_take_P_nth) (auto simp: nth_eq_iff_index_eq)
  then show ?thesis using d alphabet_facts(2) by (simp add: letter_value_def)
qed

lemma read_number_encoded: "read_number (RawURLEncoding (nat_bytes n)) = n"
proof -
  have "map letter_value (RawURLEncoding (nat_bytes n)) = sextets (nat_bytes n)"
    using sextets_range [OF nat_bytes_range, of n]
    by (auto simp: RawURLEncoding_def list_all_iff letter_value_nth intro!: map_idI)
  then show ?thesis by (simp add: read_number_def unsextets_sextets [OF nat_bytes_range] nat_bytes_value)
qed

text \<open>The document gives whoever reads it the very key the tokens are signed with: modulus and exponent of
  any size come back, and two keys never have the same document.\<close>

theorem key_set_correct:
  "map (\<lambda>k. (read_number (jk_n k), read_number (jk_e k), jk_alg k)) (jwks_endpoint modulus exponent) = [(modulus, exponent, ''RS256'')]
   \<and> (jwks_endpoint modulus exponent = jwks_endpoint modulus' exponent' \<longleftrightarrow> modulus = modulus' \<and> exponent = exponent')"
  using read_number_encoded by (auto simp: jwks_endpoint_def jwk_def) metis+

end
