(* ===== verification/Processes.thy ===== *)
theory Processes
  imports Delivery Pricing Router Login Card_Vault Api_Guarantees Settling
begin

text \<open>
  The programs of \<open>cmd\<close> and the certificates between them: \<open>internal/infrastructure/grpcclient/tls.go\<close>,
  \<open>cmd/vault/main.go\<close>, \<open>cmd/issuer-sim/main.go\<close>, \<open>cmd/settlement/main.go\<close>, the token server
  \<open>cmd/auth-sim/main.go\<close>, the consumers \<open>cmd/scheduler/main.go\<close> and \<open>cmd/notifier/main.go\<close>, and the
  start and wiring of \<open>cmd/api/main.go\<close>. A program stops with exit code 1 at the first component that does not start.
\<close>

section \<open>Starting\<close>

text \<open>The chain of \<open>must\<close>: the first component with an error.\<close>

fun first_failure :: "(string \<times> go_error option) list \<Rightarrow> string option" where
  "first_failure [] = None"
| "first_failure ((what, err) # rest) = (case err of Some e \<Rightarrow> Some what | None \<Rightarrow> first_failure rest)"

definition error_of :: "'a result \<Rightarrow> go_error option" where
  "error_of r = (case r of Inl e \<Rightarrow> Some e | Inr x \<Rightarrow> None)"

lemma first_failure_None: "first_failure cs = None \<longleftrightarrow> (\<forall>c \<in> set cs. snd c = None)"
  by (induction cs rule: first_failure.induct) (auto split: option.splits)

section \<open>Certificates (grpcclient/tls.go)\<close>

text \<open>
  \<open>tls.Config\<close> as far as it is set. Reading a key pair, reading the file of the authority and
  parsing it are library code: \<open>None\<close> is a file without a certificate.
\<close>

record tls_files =
  tf_CertFile :: string
  tf_KeyFile :: string
  tf_CAFile :: string

record tls_config =
  tc_Certificate :: string
  tc_RootCAs :: string
  tc_ClientCAs :: "string option"
  tc_RequireClientCert :: bool
  tc_MinVersion13 :: bool

record tls_library =
  tl_LoadX509KeyPair :: "string \<Rightarrow> string \<Rightarrow> string result"
  tl_ReadFile :: "string \<Rightarrow> string result"
  tl_AppendCertsFromPEM :: "string \<Rightarrow> string option"

definition LoadClientTLS :: "tls_library \<Rightarrow> tls_files \<Rightarrow> tls_config option result" where
  "LoadClientTLS lib f =
     (if tf_CertFile f = '''' then Inr None
      else case tl_LoadX509KeyPair lib (tf_CertFile f) (tf_KeyFile f) of
        Inl err \<Rightarrow> Inl (Errorf [] err)
      | Inr cert \<Rightarrow>
          (case tl_ReadFile lib (tf_CAFile f) of
             Inl err \<Rightarrow> Inl (Errorf [] err)
           | Inr ca \<Rightarrow>
               (case tl_AppendCertsFromPEM lib ca of
                  None \<Rightarrow> Inl (ErrorString ''CA invalida'')
                | Some pool \<Rightarrow> Inr (Some \<lparr>tc_Certificate = cert, tc_RootCAs = pool, tc_ClientCAs = None,
                    tc_RequireClientCert = False, tc_MinVersion13 = True\<rparr>))))"

definition LoadServerTLS :: "tls_library \<Rightarrow> tls_files \<Rightarrow> tls_config option result" where
  "LoadServerTLS lib f =
     (case LoadClientTLS lib f of
        Inl err \<Rightarrow> Inl err
      | Inr None \<Rightarrow> Inr None
      | Inr (Some cfg) \<Rightarrow> Inr (Some (cfg\<lparr>tc_ClientCAs := Some (tc_RootCAs cfg), tc_RequireClientCert := True\<rparr>)))"

datatype credentials = Insecure | TLS tls_config

definition DialCredentials :: "tls_config option \<Rightarrow> credentials" where
  "DialCredentials cfg = (case cfg of None \<Rightarrow> Insecure | Some c \<Rightarrow> TLS c)"

definition config_files :: "config \<Rightarrow> tls_files" where
  "config_files cfg = \<lparr>tf_CertFile = cf_TLSCertFile cfg, tf_KeyFile = cf_TLSKeyFile cfg, tf_CAFile = cf_TLSCAFile cfg\<rparr>"

section \<open>The vault's server (cmd/vault/main.go)\<close>

text \<open>How the program goes on after its start: it serves, with or without TLS, or it exits.\<close>

datatype server_start = Exit string | Serving credentials

definition vault_main ::
  "tls_library \<Rightarrow> config \<Rightarrow> go_error option \<Rightarrow> aead result \<Rightarrow> unit result \<Rightarrow> go_error option \<Rightarrow> server_start" where
  "vault_main lib cfg tracing cipher db listen =
     (case first_failure [(''tracing'', tracing), (''VAULT_KEY_BASE64'', error_of cipher), (''banco'', error_of db)] of
        Some what \<Rightarrow> Exit what
      | None \<Rightarrow>
          (case LoadServerTLS lib (config_files cfg) of
             Inl err \<Rightarrow> Exit ''tls''
           | Inr tlsCfg \<Rightarrow>
               if tlsCfg = None \<and> IsProd cfg then Exit ''vault em producao exige mTLS''
               else case listen of
                 Some err \<Rightarrow> Exit ''listen''
               | None \<Rightarrow> Serving (case tlsCfg of None \<Rightarrow> Insecure | Some c \<Rightarrow> TLS c)))"

text \<open>The issuer's simulator does not ask for certificates in production.\<close>

definition issuer_main :: "tls_library \<Rightarrow> config \<Rightarrow> go_error option \<Rightarrow> go_error option \<Rightarrow> server_start" where
  "issuer_main lib cfg tracing listen =
     (case first_failure [(''tracing'', tracing)] of
        Some what \<Rightarrow> Exit what
      | None \<Rightarrow>
          (case LoadServerTLS lib (config_files cfg) of
             Inl err \<Rightarrow> Exit ''tls''
           | Inr tlsCfg \<Rightarrow>
               (case listen of
                  Some err \<Rightarrow> Exit ''listen''
                | None \<Rightarrow> Serving (case tlsCfg of None \<Rightarrow> Insecure | Some c \<Rightarrow> TLS c))))"

text \<open>C36: the vault in production serves only clients with a certificate of the authority its files
  name, over TLS 1.3, and only with a working key and database; and a client that loads the
  same files presents a certificate and trusts exactly that authority.\<close>

theorem vault_requires_mtls:
  assumes "vault_main lib cfg tracing cipher db listen = Serving creds" "IsProd cfg"
  shows "cipher \<noteq> Inl e \<and> db \<noteq> Inl e \<and> (case creds of
      Insecure \<Rightarrow> False
    | TLS c \<Rightarrow> tc_RequireClientCert c \<and> tc_ClientCAs c = Some (tc_RootCAs c) \<and> tc_MinVersion13 c
        \<and> (case LoadClientTLS lib (config_files cfg) of
             Inr (Some cl) \<Rightarrow> DialCredentials (Some cl) = TLS cl \<and> tc_Certificate cl = tc_Certificate c
               \<and> tc_ClientCAs c = Some (tc_RootCAs cl)
           | _ \<Rightarrow> False))"
  using assms by (auto simp: vault_main_def LoadServerTLS_def LoadClientTLS_def DialCredentials_def error_of_def
      split: option.splits sum.splits if_splits)

section \<open>The settlement worker (cmd/settlement/main.go)\<close>

definition settlement_day :: "config \<Rightarrow> time \<Rightarrow> time result" where
  "settlement_day cfg now = (if cf_SettlementDate cfg \<noteq> '''' then time_Parse (cf_SettlementDate cfg) else Inr now)"

text \<open>
  The program: its components, the day, the settlement in batches of 500, and, after a report,
  a relay of its own for 30 seconds, in \<open>rounds\<close> of 100 events. The result has the exit code;
  None is a loop that does not end within the fuel.
\<close>

definition settlement_main ::
  "nat \<Rightarrow> services \<Rightarrow> (string \<Rightarrow> bool result) \<Rightarrow> (nat \<Rightarrow> time) \<Rightarrow> (nat list \<times> nat) list \<Rightarrow> config
   \<Rightarrow> (string \<times> go_error option) list \<Rightarrow> time \<Rightarrow> world \<times> kafka \<Rightarrow> (int \<times> world \<times> kafka) option" where
  "settlement_main fuel sv acquire clock rounds cfg components now s =
     (case s of (w, k) \<Rightarrow>
        case first_failure components of
          Some what \<Rightarrow> Some (1, w, k)
        | None \<Rightarrow>
            (case settlement_day cfg now of
               Inl err \<Rightarrow> Some (1, w, k)
             | Inr day \<Rightarrow>
                 (case SettleDue_Execute fuel sv BrazilCalendar acquire 500 clock day w of
                    None \<Rightarrow> None
                  | Some (Inl err, w') \<Rightarrow> Some (1, w', k)
                  | Some (Inr rep, w') \<Rightarrow> Some (0, relay_rounds 100 rounds (w', k)))))"

lemma relay_rounds_tables:
  "t_receivables (w_db (fst (relay_rounds limit rounds (w, k)))) = t_receivables (w_db w)"
proof (induction rounds arbitrary: w k)
  case (Cons rd rounds)
  obtain held delivered where rd: "rd = (held, delivered)" by fastforce
  obtain r w' k' where run: "publishBatch held limit delivered (w, k) = (r, w', k')" by (metis prod.exhaust)
  show ?case using Cons.IH [of w' k'] batch_tables [OF run] by (simp add: rd run)
qed simp

lemma SettleDue_later: "SettleDue_Execute fuel sv cal acquire n clock date w = Some (r, w') \<Longrightarrow> w_faults w' = w_faults w"
  by (auto simp: SettleDue_Execute_def Let_def world_later_def split: if_splits sum.splits option.splits dest!: execute_loop_later)


section \<open>The API's wiring (cmd/api/main.go)\<close>

text \<open>What the API is built from besides the configuration, as its packages give it.\<close>

record api_parts =
  ap_text :: "go_error \<Rightarrow> string"
  ap_verify :: "string \<Rightarrow> claims option"
  ap_url_parse :: url_parser
  ap_vault :: vault
  ap_tokenize :: "string \<Rightarrow> string \<Rightarrow> tokenized_card result"
  ap_issuer :: issuer
  ap_math_Pow :: "rat \<Rightarrow> rat \<Rightarrow> rat option"
  ap_check_liens :: "string \<Rightarrow> time \<Rightarrow> lien list result"
  ap_transfer :: "string list \<Rightarrow> string \<Rightarrow> bool"

definition api_deps :: "api_parts \<Rightarrow> config \<Rightarrow> deps" where
  "api_deps parts cfg =
     \<lparr>dp_text = ap_text parts, dp_verify = ap_verify parts, dp_url_parse = ap_url_parse parts,
      dp_vault = ap_vault parts, dp_tokenize = ap_tokenize parts, dp_issuer = ap_issuer parts,
      dp_rules = [MaxAmountRule (cf_MaxTxAmount cfg)], dp_pricer = PresentValue (ap_math_Pow parts),
      dp_check_liens = ap_check_liens parts, dp_transfer = ap_transfer parts\<rparr>"

text \<open>C23: through the API as it is wired, from the request to the database, a POST of a transaction either
  changes nothing in the database, or it is answered with 201 and has stored exactly one
  transaction and one event: the merchant's whose token came with the request, with the
  requested amount, which is within the limit of the configuration.\<close>

theorem api_sale_within_limit:
  assumes "serve (api_deps parts cfg) (POST_transactions bound) rq w = (rp, w')"
  shows "w_db w' = w_db w \<or>
    (\<exists>t row p req. rp = json_response 201 [(''Location'', ''/v1/transactions/'' @ tx_id t)] (JTransaction (toTransactionResponse t))
       \<and> w_db w' = (w_db w)\<lparr>t_transactions := t_transactions (w_db w) @ [t], t_outbox := t_outbox (w_db w) @ [row]\<rparr>
       \<and> Authenticate (ap_verify parts) (hq_path rq) (hq_auth rq) = Inr p \<and> bound = Inr req
       \<and> tx_merchantID t = pr_MerchantID p \<and> tx_merchantID t \<noteq> '''' \<and> tx_amount t = aq_Amount req
       \<and> sint (tx_amount t) \<le> sint (cf_MaxTxAmount cfg))"
proof -
  define d where "d = api_deps parts cfg"
  have limit: "MaxAmountRule (cf_MaxTxAmount cfg) \<in> set (dp_rules d)" by (simp add: d_def api_deps_def)
  have verify: "dp_verify d = ap_verify parts" by (simp add: d_def api_deps_def)
  show ?thesis
  proof (cases "w_db w' = w_db w")
    case False
    then obtain p where p: "Authenticate (ap_verify parts) (hq_path rq) (hq_auth rq) = Inr p"
      and 1: "TransactionHandler_Authorize d p rq bound w = (rp, w')"
      using assms by (auto simp: serve_def reply_def verify simp flip: d_def split: sum.splits option.splits)
    then obtain req where req: "pr_MerchantID p \<noteq> ''''" "bound = Inr req"
      and 2: "run_use_case d rq (Authorize_Execute (dp_vault d) (dp_issuer d) (dp_rules d) (hq_now rq) (hq_now2 rq)
         \<lparr>auc_MerchantID = pr_MerchantID p, auc_Amount = aq_Amount req, auc_Product = aq_Product req,
          auc_Installments = aq_Installments req, auc_CardToken = aq_CardToken req\<rparr>)
       (\<lambda>tx. json_response 201 [(''Location'', ''/v1/transactions/'' @ tx_id tx)] (JTransaction (toTransactionResponse tx))) w = (rp, w')"
      using False by (auto simp: TransactionHandler_Authorize_def requireMerchant_def bind_json_def reply_def
          split: if_splits sum.splits)
    obtain r w1 where 3: "Authorize_Execute (dp_vault d) (dp_issuer d) (dp_rules d) (hq_now rq) (hq_now2 rq)
         \<lparr>auc_MerchantID = pr_MerchantID p, auc_Amount = aq_Amount req, auc_Product = aq_Product req,
          auc_Installments = aq_Installments req, auc_CardToken = aq_CardToken req\<rparr> w = (r, w1)" by fastforce
    show ?thesis
    proof (cases r)
      case (Inl e)
      then have "w_db w1 = w_db w"
        using 3 clean_use_cases [THEN conjunct2, THEN conjunct2, THEN conjunct1] unfolding clean_def by blast
      then show ?thesis using 2 3 Inl by (simp add: run_use_case_def)
    next
      case (Inr t)
      note sale = authorized_sale [OF 3 [unfolded Inr], of "cf_MaxTxAmount cfg"]
      have res: "rp = json_response 201 [(''Location'', ''/v1/transactions/'' @ tx_id t)] (JTransaction (toTransactionResponse t))"
        "w' = w1" using 2 3 Inr by (simp_all add: run_use_case_def)
      have "tx_merchantID t = pr_MerchantID p" "tx_amount t = aq_Amount req" using sale by simp_all
      moreover have "sint (tx_amount t) \<le> sint (cf_MaxTxAmount cfg)" using sale limit by blast
      moreover obtain row where "w_db w1 = (w_db w)\<lparr>t_transactions := t_transactions (w_db w) @ [t], t_outbox := t_outbox (w_db w) @ [row]\<rparr>"
        using sale by blast
      ultimately show ?thesis using res p req by metis
    qed
  qed simp
qed

section \<open>Clients of the gRPC servers\<close>

definition NewIssuerClient :: "(string \<Rightarrow> credentials \<Rightarrow> go_error option) \<Rightarrow> string \<Rightarrow> tls_config option \<Rightarrow> credentials result" where
  "NewIssuerClient dial addr cfg =
     (case dial addr (DialCredentials cfg) of
        Some err \<Rightarrow> Inl (Errorf [''conectar ao emissor''] err)
      | None \<Rightarrow> Inr (DialCredentials cfg))"

definition NewVaultClient :: "(string \<Rightarrow> credentials \<Rightarrow> go_error option) \<Rightarrow> string \<Rightarrow> tls_config option \<Rightarrow> credentials result" where
  "NewVaultClient dial addr cfg =
     (case dial addr (DialCredentials cfg) of
        Some err \<Rightarrow> Inl (Errorf [''conectar ao vault''] err)
      | None \<Rightarrow> Inr (DialCredentials cfg))"

definition LoadPublicKey :: "(string \<Rightarrow> string result) \<Rightarrow> (string \<Rightarrow> 'key result) \<Rightarrow> string \<Rightarrow> 'key result" where
  "LoadPublicKey ReadFile ParsePEM path =
     (case ReadFile path of Inl err \<Rightarrow> Inl (Errorf [''ler chave publica''] err) | Inr pem \<Rightarrow> ParsePEM pem)"

section \<open>The API's start (cmd/api/main.go)\<close>

text \<open>What the start meets outside: the library calls and how each of them ends.\<close>

record 'key api_outside =
  ao_tls :: tls_library
  ao_new_exporter :: "string \<Rightarrow> go_error option"
  ao_merge :: "go_error option"
  ao_connect :: "string \<Rightarrow> go_error option"
  ao_gorm :: "go_error option"
  ao_dial :: "string \<Rightarrow> credentials \<Rightarrow> go_error option"
  ao_ReadFile :: "string \<Rightarrow> string result"
  ao_ParsePEM :: "string \<Rightarrow> 'key result"
  ao_Unmarshal :: "string \<Rightarrow> lien_row list result"

text \<open>The parts the start has got, or the component at which the program exits with code 1.\<close>

record 'key api_started =
  st_tracing :: "string option"
  st_issuer :: credentials
  st_vault :: credentials
  st_registry :: registry
  st_public_key :: 'key

definition must :: "string \<Rightarrow> 'a result \<Rightarrow> ('a \<Rightarrow> string + 'b) \<Rightarrow> string + 'b" where
  "must what r k = (case r of Inl err \<Rightarrow> Inl what | Inr x \<Rightarrow> k x)"

definition result_of :: "go_error option \<Rightarrow> unit result" where
  "result_of e = (case e of Some err \<Rightarrow> Inl err | None \<Rightarrow> Inr ())"

definition api_start :: "'key api_outside \<Rightarrow> config \<Rightarrow> string + 'key api_started" where
  "api_start out cfg =
     must ''tracing'' (SetupTracing (ao_new_exporter out) (ao_merge out) (cf_OTLPEndpoint cfg)) (\<lambda>tracing.
     must ''banco'' (result_of (ao_connect out (cf_DatabaseURL cfg))) (\<lambda>_.
     must ''gorm'' (result_of (ao_gorm out)) (\<lambda>_.
     must ''tls'' (LoadClientTLS (ao_tls out) (config_files cfg)) (\<lambda>tlsCfg.
     must ''emissor'' (NewIssuerClient (ao_dial out) (cf_IssuerAddr cfg) tlsCfg) (\<lambda>issuer.
     must ''vault'' (NewVaultClient (ao_dial out) (cf_VaultAddr cfg) tlsCfg) (\<lambda>vault.
     must ''registradora'' (NewFake (ao_ReadFile out) (ao_Unmarshal out) (cf_RegistryLiensFile cfg)) (\<lambda>reg.
     must ''chave publica JWT'' (LoadPublicKey (ao_ReadFile out) (ao_ParsePEM out) (cf_JWTPublicKeyFile cfg)) (\<lambda>key.
       Inr \<lparr>st_tracing = tracing, st_issuer = issuer, st_vault = vault, st_registry = reg, st_public_key = key\<rparr>))))))))"

text \<open>The router of a started API: 24 hours for an idempotency key, the liens of its registry, tokens of its
  own issuer and audience under the loaded key. The rest is an argument as in \<open>api_deps\<close>.\<close>

definition api_server ::
  "('key \<Rightarrow> string \<Rightarrow> jwt option) \<Rightarrow> time \<Rightarrow> api_parts \<Rightarrow> binders \<Rightarrow> (string \<Rightarrow> string) \<Rightarrow> (json \<Rightarrow> string) \<Rightarrow> int
   \<Rightarrow> config \<Rightarrow> 'key api_started \<Rightarrow> server" where
  "api_server parse now parts binders sha encode openapi cfg st =
     \<lparr>sd_log = NewLogger (cf_LogLevel cfg) ''api'',
      sd_deps = api_deps (parts\<lparr>ap_verify := ParseWithClaims (parse (st_public_key st)) (cf_JWTIssuer cfg) (cf_JWTAudience cfg) now,
        ap_check_liens := CheckLiens (st_registry st)\<rparr>) cfg,
      sd_binders = binders, sd_sha = sha, sd_encode = encode, sd_ttl = 24 * 3600 * 1000000000, sd_openapi = openapi,
      sd_prod = IsProd cfg\<rparr>"

text \<open>The API has started only with every component, and then one configuration of certificates is behind
  both its clients: with a certificate file, neither of them speaks without TLS.\<close>

lemma api_started:
  assumes "api_start out cfg = Inr st"
  shows "\<exists>tlsCfg. LoadClientTLS (ao_tls out) (config_files cfg) = Inr tlsCfg \<and> st_issuer st = DialCredentials tlsCfg
    \<and> st_vault st = DialCredentials tlsCfg \<and> (cf_TLSCertFile cfg \<noteq> '''' \<longrightarrow> st_issuer st \<noteq> Insecure)
    \<and> ao_connect out (cf_DatabaseURL cfg) = None
    \<and> LoadPublicKey (ao_ReadFile out) (ao_ParsePEM out) (cf_JWTPublicKeyFile cfg) = Inr (st_public_key st)"
  using assms
  by (auto simp: api_start_def must_def result_of_def NewIssuerClient_def NewVaultClient_def DialCredentials_def
      LoadClientTLS_def config_files_def split: sum.splits option.splits if_splits)

section \<open>The token server's start (cmd/auth-sim/main.go)\<close>

text \<open>The private key and the clients it serves tokens with, or the message it exits with.\<close>

definition auth_main ::
  "(string \<Rightarrow> string result) \<Rightarrow> (string \<Rightarrow> 'key result) \<Rightarrow> (string \<Rightarrow> (string \<rightharpoonup> auth_client) result) \<Rightarrow> (string \<Rightarrow> string) \<Rightarrow> config
   \<Rightarrow> string + 'key \<times> (string \<rightharpoonup> auth_client)" where
  "auth_main ReadFile ParsePEM Unmarshal env cfg =
     must ''ler chave privada'' (ReadFile (cf_JWTPrivateKeyFile cfg)) (\<lambda>keyPEM.
     must ''chave privada invalida'' (ParsePEM keyPEM) (\<lambda>priv.
     must ''ler clients.json'' (ReadFile (getenv env ''AUTH_CLIENTS_FILE'' ''certs/clients.json'')) (\<lambda>raw.
     must ''clients.json invalido'' (Unmarshal raw) (\<lambda>clients. Inr (priv, clients)))))"

text \<open>
  The two programs together: with one issuer, one audience and a pair of keys, what the token
  server gives a client for its secret is a principal of the API for 15 minutes, with the
  merchant and the scopes of the client's entry in the file.
\<close>

lemma started_login:
  assumes auth: "auth_main ReadFile ParsePEM Unmarshal env acfg = Inr (priv, clients)"
    and token: "token_endpoint clients (cf_JWTIssuer acfg) (cf_JWTAudience acfg) (sign priv) now ''client_credentials'' cid sec = TokenOK tok n scope"
    and api: "api_start out cfg = Inr st"
    and keys: "\<And>j raw. sign priv j = Inr raw \<Longrightarrow> raw \<noteq> '''' \<and> parse (st_public_key st) raw = Some j"
    and same: "cf_JWTIssuer cfg = cf_JWTIssuer acfg" "cf_JWTAudience cfg = cf_JWTAudience acfg"
    and later: "later < (unix now + 900) * 1000000000"
  shows "\<exists>raw cl. ReadFile (getenv env ''AUTH_CLIENTS_FILE'' ''certs/clients.json'') = Inr raw \<and> Unmarshal raw = Inr clients
    \<and> clients cid = Some cl \<and> au_Secret cl = sec
    \<and> Authenticate (dp_verify (sd_deps (api_server parse later parts binders sha encode openapi cfg st))) path (''Bearer '' @ tok)
      = Inr \<lparr>pr_ClientID = cid, pr_MerchantID = au_MerchantID cl, pr_Scopes = Fields (au_Scope cl) []\<rparr>"
proof -
  obtain raw where raw: "ReadFile (getenv env ''AUTH_CLIENTS_FILE'' ''certs/clients.json'') = Inr raw" "Unmarshal raw = Inr clients"
    using auth by (auto simp: auth_main_def must_def split: sum.splits)
  from token_answer_cases [OF token] obtain cl where cl: "clients cid = Some cl" "au_Secret cl = sec"
    and signed: "sign priv \<lparr>jw_iss = cf_JWTIssuer acfg, jw_aud = cf_JWTAudience acfg, jw_sub = cid, jw_iat = unix now, jw_exp = unix (now + token_ttl),
       jw_scope = au_Scope cl, jw_merchant_id = (if au_MerchantID cl \<noteq> '''' then Some (au_MerchantID cl) else None)\<rparr> = Inr tok"
    by blast
  have tok: "tok \<noteq> ''''" "tok \<noteq> ''Bearer '' @ tok" using keys [OF signed] by auto
  have verify: "dp_verify (sd_deps (api_server parse later parts binders sha encode openapi cfg st))
      = ParseWithClaims (parse (st_public_key st)) (cf_JWTIssuer cfg) (cf_JWTAudience cfg) later"
    by (simp add: api_server_def api_deps_def)
  have "Authenticate (dp_verify (sd_deps (api_server parse later parts binders sha encode openapi cfg st))) path (''Bearer '' @ tok)
      = Inr \<lparr>pr_ClientID = cid, pr_MerchantID = au_MerchantID cl, pr_Scopes = Fields (au_Scope cl) []\<rparr>"
    unfolding verify using tok keys [OF signed] later
    by (simp add: Authenticate_def bearer_header [simplified] Let_def ParseWithClaims_def same token_expiry)
  then show ?thesis using raw cl by blast
qed

section \<open>The consumers (cmd/scheduler/main.go, cmd/notifier/main.go)\<close>

text \<open>
  A consumer program: exit code 1 at the first component that does not start, else it consumes
  the messages it is given from \<open>offset\<close> on, until it is stopped, and ends with 0; the offset in
  the result is the committed one.
\<close>

definition worker_main ::
  "(string \<times> go_error option) list \<Rightarrow> (go_error \<Rightarrow> string) \<Rightarrow> 'w handler \<Rightarrow> (nat \<Rightarrow> bool) \<Rightarrow> nat \<Rightarrow> message list \<Rightarrow> 'w \<times> kafka
   \<Rightarrow> int \<times> nat \<times> 'w \<times> kafka" where
  "worker_main components text h commits offset msgs s =
     (case first_failure components of
        Some what \<Rightarrow> (1, offset, s)
      | None \<Rightarrow> (0, consume text h commits offset offset msgs s))"

definition scheduler_main ::
  "go_error option \<Rightarrow> go_error option \<Rightarrow> go_error option \<Rightarrow> registry result \<Rightarrow> (nat \<Rightarrow> unit_total list \<Rightarrow> bool) \<Rightarrow> (nat \<Rightarrow> time)
   \<Rightarrow> (go_error \<Rightarrow> string) \<Rightarrow> (nat \<Rightarrow> bool) \<Rightarrow> nat \<Rightarrow> message list \<Rightarrow> (world \<times> nat) \<times> kafka \<Rightarrow> int \<times> nat \<times> (world \<times> nat) \<times> kafka" where
  "scheduler_main tracing db gorm reg register clock text commits offset msgs s =
     worker_main [(''tracing'', tracing), (''banco'', db), (''gorm'', gorm), (''registradora'', error_of reg)]
       text (scheduler_handler (\<lambda>_ w. w) register clock) commits offset msgs s"

definition notifier_main ::
  "config \<Rightarrow> go_error option \<Rightarrow> go_error option \<Rightarrow> (string \<Rightarrow> string \<Rightarrow> string) \<Rightarrow> (string \<Rightarrow> bool)
   \<Rightarrow> (nat \<Rightarrow> string \<Rightarrow> string \<Rightarrow> (string \<times> string) list \<Rightarrow> transport_end) \<Rightarrow> (event \<Rightarrow> string)
   \<Rightarrow> (go_error \<Rightarrow> string) \<Rightarrow> (nat \<Rightarrow> bool) \<Rightarrow> nat \<Rightarrow> message list \<Rightarrow> hook_state \<times> kafka \<Rightarrow> int \<times> nat \<times> hook_state \<times> kafka" where
  "notifier_main cfg db gorm hmac valid_url transport body text commits offset msgs s =
     worker_main [(''banco'', db), (''gorm'', gorm)] text
       (notifier_handler (\<lambda>_ w. w) hmac (\<lambda>n. HTTPSender_Send valid_url (transport n)) (cf_WebhookSecret cfg) body)
       commits offset msgs s"

text \<open>A run of the notifier program over the messages of a partition is a path of the system of theory
  \<open>Delivery\<close>, so what holds there of the committed messages holds of this program.\<close>

lemma notifier_main_path:
  assumes "notifier_main cfg db gorm hmac valid_url transport body text commits (gr_fetched s tp) msgs (gr_state s, gr_dlq s) = (code, c, x, dlq)"
    and "gr_committed s tp = gr_fetched s tp" "fst tp \<in> set notifier_topics"
    and "partition_of part tp (gr_log s) = take (gr_fetched s tp) (partition_of part tp (gr_log s)) @ msgs @ later"
  shows "code = 1 \<and> x = gr_state s \<and> dlq = gr_dlq s \<or> code = 0
    \<and> (\<exists>s'. group_reach late part notifier_topics (is_notifier hmac (cf_WebhookSecret cfg) body) hook_others s s'
          \<and> gr_state s' = x \<and> gr_dlq s' = dlq \<and> gr_committed s' tp = c)"
proof (cases "first_failure [(''banco'', db), (''gorm'', gorm)]")
  case (Some what)
  then show ?thesis using assms(1) by (simp add: notifier_main_def worker_main_def)
next
  case None
  define h where "h = notifier_handler (\<lambda>_ w. w) hmac (\<lambda>n. HTTPSender_Send valid_url (transport n)) (cf_WebhookSecret cfg) body"
  have "is_notifier hmac (cf_WebhookSecret cfg) body h" unfolding is_notifier_def h_def using acq_refl by blast
  moreover have "consume text h commits (gr_fetched s tp) (gr_committed s tp) msgs (gr_state s, gr_dlq s) = (c, x, dlq)" "code = 0"
    using assms(1,2) None by (simp_all add: notifier_main_def worker_main_def h_def)
  ultimately show ?thesis using consume_group [OF _ assms(3) _ assms(4)] by metis
qed

section \<open>Sample runs\<close>

definition sample_env :: "string \<Rightarrow> string" where
  "sample_env key = (if key = ''MAX_TX_AMOUNT'' then ''400000'' else if key = ''APP_ENV'' then ''prod''
     else if key = ''TLS_CERT_FILE'' then ''c'' else '''')"

definition sample_config :: config where
  "sample_config = config_Load (\<lambda>_. None) sample_env"

definition sample_tls :: tls_library where
  "sample_tls = \<lparr>tl_LoadX509KeyPair = (\<lambda>c k. Inr c), tl_ReadFile = Inr, tl_AppendCertsFromPEM = Some\<rparr>"

lemma sample_config_facts: "IsProd sample_config" "cf_MaxTxAmount sample_config = 400000"
  "cf_TLSCertFile sample_config = ''c''" "cf_SettlementDate sample_config = ''''"
proof -
  have "ParseInt ''400000'' = Some 400000" by (simp add: ParseInt_def undec_def is_digit_def byte_def)
  then show "IsProd sample_config" "cf_MaxTxAmount sample_config = 400000"
    "cf_TLSCertFile sample_config = ''c''" "cf_SettlementDate sample_config = ''''"
    by (simp_all add: sample_config_def IsProd_def config_Load_def getenv_def sample_env_def integer_def)
qed

theorem vault_requires_mtls_witness:
  "\<exists>c. vault_main sample_tls sample_config None (Inr \<lparr>NonceSize = 12, Seal = (\<lambda>n p. p), Open = (\<lambda>n c. Some c)\<rparr>) (Inr ()) None = Serving (TLS c)
     \<and> tc_RequireClientCert c"
proof -
  obtain c where run: "vault_main sample_tls sample_config None (Inr \<lparr>NonceSize = 12, Seal = (\<lambda>n p. p), Open = (\<lambda>n c. Some c)\<rparr>) (Inr ()) None
      = Serving (TLS c)"
    by (simp add: vault_main_def error_of_def LoadServerTLS_def LoadClientTLS_def config_files_def sample_config_facts sample_tls_def)
  show ?thesis using vault_requires_mtls [OF run sample_config_facts(1)] run by auto
qed


definition sample_parts :: api_parts where
  "sample_parts = \<lparr>ap_text = (\<lambda>_. ''error''),
     ap_verify = (\<lambda>raw. Some \<lparr>cl_Subject = ''app'', cl_MerchantID = ''m_1'', cl_Scope = ''transactions:write''\<rparr>),
     ap_url_parse = (\<lambda>_. None), ap_vault = sample_vault, ap_tokenize = (\<lambda>_ _. Inl (Sentinel ErrInvalidPAN)),
     ap_issuer = sample_issuer, ap_math_Pow = sample_Pow, ap_check_liens = (\<lambda>_ _. Inr []), ap_transfer = (\<lambda>_ _. True)\<rparr>"

definition sale_request :: http_request where
  "sale_request = \<lparr>hq_path = ''/v1/transactions'', hq_id = '''', hq_auth = ''Bearer t'', hq_query = (\<lambda>_. None),
     hq_now = 5, hq_now2 = 6\<rparr>"

definition sample_sale :: authorize_request where
  "sample_sale = \<lparr>aq_Amount = 100000, aq_Product = ''CREDIT'', aq_Installments = 3, aq_CardToken = ''tok_1''\<rparr>"

definition sample_principal :: principal where
  "sample_principal = \<lparr>pr_ClientID = ''app'', pr_MerchantID = ''m_1'', pr_Scopes = [''transactions:write'']\<rparr>"

lemma sample_login: "Authenticate (ap_verify sample_parts) ''/v1/transactions'' ''Bearer t'' = Inr sample_principal"
proof -
  have texts: "TrimPrefix ''Bearer t'' ''Bearer '' = ''t''" "Fields ''transactions:write'' [] = [''transactions:write'']" by code_simp+
  show ?thesis using texts by (simp add: Authenticate_def sample_parts_def sample_principal_def)
qed

lemma sample_sale_handled:
  "\<exists>t w1. handle_endpoint (api_deps sample_parts sample_config) sample_principal sale_request (POST_transactions (Inr sample_sale)) idle_world
      = (json_response 201 [(''Location'', ''/v1/transactions/'' @ tx_id t)] (JTransaction (toTransactionResponse t)), w1)
    \<and> t_transactions (w_db w1) = t_transactions (w_db idle_world) @ [t] \<and> t \<notin> set (t_transactions (w_db idle_world))"
proof -
  obtain t0 w1 where run: "Authorize_Execute sample_vault sample_issuer [MaxAmountRule 400000] 5 6 sample_command idle_world = (Inr t0, w1)"
    using authorize_run by blast
  have command: "\<lparr>auc_MerchantID = ''m_1'', auc_Amount = 100000, auc_Product = ''CREDIT'', auc_Installments = 3,
      auc_CardToken = ''tok_1''\<rparr> = sample_command" by (simp add: sample_command_def)
  have d: "dp_vault (api_deps sample_parts sample_config) = sample_vault" "dp_issuer (api_deps sample_parts sample_config) = sample_issuer"
    "dp_rules (api_deps sample_parts sample_config) = [MaxAmountRule 400000]"
    by (simp_all add: api_deps_def sample_parts_def sample_config_facts)
  have "handle_endpoint (api_deps sample_parts sample_config) sample_principal sale_request (POST_transactions (Inr sample_sale)) idle_world
      = (json_response 201 [(''Location'', ''/v1/transactions/'' @ tx_id t0)] (JTransaction (toTransactionResponse t0)), w1)"
    by (simp add: d TransactionHandler_Authorize_def requireMerchant_def bind_json_def run_use_case_def sample_sale_def
        sample_principal_def) (simp add: sale_request_def command run)
  then show ?thesis using authorized_sale [OF run, of 400000] by auto
qed

theorem api_sale_within_limit_witness:
  "\<exists>t w'. serve (api_deps sample_parts sample_config) (POST_transactions (Inr sample_sale)) sale_request idle_world
      = (json_response 201 [(''Location'', ''/v1/transactions/'' @ tx_id t)] (JTransaction (toTransactionResponse t)), w')
     \<and> t \<in> set (t_transactions (w_db w')) \<and> sint (tx_amount t) \<le> 400000"
proof -
  obtain t w1 where run: "handle_endpoint (api_deps sample_parts sample_config) sample_principal sale_request
      (POST_transactions (Inr sample_sale)) idle_world
      = (json_response 201 [(''Location'', ''/v1/transactions/'' @ tx_id t)] (JTransaction (toTransactionResponse t)), w1)"
    and stored: "t_transactions (w_db w1) = t_transactions (w_db idle_world) @ [t]" "t \<notin> set (t_transactions (w_db idle_world))"
    using sample_sale_handled by blast
  have verify: "dp_verify (api_deps sample_parts sample_config) = ap_verify sample_parts" "hq_path sale_request = ''/v1/transactions''"
    "hq_auth sale_request = ''Bearer t''" by (simp_all add: api_deps_def sale_request_def)
  have "Has sample_principal ''transactions:write''" by (simp add: Has_def sample_principal_def)
  then have served: "serve (api_deps sample_parts sample_config) (POST_transactions (Inr sample_sale)) sale_request idle_world
      = (json_response 201 [(''Location'', ''/v1/transactions/'' @ tx_id t)] (JTransaction (toTransactionResponse t)), w1)"
    using run by (simp add: serve_def verify sample_login Authorize_scope_def del: handle_endpoint.simps)
  have "w_db w1 \<noteq> w_db idle_world" using stored by auto
  then show ?thesis using api_sale_within_limit [OF served] served stored by (auto simp: sample_config_facts json_response_def)
qed

end
