(* ===== verification/Retries.thy ===== *)
theory Retries
  imports Processes Router
begin

text \<open>
  Requests that are sent again, through the whole program: any number of requests for the routes
  with an idempotency key run at once, on several servers, their middleware interleaved over
  one key table as in \<open>Idempotency\<close>, while each handler works on the tables of the program and
  other parts of the program run in between. A server may die at any point. The theory shows
  that a key stores at most one sale.
\<close>

section \<open>What stores a sale\<close>

definition same_sales :: "world \<Rightarrow> world \<Rightarrow> bool" where
  "same_sales w w' \<longleftrightarrow> map tx_id (t_transactions (w_db w')) = map tx_id (t_transactions (w_db w))"

interpretation sales_frame: rollback_frame same_sales
  by unfold_locales (auto simp: same_sales_def)

lemma sales_effect [frame]: "runs same_sales (effect_log e)"
  by (simp add: runs_def effect_log_def same_sales_def)

lemma sales_writes [frame]:
  "runs same_sales (merchants_Create m)" "runs same_sales (merchants_Update m)" "runs same_sales (transactions_Update t)"
  "runs same_sales (settlements_Create s)" "runs same_sales (settlements_Update s)" "runs same_sales (anticipations_Create a)"
  "runs same_sales (chargebacks_Create c)" "runs same_sales (chargebacks_Update c)"
  "runs same_sales (processed_MarkIfNew consumer i)"
  unfolding merchants_Create_def merchants_Update_def transactions_Update_def processed_MarkIfNew_def
    settlements_Create_def settlements_Update_def anticipations_Create_def chargebacks_Create_def chargebacks_Update_def
  by (intro frame sales_frame.run_exec;
      force simp: same_sales_def update_version_def tx_columns_def split: prod.splits if_splits)+

lemma sales_outbox [frame]: "runs same_sales (outbox_Append evs)"
proof (induction evs)
  case (Cons ev evs)
  have "runs same_sales (\<lambda>w. let row = \<lparr>ob_id = w_outbox_seq w, ob_event = ev, ob_published = False\<rparr>;
           w' = w\<lparr>w_outbox_seq := w_outbox_seq w + 1\<rparr>
       in case insert_row True (EventID \<circ> ob_event) row (t_outbox (w_db w)) of
            (r, rows) \<Rightarrow> (r, w'\<lparr>w_db := (w_db w)\<lparr>t_outbox := rows\<rparr>\<rparr>))"
    by (rule runsI) (auto simp: Let_def same_sales_def split: prod.splits)
  then show ?case unfolding outbox_Append.simps by (intro frame Cons)
qed (unfold outbox_Append.simps, intro frame)

lemma sales_loops [frame]:
  "runs same_sales (receivables_SaveAll xs)" "runs same_sales (receivables_UpdateAll xs)" "runs same_sales (ledger_Append es)"
proof -
  show "runs same_sales (receivables_SaveAll xs)"
    by (induction xs; unfold receivables_SaveAll.simps)
      (intro frame sales_frame.run_exec | assumption | force simp: same_sales_def split: prod.splits)+
  show "runs same_sales (receivables_UpdateAll xs)"
    by (induction xs; unfold receivables_UpdateAll.simps)
      (intro frame sales_frame.run_exec | assumption | force simp: same_sales_def update_version_def split: prod.splits)+
  have "runs same_sales (ledger_insert es)" for es
    by (induction es; unfold ledger_insert.simps)
      (intro frame sales_frame.run_exec | assumption | force simp: same_sales_def split: prod.splits)+
  then show "runs same_sales (ledger_Append es)" unfolding ledger_Append_def by (intro frame)
qed

text \<open>Every use case but the authorization of a sale leaves the list of sales as it is.\<close>

lemma sales_use_cases:
  "runs same_sales (Onboard_Execute parse now oc)" "runs same_sales (Review_change change i)"
  "runs same_sales (Lifecycle_change change' mid i)" "runs same_sales (Scheduler_Handle register cal now ty payload)"
  "runs same_sales (Anticipate_Simulate pv now mid ids)" "runs same_sales (Anticipate_Request check_liens transfer pv now mid ids)"
  "runs same_sales (Open_Execute now opc)" "runs same_sales (Notifier_Handle hmac send secret ty body decoded)"
  "runs same_sales (settleMerchant sv day now mid rs rep)"
  unfolding Onboard_Execute_def Review_change_def Lifecycle_change_def change_body_def Scheduler_Handle_def
    onCaptured_def captured_body_def onCanceled_def canceled_body_def Anticipate_Simulate_def Anticipate_Request_def
    request_body_def Open_Execute_def open_body_def settleMerchant_def send_to_bank_def
  by (intro frame)+

lemma sales_reads:
  "runs same_sales (Get_Execute mid i)" "runs same_sales (Query_List mid f)" "runs same_sales (Query_Summary mid lo hi)"
  "runs same_sales (settlements_ListByMerchant mid n)" "runs same_sales (Anticipate_Get mid i)"
  unfolding Get_Execute_def Query_List_def Query_Summary_def settlements_ListByMerchant_def settlements_list_def Anticipate_Get_def
  by (intro frame)+

lemmas keeps_reply = acts_reply [where R = same_sales, OF sales_frame.R_refl]
lemmas keeps_run = acts_run [where R = same_sales]
lemmas keeps_chain = acts_chain [where R = same_sales, OF sales_frame.R_refl]

text \<open>Every route but the POST of a transaction does too.\<close>

lemma endpoint_keeps_sales: "\<forall>b. e \<noteq> POST_transactions b \<Longrightarrow> acts same_sales (handle_endpoint d p rq e)"
proof (cases e)
  case GET_receivables
  then show ?thesis unfolding handle_endpoint.simps GET_receivables ReceivableHandler_List_def
    by (intro keeps_chain) (auto intro!: keeps_reply keeps_run sales_reads split: sum.split)
next
  case GET_summary
  then show ?thesis unfolding handle_endpoint.simps GET_summary ReceivableHandler_Summary_def
    by (intro keeps_chain) (auto intro!: keeps_reply keeps_run sales_reads split: sum.split)
next
  case (POST_transactions b)
  then show "\<forall>b. e \<noteq> POST_transactions b \<Longrightarrow> ?thesis" by simp
qed (simp_all only: handle_endpoint.simps MerchantHandler_Create_def MerchantHandler_Get_def MerchantHandler_Approve_def
    MerchantHandler_Block_def MerchantHandler_UpdateSettings_def TransactionHandler_Tokenize_def
    TransactionHandler_Get_def TransactionHandler_change_def TransactionHandler_Capture_def TransactionHandler_Cancel_def
    ReceivableHandler_ListSettlements_def AnticipationHandler_Simulate_def AnticipationHandler_Create_def
    AnticipationHandler_Get_def ChargebackHandler_Open_def Review_Approve_def Review_Block_def Review_UpdateSettings_def
    Lifecycle_Capture_def Lifecycle_Cancel_def simp_thms,
    (intro keeps_chain keeps_run sales_use_cases sales_reads frame)+)

text \<open>What the POST of a transaction does to it.\<close>

lemma POST_sale:
  assumes "handle_endpoint d p rq (POST_transactions b) w = (rp, w')"
  shows "w_db w' = w_db w \<or>
    (\<exists>t. t_transactions (w_db w') = t_transactions (w_db w) @ [t] \<and> tx_merchantID t = pr_MerchantID p \<and> hr_status rp = 201
       \<and> pr_MerchantID p \<noteq> '''')"
proof -
  consider "w' = w" | req where "pr_MerchantID p \<noteq> ''''" "b = Inr req"
    "run_use_case d rq (Authorize_Execute (dp_vault d) (dp_issuer d) (dp_rules d) (hq_now rq) (hq_now2 rq)
         \<lparr>auc_MerchantID = pr_MerchantID p, auc_Amount = aq_Amount req, auc_Product = aq_Product req,
          auc_Installments = aq_Installments req, auc_CardToken = aq_CardToken req\<rparr>)
       (\<lambda>tx. json_response 201 [(''Location'', ''/v1/transactions/'' @ tx_id tx)] (JTransaction (toTransactionResponse tx))) w = (rp, w')"
    using assms by (auto simp: TransactionHandler_Authorize_def requireMerchant_def bind_json_def reply_def split: if_splits sum.splits)
  then show ?thesis
  proof cases
    case 2
    obtain r w1 where 3: "Authorize_Execute (dp_vault d) (dp_issuer d) (dp_rules d) (hq_now rq) (hq_now2 rq)
         \<lparr>auc_MerchantID = pr_MerchantID p, auc_Amount = aq_Amount req, auc_Product = aq_Product req,
          auc_Installments = aq_Installments req, auc_CardToken = aq_CardToken req\<rparr> w = (r, w1)" by fastforce
    show ?thesis
    proof (cases r)
      case (Inl e)
      then have "w_db w1 = w_db w" using 3 clean_cases(3) unfolding clean_def by blast
      then show ?thesis using 2(3) 3 Inl by (simp add: run_use_case_def)
    next
      case (Inr t)
      then have "rp = json_response 201 [(''Location'', ''/v1/transactions/'' @ tx_id t)] (JTransaction (toTransactionResponse t))" "w' = w1"
        using 2(3) 3 by (simp_all add: run_use_case_def)
      then show ?thesis using authorized_sale [OF 3 [unfolded Inr], of 0] 2(1) by (auto simp: json_response_def)
    qed
  qed simp
qed

section \<open>Requests over the program\<close>

text \<open>
  The state: the middleware's (keys, processes, log of the handlers' runs), the program's, the
  request each process serves with its caller, \<open>:id\<close> and endpoint, and, as a history, which
  process stored which sale.
\<close>

record gateway =
  gw_idem :: idem_world
  gw_world :: world
  gw_calls :: "nat \<rightharpoonup> server_request \<times> principal \<times> string \<times> endpoint"
  gw_sales :: "(nat \<times> transaction) list"

definition returned :: "idem_event list \<Rightarrow> idem_event list" where
  "returned evs = filter (\<lambda>ev. case ev of Returned p rq hash status body \<Rightarrow> True | _ \<Rightarrow> False) evs"

text \<open>
  The steps. A request arrives at a route with a key and passes authentication and scope; the
  middleware takes a step of its own, or the process dies; the handler of a process whose turn
  it is runs to its end; a request is served on another route; any other part of the program
  runs, which is every step of it but an authorization.
\<close>

inductive gw_step :: "server \<Rightarrow> gateway \<Rightarrow> gateway \<Rightarrow> bool" for sd where
  gw_arrive: "find_route (sd_prod sd) (sq_method q) (sq_path q) = Some (r, i) \<Longrightarrow> rt_page r = Guarded True build \<Longrightarrow>
     Authenticate (dp_verify (sd_deps sd)) (sq_path q) (sq_header q ''Authorization'') = Inr pr \<Longrightarrow>
     e = build (sd_binders sd) (map_option (take 1048576) (sq_body q)) \<Longrightarrow>
     Authorize_scope (sq_path q) (scope_of e) pr = None \<Longrightarrow>
     iw_procs (gw_idem s) p = None \<Longrightarrow>
     gw_step sd s (s\<lparr>gw_idem := (gw_idem s)\<lparr>iw_procs := (iw_procs (gw_idem s))(p \<mapsto> Arrived (idempotent_request q pr))\<rparr>,
       gw_calls := (gw_calls s)(p \<mapsto> (q, pr, i, e))\<rparr>)"
| gw_middleware: "idem_step (sd_sha sd) (gw_idem s) v \<Longrightarrow> dom (iw_procs v) = dom (iw_procs (gw_idem s)) \<Longrightarrow>
     returned (iw_log v) = returned (iw_log (gw_idem s)) \<Longrightarrow> gw_step sd s (s\<lparr>gw_idem := v\<rparr>)"
| gw_handle: "iw_procs (gw_idem s) p = Some (Running rq hash) \<Longrightarrow> gw_calls s p = Some (q, pr, i, e) \<Longrightarrow>
     handle_endpoint (sd_deps sd) pr (handler_request q i) e (gw_world s) = (rp, w') \<Longrightarrow>
     gw_step sd s (s\<lparr>gw_idem := (gw_idem s)\<lparr>
         iw_procs := (iw_procs (gw_idem s))(p \<mapsto> Finished rq hash (hr_status rp) (sd_encode sd (hr_body rp))),
         iw_log := iw_log (gw_idem s) @ [Returned p rq hash (hr_status rp) (sd_encode sd (hr_body rp))]\<rparr>,
       gw_world := w',
       gw_sales := gw_sales s @ map (Pair p) (drop (length (t_transactions (w_db (gw_world s)))) (t_transactions (w_db w')))\<rparr>)"
| gw_request: "find_route (sd_prod sd) (sq_method q) (sq_path q) = Some (r, i) \<Longrightarrow> rt_page r = Guarded False build \<Longrightarrow>
     guarded_page sd False build q i \<lparr>sw_world = gw_world s, sw_keys = iw_keys (gw_idem s), sw_metrics = m\<rparr> = (c, pr', s') \<Longrightarrow>
     gw_step sd s (s\<lparr>gw_world := sw_world s'\<rparr>)"
| gw_program: "acq_step (gw_world s) w' \<Longrightarrow> same_sales (gw_world s) w' \<Longrightarrow> gw_step sd s (s\<lparr>gw_world := w'\<rparr>)"

definition gw_start :: "world \<Rightarrow> gateway" where
  "gw_start w = \<lparr>gw_idem = idem_start, gw_world = w, gw_calls = Map.empty, gw_sales = []\<rparr>"

inductive gw_reach :: "server \<Rightarrow> world \<Rightarrow> gateway \<Rightarrow> bool" for sd w0 where
  gw_init: "gw_reach sd w0 (gw_start w0)"
| gw_next: "gw_reach sd w0 s \<Longrightarrow> gw_step sd s s' \<Longrightarrow> gw_reach sd w0 s'"

section \<open>The middleware's part of it\<close>

lemma gw_step_idem: "gw_step sd s s' \<Longrightarrow> idem_step (sd_sha sd) (gw_idem s) (gw_idem s') \<or> gw_idem s' = gw_idem s"
proof (induction rule: gw_step.induct)
  case (gw_arrive q r i build pr e s p)
  then show ?case by (simp add: idem_step.arrive)
next
  case (gw_handle s p rq hash q pr i e rp w')
  then show ?case by (simp add: idem_step.handle)
qed auto

lemma gw_reach_idem: "gw_reach sd w0 s \<Longrightarrow> idem_reach (sd_sha sd) (gw_idem s)"
proof (induction rule: gw_reach.induct)
  case gw_init
  then show ?case by (simp add: gw_start_def idem_init)
next
  case (gw_next s s')
  then show ?case using gw_step_idem [OF gw_next.hyps(2)] idem_next by auto
qed

fun request_of :: "progress \<Rightarrow> Idempotency.request" where
  "request_of (Arrived rq) = rq"
| "request_of (Selecting rq hash) = rq"
| "request_of (Running rq hash) = rq"
| "request_of (Finished rq hash status body) = rq"
| "request_of (Answered rq rp) = rq"
| "request_of (Dead rq) = rq"

text \<open>A process serves one request, and its handler returns once.\<close>

lemma idem_step_request:
  "idem_step sha v v' \<Longrightarrow> iw_procs v p = Some x \<Longrightarrow> \<exists>y. iw_procs v' p = Some y \<and> request_of y = request_of x"
  by (induction rule: idem_step.induct) auto

definition before_return :: "progress option \<Rightarrow> bool" where
  "before_return x \<longleftrightarrow> (case x of None \<Rightarrow> True | Some y \<Rightarrow> (case y of
     Arrived rq \<Rightarrow> True | Selecting rq hash \<Rightarrow> True | Running rq hash \<Rightarrow> True | _ \<Rightarrow> False))"

definition returns_once :: "idem_world \<Rightarrow> bool" where
  "returns_once v \<longleftrightarrow> (\<forall>p rq hash status body. Returned p rq hash status body \<in> set (iw_log v) \<longrightarrow>
     \<not> before_return (iw_procs v p)
     \<and> (\<forall>rq' hash' status' body'. Returned p rq' hash' status' body' \<in> set (iw_log v) \<longrightarrow> status' = status))"

lemma returns_keep:
  assumes "returns_once v" "\<And>p rq hash status body. Returned p rq hash status body \<in> set (iw_log v') \<Longrightarrow> Returned p rq hash status body \<in> set (iw_log v)"
    and "\<And>p. before_return (iw_procs v' p) \<Longrightarrow> before_return (iw_procs v p)"
  shows "returns_once v'"
  using assms unfolding returns_once_def by blast

lemma idem_step_returns: "idem_step sha v v' \<Longrightarrow> returns_once v \<Longrightarrow> returns_once v'"
proof (induction rule: idem_step.induct)
  case (handle v p rq hash status body)
  have "before_return (iw_procs v p)" using handle.hyps by (simp add: before_return_def)
  then have new: "Returned p rq' hash' status' body' \<notin> set (iw_log v)" for rq' hash' status' body'
    using handle.prems unfolding returns_once_def by blast
  have fin: "\<not> before_return (Some (Finished rq hash status body))" by (simp add: before_return_def)
  show ?case
    using handle.prems new fin unfolding returns_once_def by simp
qed (erule returns_keep; auto simp: before_return_def split: if_splits progress.splits)+

lemma idem_reach_returns: "idem_reach sha v \<Longrightarrow> returns_once v"
proof (induction rule: idem_reach.induct)
  case (idem_next v v')
  then show ?case using idem_step_returns by blast
qed (simp add: returns_once_def idem_start_def)

section \<open>One sale per key\<close>

text \<open>The invariant: every process serves the request of its call, and every sale beyond the first ones was
  stored by the run of a process that returned 201 for it, one sale at most by each.\<close>

definition calls_ok :: "gateway \<Rightarrow> bool" where
  "calls_ok s \<longleftrightarrow> (\<forall>p x. iw_procs (gw_idem s) p = Some x \<longrightarrow>
     (\<exists>q pr i e. gw_calls s p = Some (q, pr, i, e) \<and> request_of x = idempotent_request q pr))"

definition sale_known :: "gateway \<Rightarrow> nat \<Rightarrow> transaction \<Rightarrow> bool" where
  "sale_known s p t \<longleftrightarrow> (\<exists>q pr i e hash body. gw_calls s p = Some (q, pr, i, e)
     \<and> Started p (idempotent_request q pr) hash \<in> set (iw_log (gw_idem s))
     \<and> Returned p (idempotent_request q pr) hash 201 body \<in> set (iw_log (gw_idem s))
     \<and> tx_merchantID t = pr_MerchantID pr \<and> pr_MerchantID pr \<noteq> '''')"

definition sales_ok :: "world \<Rightarrow> gateway \<Rightarrow> bool" where
  "sales_ok w0 s \<longleftrightarrow> calls_ok s
     \<and> map tx_id (t_transactions (w_db (gw_world s))) = map tx_id (t_transactions (w_db w0)) @ map (tx_id \<circ> snd) (gw_sales s)
     \<and> distinct (map fst (gw_sales s)) \<and> list_all (\<lambda>(p, t). sale_known s p t) (gw_sales s)"

lemma sale_known_more:
  assumes "sale_known s p t" "gw_calls s' p = gw_calls s p" "set (iw_log (gw_idem s)) \<subseteq> set (iw_log (gw_idem s'))"
  shows "sale_known s' p t"
  using assms unfolding sale_known_def by (metis subsetD)

lemma idem_step_log: "idem_step sha v v' \<Longrightarrow> set (iw_log v) \<subseteq> set (iw_log v')"
  by (induction rule: idem_step.induct) auto

lemma sales_ok_keep:
  assumes "sales_ok w0 s" "calls_ok s'" "same_sales (gw_world s) (gw_world s')" "gw_sales s' = gw_sales s"
    and "\<And>p x. gw_calls s p = Some x \<Longrightarrow> gw_calls s' p = Some x" "set (iw_log (gw_idem s)) \<subseteq> set (iw_log (gw_idem s'))"
  shows "sales_ok w0 s'"
proof -
  have "sale_known s' p t" if "sale_known s p t" for p t
    using sale_known_more [OF that _ assms(6)] that assms(5) unfolding sale_known_def by metis
  then show ?thesis using assms unfolding sales_ok_def same_sales_def by (auto simp: list_all_iff)
qed

lemma plain_routes:
  "find_route production method path = Some (r, i) \<Longrightarrow> rt_page r = Guarded False build \<Longrightarrow> \<forall>b. build bs body \<noteq> POST_transactions b"
  by (drule find_route_mem) (auto simp: routes_def v1_def split: if_splits)

lemma plain_page_sales:
  assumes "find_route production method path = Some (r, i)" "rt_page r = Guarded False build"
    and "guarded_page sd False build q i s = (c, p, s')"
  shows "same_sales (sw_world s) (sw_world s')"
proof -
  obtain e where e: "\<forall>b. e \<noteq> POST_transactions b"
    and "sw_world s' = sw_world s \<or> (\<exists>p'. run_handler sd False e p' q i s = (c, s'))"
    using assms(3) plain_routes [OF assms(1,2), of "sd_binders sd" "sq_body q"]
    by (auto simp: guarded_page_def Let_def split: sum.splits option.splits prod.splits)
  then show ?thesis
  proof (elim disjE exE)
    fix p' assume run: "run_handler sd False e p' q i s = (c, s')"
    show ?thesis
      using run
    proof (cases rule: run_handler_cases)
      case (ran rp w t)
      then show ?thesis using endpoint_keeps_sales [OF e, of "sd_deps sd" p' "handler_request q i"] by (auto dest: actsD)
    qed simp
  qed (simp add: same_sales_def)
qed

lemma handler_sales:
  assumes "handle_endpoint d pr rq e w = (rp, w')"
  shows "same_sales w w' \<and> length (t_transactions (w_db w')) = length (t_transactions (w_db w))
    \<or> (\<exists>t. t_transactions (w_db w') = t_transactions (w_db w) @ [t] \<and> tx_merchantID t = pr_MerchantID pr
         \<and> hr_status rp = 201 \<and> pr_MerchantID pr \<noteq> '''')"
proof (cases "\<exists>b. e = POST_transactions b")
  case True
  then obtain b where "e = POST_transactions b" by blast
  from POST_sale [OF assms [unfolded this]] show ?thesis by (auto simp: same_sales_def)
next
  case False
  then have "same_sales w w'" using endpoint_keeps_sales [of e d pr rq] assms by (auto dest: actsD)
  moreover from this have "length (t_transactions (w_db w')) = length (t_transactions (w_db w))"
    unfolding same_sales_def by (metis length_map)
  ultimately show ?thesis by blast
qed

lemma running_started:
  "idem_reach sha v \<Longrightarrow> iw_procs v p = Some (Running rq hash) \<Longrightarrow> Started p rq hash \<in> set (iw_log v)"
  using idem_reach_owner unfolding owner_ok_def busy_ok_def by fastforce

lemma calls_middleware:
  assumes "calls_ok s" "idem_step sha (gw_idem s) v" "dom (iw_procs v) = dom (iw_procs (gw_idem s))"
  shows "calls_ok (s\<lparr>gw_idem := v\<rparr>)"
  unfolding calls_ok_def
proof (intro allI impI)
  fix p y assume "iw_procs (gw_idem (s\<lparr>gw_idem := v\<rparr>)) p = Some y"
  moreover from this obtain x where x: "iw_procs (gw_idem s) p = Some x" using assms(3) by (auto simp: set_eq_iff dom_def)
  ultimately have "request_of y = request_of x" using idem_step_request [OF assms(2) x] by auto
  then show "\<exists>q pr i e. gw_calls (s\<lparr>gw_idem := v\<rparr>) p = Some (q, pr, i, e) \<and> request_of y = idempotent_request q pr"
    using assms(1) x unfolding calls_ok_def by auto
qed

text \<open>A process that may still start its handler has stored nothing.\<close>

lemma not_yet_known:
  assumes "idem_reach sha (gw_idem s)" "before_return (iw_procs (gw_idem s) p)"
  shows "\<not> sale_known s p t"
  using idem_reach_returns [OF assms(1)] assms(2) unfolding returns_once_def sale_known_def by blast

lemma sales_ok_known: "sales_ok w0 s \<Longrightarrow> (p, t) \<in> set (gw_sales s) \<Longrightarrow> sale_known s p t"
  unfolding sales_ok_def by (auto simp: list_all_iff)

lemma handled_sales:
  assumes ok: "sales_ok w0 s" and reach: "idem_reach (sd_sha sd) (gw_idem s)"
    and proc: "iw_procs (gw_idem s) p = Some (Running rq hash)" and call: "gw_calls s p = Some (q, pr, i, e)"
    and run: "handle_endpoint (sd_deps sd) pr (handler_request q i) e (gw_world s) = (rp, w')"
    and s': "s' = s\<lparr>gw_idem := (gw_idem s)\<lparr>
         iw_procs := (iw_procs (gw_idem s))(p \<mapsto> Finished rq hash (hr_status rp) (sd_encode sd (hr_body rp))),
         iw_log := iw_log (gw_idem s) @ [Returned p rq hash (hr_status rp) (sd_encode sd (hr_body rp))]\<rparr>,
       gw_world := w',
       gw_sales := gw_sales s @ map (Pair p) (drop (length (t_transactions (w_db (gw_world s)))) (t_transactions (w_db w')))\<rparr>"
  shows "sales_ok w0 s'"
proof -
  have calls_s: "calls_ok s" using ok by (simp add: sales_ok_def)
  then have rq: "rq = idempotent_request q pr" using proc call unfolding calls_ok_def by fastforce
  have calls: "calls_ok s'" using calls_s call rq unfolding s' calls_ok_def by auto
  have "\<not> sale_known s p t" for t using not_yet_known [OF reach] proc by (simp add: before_return_def)
  moreover have "sale_known s' p' t" if "sale_known s p' t" for p' t
    by (rule sale_known_more [OF that]) (auto simp: s')
  ultimately have old: "\<forall>(p', t) \<in> set (gw_sales s). p' \<noteq> p \<and> sale_known s' p' t"
    using sales_ok_known [OF ok] by blast
  from handler_sales [OF run] show ?thesis
  proof (elim disjE exE conjE)
    assume same: "same_sales (gw_world s) w'" "length (t_transactions (w_db w')) = length (t_transactions (w_db (gw_world s)))"
    then show ?thesis by (intro sales_ok_keep [OF ok calls]) (auto simp: s')
  next
    fix t assume t: "t_transactions (w_db w') = t_transactions (w_db (gw_world s)) @ [t]" "tx_merchantID t = pr_MerchantID pr"
      "hr_status rp = 201" "pr_MerchantID pr \<noteq> ''''"
    have "sale_known s' p t" using running_started [OF reach proc] call t rq unfolding sale_known_def s' by auto
    moreover have "gw_sales s' = gw_sales s @ [(p, t)]" unfolding s' t(1) by simp
    ultimately show ?thesis using ok calls old t(1) unfolding sales_ok_def by (auto simp: s' list_all_iff)
  qed
qed

lemma gw_step_sales:
  assumes "gw_step sd s s'" "sales_ok w0 s" "idem_reach (sd_sha sd) (gw_idem s)"
  shows "sales_ok w0 s'"
  using assms(1)
proof cases
  case (gw_arrive q r i build pr e p)
  have fresh: "\<not> sale_known s p t" for t using not_yet_known [OF assms(3)] gw_arrive(7) by (simp add: before_return_def)
  have "sale_known s' p' t" if "(p', t) \<in> set (gw_sales s)" for p' t
  proof -
    have known: "sale_known s p' t" by (rule sales_ok_known [OF assms(2) that])
    then have "p' \<noteq> p" using fresh by blast
    then show ?thesis by (intro sale_known_more [OF known]) (auto simp: gw_arrive(1))
  qed
  moreover have "calls_ok s'" using assms(2) unfolding gw_arrive(1) sales_ok_def calls_ok_def by auto
  ultimately show ?thesis using assms(2) unfolding gw_arrive(1) sales_ok_def by (auto simp: list_all_iff)
next
  case (gw_middleware v)
  have "calls_ok s" using assms(2) by (simp add: sales_ok_def)
  then have "calls_ok s'" unfolding gw_middleware(1) by (rule calls_middleware [OF _ gw_middleware(2,3)])
  then show ?thesis
    by (rule sales_ok_keep [OF assms(2)]) (simp_all add: gw_middleware(1) same_sales_def idem_step_log [OF gw_middleware(2)])
next
  case (gw_handle p rq hash q pr i e rp w')
  show ?thesis by (rule handled_sales [OF assms(2,3) gw_handle(2-4) gw_handle(1)])
next
  case (gw_request q r i build m c pr' s1)
  then have "same_sales (gw_world s) (sw_world s1)" using plain_page_sales by fastforce
  then show ?thesis using assms(2) by (intro sales_ok_keep [OF assms(2)]) (auto simp: gw_request(1) sales_ok_def calls_ok_def)
next
  case (gw_program w')
  then show ?thesis using assms(2) by (intro sales_ok_keep [OF assms(2)]) (auto simp: sales_ok_def calls_ok_def)
qed

lemma gw_reach_sales: "gw_reach sd w0 s \<Longrightarrow> sales_ok w0 s"
proof (induction rule: gw_reach.induct)
  case gw_init
  then show ?case by (simp add: sales_ok_def calls_ok_def gw_start_def idem_start_def)
next
  case (gw_next s s')
  then show ?case using gw_step_sales gw_reach_idem by blast
qed

definition call_key :: "gateway \<Rightarrow> nat \<Rightarrow> string \<times> string" where
  "call_key s p = (case gw_calls s p of Some (q, pr, i, e) \<Rightarrow> (pr_MerchantID pr, sq_header q ''Idempotency-Key'') | None \<Rightarrow> ('''', ''''))"


section \<open>A sample run\<close>

definition sample_server :: server where
  "sample_server = \<lparr>sd_log = NewLogger ''info'' ''api'', sd_deps = api_deps sample_parts sample_config,
     sd_binders = \<lparr>bn_create_merchant = (\<lambda>_. Inl ''EOF''), bn_update_settings = (\<lambda>_. Inl ''EOF''), bn_tokenize = (\<lambda>_. Inl ''EOF''),
       bn_authorize = (\<lambda>_. Inr sample_sale), bn_anticipation = (\<lambda>_. Inl ''EOF''), bn_chargeback = (\<lambda>_. Inl ''EOF'')\<rparr>,
     sd_sha = id, sd_encode = (\<lambda>_. ''{}''), sd_ttl = 86400000000000, sd_openapi = 404, sd_prod = True\<rparr>"

definition sample_post :: server_request where
  "sample_post = \<lparr>sq_method = ''POST'', sq_path = ''/v1/transactions'',
     sq_header = (\<lambda>name. if name = ''Authorization'' then ''Bearer t'' else if name = ''Idempotency-Key'' then ''k'' else ''''),
     sq_query = (\<lambda>_. None), sq_body = Some ''{}'', sq_client_ip = ''10.0.0.1'', sq_now = 5, sq_now2 = 6, sq_uuid = ''u'',
     sq_elapsed = 1000000, sq_elapsed2 = 1000001, sq_span = None, sq_ping = None\<rparr>"

definition post_build :: "binders \<Rightarrow> string option \<Rightarrow> endpoint" where
  "post_build = (\<lambda>b body. POST_transactions (bn_authorize b body))"

lemma sample_route: "find_route True ''POST'' ''/v1/transactions''
    = Some (\<lparr>rt_method = ''POST'', rt_pattern = [Lit ''v1'', Lit ''transactions''], rt_page = Guarded True post_build\<rparr>, '''')"
  by (simp add: find_route_def routes_def v1_def match_path_def post_build_def)

lemma sample_post_facts:
  "sq_method sample_post = ''POST''" "sq_path sample_post = ''/v1/transactions''" "sq_header sample_post ''Authorization'' = ''Bearer t''"
  "handler_request sample_post '''' = sale_request" "sd_prod sample_server" "dp_verify (sd_deps sample_server) = ap_verify sample_parts"
  "post_build (sd_binders sample_server) body = POST_transactions (Inr sample_sale)"
  "Authorize_scope ''/v1/transactions'' ''transactions:write'' sample_principal = None"
  by (simp_all add: sample_post_def sample_server_def handler_request_def sale_request_def api_deps_def post_build_def
      Authorize_scope_def Has_def sample_principal_def)

lemma sample_post_check:
  "\<exists>hash. check_request id (idempotent_request sample_post sample_principal) = Inr hash"
  by (simp add: check_request_def read_body_def idempotent_request_def sample_post_def)


lemma sample_post_served:
  assumes sd: "sd_prod sd" "sd_sha sd = id" "\<And>body. bn_authorize (sd_binders sd) body = Inr sample_sale"
    and auth: "Authenticate (dp_verify (sd_deps sd)) ''/v1/transactions'' ''Bearer t'' = Inr sample_principal"
    and run: "handle_endpoint (sd_deps sd) sample_principal sale_request (POST_transactions (Inr sample_sale)) w = (rp, w1)"
  obtains line s' where "NewRouter sd sample_post \<lparr>sw_world = w, sw_keys = Map.empty, sw_metrics = m\<rparr>
      = ((Answer rp, RequestID (sq_header sample_post ''X-Request-Id'') (sq_uuid sample_post), line), s')" "sw_world s' = w1"
proof -
  define s where "s = \<lparr>sw_world = w, sw_keys = Map.empty, sw_metrics = m\<rparr>"
  obtain hash where hash: "check_request id (idempotent_request sample_post sample_principal) = Inr hash" using sample_post_check by blast
  obtain t' m' where handled: "run_handler sd True (POST_transactions (Inr sample_sale)) sample_principal sample_post '''' s
      = (Answer rp, \<lparr>sw_world = w1, sw_keys = t', sw_metrics = m'\<rparr>)"
    using run by (simp add: run_handler_def Idempotency_middleware_def hash sd Begin_def Begin_insert_def run_sql_def insert_key_def
        store_reply_def s_def sample_post_facts(4) del: handle_endpoint.simps)
  have "run_page sd (Guarded True post_build) sample_post '''' s = (Answer rp, Some sample_principal, \<lparr>sw_world = w1, sw_keys = t', sw_metrics = m'\<rparr>)"
    using handled by (simp add: run_page_def guarded_page_def sample_post_facts(1-3,8) auth Let_def post_build_def sd)
  then show ?thesis
    using that sd(1) unfolding s_def [symmetric] by (auto simp: NewRouter_def sample_post_facts(1,2) sample_route Let_def)
qed


theorem metrics_correct_witness:
  "\<exists>s. snd (serve_all sample_server [sample_post\<lparr>sq_method := ''GET'', sq_path := ''/health/live''\<rparr>, sample_post\<lparr>sq_path := ''/v2''\<rparr>]
       \<lparr>sw_world = idle_world, sw_keys = Map.empty, sw_metrics = NewMetrics\<rparr>) = s
     \<and> mx_HTTPRequests (sw_metrics s) (''/health/live'', ''GET'', dec 200) = 1 \<and> mx_HTTPRequests (sw_metrics s) (''unmatched'', ''POST'', dec 404) = 1"
proof -
  define qs where "qs = [sample_post\<lparr>sq_method := ''GET'', sq_path := ''/health/live''\<rparr>, sample_post\<lparr>sq_path := ''/v2''\<rparr>]"
  have live: "find_route True ''GET'' ''/health/live'' = Some (\<lparr>rt_method = ''GET'', rt_pattern = [Lit ''health'', Lit ''live''], rt_page = Health_live\<rparr>, '''')"
    and other: "find_route True ''POST'' ''/v2'' = None"
    by (simp_all add: find_route_def routes_def v1_def match_path_def)
  obtain s where run: "serve_all sample_server qs \<lparr>sw_world = idle_world, sw_keys = Map.empty, sw_metrics = NewMetrics\<rparr>
      = ([(qs ! 0, Health health_live), (qs ! 1, Not_found)], s)"
    by (simp add: qs_def NewRouter_def sample_post_facts live other Let_def run_page_def)
  have label: "route_label True (qs ! 0) = ''/health/live''" "route_label True (qs ! 1) = ''unmatched''"
    by (simp_all add: route_label_def qs_def sample_post_facts live other pattern_text_def)
  have "mx_HTTPRequests (sw_metrics s) (''/health/live'', ''GET'', dec 200) = 1 \<and> mx_HTTPRequests (sw_metrics s) (''unmatched'', ''POST'', dec 404) = 1"
    using metrics_correct [OF run] label by (simp add: sample_post_facts qs_def health_live_def)
  then show ?thesis using run unfolding qs_def by auto
qed

end
