(* ===== verification/Service.thy ===== *)
theory Service
  imports Retries
begin

text \<open>
  The API as a running program, \<open>cmd/api/main.go\<close> from its start to its end: the server's requests
  and the ticks of the relay beside it, over one database. A request on its way through the
  router is a step of the program of theory \<open>Accounting\<close> or only reads, so what holds of every
  step there holds of the API whatever its clients send.
\<close>

section \<open>A request is a step of the program\<close>

definition only_reads :: "world \<Rightarrow> world \<Rightarrow> bool" where
  "only_reads w w' \<longleftrightarrow> w_db w' = w_db w \<and> w_outbox_seq w' = w_outbox_seq w"

interpretation reading: rollback_frame only_reads
  by unfold_locales (auto simp: only_reads_def)

definition goes :: "world \<Rightarrow> world \<Rightarrow> bool" where
  "goes w w' \<longleftrightarrow> acq_step w w' \<or> only_reads w w'"

lemma goes_refl: "goes w w"
  by (simp add: goes_def only_reads_def)

lemma goes_reads: "runs only_reads m \<Longrightarrow> runs goes m"
  by (auto simp: runs_def goes_def)

lemma goes_steps: "(\<And>w r w'. m w = (r, w') \<Longrightarrow> acq_step w w') \<Longrightarrow> runs goes m"
  unfolding goes_def by (rule runsI) blast

lemma goes_use_cases:
  "runs goes (Onboard_Execute parse now oc)" "runs goes (Review_Approve now i)" "runs goes (Review_Block now i)"
  "runs goes (Review_UpdateSettings parse now us)" "runs goes (Authorize_Execute vault issuer rules now now' ac)"
  "runs goes (Lifecycle_Capture now mid i)" "runs goes (Lifecycle_Cancel now mid i)" "runs goes (Anticipate_Simulate pv now mid ids)"
  "runs goes (Anticipate_Request check_liens transfer pv now mid ids)" "runs goes (Open_Execute now opc)"
  by (rule goes_steps, erule acq_step.intros)+

lemma goes_queries:
  "runs goes (Get_Execute mid i)" "runs goes (Query_List mid f)" "runs goes (Query_Summary mid lo hi)"
  "runs goes (settlements_ListByMerchant mid n)" "runs goes (Anticipate_Get mid i)" "runs goes (merchants_FindByID i)"
  "runs goes (lift_result r)"
  unfolding Get_Execute_def Query_List_def Query_Summary_def settlements_ListByMerchant_def settlements_list_def Anticipate_Get_def
  by (intro goes_reads frame)+

lemmas goes_reply = acts_reply [of goes, OF goes_refl]
lemmas goes_chain = acts_chain [of goes, OF goes_refl]

lemma endpoint_goes: "acts goes (handle_endpoint d p rq e)"
proof (cases e)
  case GET_receivables
  then show ?thesis unfolding handle_endpoint.simps GET_receivables ReceivableHandler_List_def
    by (intro goes_chain) (auto intro!: goes_reply acts_run goes_queries split: sum.split)
next
  case GET_summary
  then show ?thesis unfolding handle_endpoint.simps GET_summary ReceivableHandler_Summary_def
    by (intro goes_chain) (auto intro!: goes_reply acts_run goes_queries split: sum.split)
qed (simp_all only: handle_endpoint.simps MerchantHandler_Create_def MerchantHandler_Get_def MerchantHandler_Approve_def
    MerchantHandler_Block_def MerchantHandler_UpdateSettings_def TransactionHandler_Tokenize_def TransactionHandler_Authorize_def
    TransactionHandler_Get_def TransactionHandler_change_def TransactionHandler_Capture_def TransactionHandler_Cancel_def
    ReceivableHandler_ListSettlements_def AnticipationHandler_Simulate_def AnticipationHandler_Create_def
    AnticipationHandler_Get_def ChargebackHandler_Open_def,
    (intro goes_chain acts_run goes_use_cases goes_queries)+)

lemma router_goes:
  assumes "NewRouter sd q s = (out, s')"
  shows "goes (sw_world s) (sw_world s')"
proof -
  have handled: "goes (sw_world s) (sw_world s1)" if "run_handler sd idempotent e p q i s = (c, s1)" for idempotent e p i c s1
    using that by (cases rule: run_handler_cases) (auto dest: actsD [OF endpoint_goes] simp: goes_refl)
  have "goes (sw_world s) (sw_world s1)" if "run_page sd pg q i s = (c, p, s1)" for pg i c p s1
    using that handled goes_refl unfolding run_page_def guarded_page_def Let_def
    by (auto split: page.splits sum.splits option.splits prod.splits)
  then show ?thesis using assms goes_refl unfolding NewRouter_def Let_def by (auto split: option.splits prod.splits)
qed

section \<open>The answer to a new sale\<close>

text \<open>The id in an answer 201 with a transaction.\<close>

definition new_sale :: "http_response \<Rightarrow> string option" where
  "new_sale rp = (case hr_body rp of JTransaction t \<Rightarrow> if hr_status rp = 201 then Some (xr_ID t) else None | _ \<Rightarrow> None)"

definition announces :: "string \<Rightarrow> outbox_row \<Rightarrow> bool" where
  "announces i x \<longleftrightarrow> (case ob_event x of TxEvent e \<Rightarrow> ev_Aggregate (te_base e) = i | _ \<Rightarrow> False)"

text \<open>No other route answers with one.\<close>

definition no_sale :: "act \<Rightarrow> bool" where
  "no_sale a \<longleftrightarrow> (\<forall>w. new_sale (fst (a w)) = None)"

lemma problem_no_sale: "new_sale (http_problem path status code detail) = None" "new_sale (respondError text path err) = None"
proof -
  show problem: "new_sale (http_problem path status code detail) = None" for path status code detail
    by (simp add: new_sale_def http_problem_def)
  have "new_sale (respond_loop text path err es) = None" for es by (induction es) (auto simp: problem)
  then show "new_sale (respondError text path err) = None" by (simp add: respondError_def)
qed

lemma no_sale_reply: "no_sale (reply (http_problem path status code detail))"
  by (simp add: no_sale_def reply_def problem_no_sale)

lemma no_sale_run: "(\<And>x. new_sale (ans x) = None) \<Longrightarrow> no_sale (run_use_case d rq m ans)"
  by (auto simp: no_sale_def run_use_case_def problem_no_sale split: prod.split sum.split)

lemma no_sale_chain:
  "(\<And>req. no_sale (k req)) \<Longrightarrow> no_sale (bind_json rq detail bound k)"
  "(\<And>i. no_sale (f i)) \<Longrightarrow> no_sale (ownedMerchantID rq p i f)"
  "(\<And>i. no_sale (f i)) \<Longrightarrow> no_sale (requireMerchant rq p f)"
  by (simp_all add: bind_json_def ownedMerchantID_def requireMerchant_def no_sale_reply split: sum.split)

lemma no_sale_answers: "\<forall>b. e \<noteq> POST_transactions b \<Longrightarrow> no_sale (handle_endpoint d p rq e)"
proof (cases e)
  case GET_receivables
  then show ?thesis unfolding handle_endpoint.simps GET_receivables ReceivableHandler_List_def
    by (intro no_sale_chain) (auto intro!: no_sale_reply no_sale_run simp: new_sale_def json_response_def split: sum.split)
next
  case GET_summary
  then show ?thesis unfolding handle_endpoint.simps GET_summary ReceivableHandler_Summary_def
    by (intro no_sale_chain) (auto intro!: no_sale_reply no_sale_run simp: new_sale_def json_response_def split: sum.split)
next
  case (POST_transactions b)
  then show "\<forall>b. e \<noteq> POST_transactions b \<Longrightarrow> ?thesis" by simp
qed (simp_all only: handle_endpoint.simps MerchantHandler_Create_def MerchantHandler_Get_def MerchantHandler_Approve_def
    MerchantHandler_Block_def MerchantHandler_UpdateSettings_def TransactionHandler_Tokenize_def
    TransactionHandler_Get_def TransactionHandler_change_def TransactionHandler_Capture_def TransactionHandler_Cancel_def
    ReceivableHandler_ListSettlements_def AnticipationHandler_Simulate_def AnticipationHandler_Create_def
    AnticipationHandler_Get_def ChargebackHandler_Open_def simp_thms,
    (intro no_sale_chain no_sale_run; simp add: new_sale_def json_response_def merchant_answer_def transaction_answer_def)+)

lemma sale_response: "new_sale (json_response 201 hs (JTransaction (toTransactionResponse t))) = Some (tx_id t)"
  by (simp add: new_sale_def json_response_def toTransactionResponse_def)

lemma sale_answered:
  assumes run: "handle_endpoint d p rq e w = (rp, w')" and sale: "new_sale rp = Some i"
  shows "i \<in> tx_id ` set (t_transactions (w_db w')) \<and> (\<exists>x \<in> set (t_outbox (w_db w')). announces i x)"
proof -
  have "\<not> no_sale (handle_endpoint d p rq e)" using run sale unfolding no_sale_def by (metis fst_conv option.distinct(1))
  then obtain b where e: "e = POST_transactions b" using no_sale_answers by blast
  obtain req where req: "b = Inr req" "run_use_case d rq (Authorize_Execute (dp_vault d) (dp_issuer d) (dp_rules d) (hq_now rq) (hq_now2 rq)
         \<lparr>auc_MerchantID = pr_MerchantID p, auc_Amount = aq_Amount req, auc_Product = aq_Product req,
          auc_Installments = aq_Installments req, auc_CardToken = aq_CardToken req\<rparr>)
       (\<lambda>tx. json_response 201 [(''Location'', ''/v1/transactions/'' @ tx_id tx)] (JTransaction (toTransactionResponse tx))) w = (rp, w')"
    using run sale unfolding e
    by (auto simp: TransactionHandler_Authorize_def requireMerchant_def bind_json_def reply_def problem_no_sale split: if_splits sum.splits)
  obtain t where t: "Authorize_Execute (dp_vault d) (dp_issuer d) (dp_rules d) (hq_now rq) (hq_now2 rq)
         \<lparr>auc_MerchantID = pr_MerchantID p, auc_Amount = aq_Amount req, auc_Product = aq_Product req,
          auc_Installments = aq_Installments req, auc_CardToken = aq_CardToken req\<rparr> w = (Inr t, w')" "i = tx_id t"
    using req(2) sale
    by (auto simp: run_use_case_def problem_no_sale sale_response split: prod.splits sum.splits)
  show ?thesis using authorized_sale [OF t(1), of 0] unfolding t(2) by (auto simp: announces_def)
qed

section \<open>The API's run\<close>

text \<open>
  What happens to a started API, in order: a request, served at the instant of its clock, or
  half a second has passed and the relay takes a batch of 100 (\<open>held\<close> are the rows other relays
  have locked, \<open>delivered\<close> how many rows the database hands out before it fails).
\<close>

datatype api_event = Request server_request | Tick "nat list" nat

fun api_run :: "(time \<Rightarrow> server) \<Rightarrow> api_event list \<Rightarrow> server_world \<times> kafka \<Rightarrow> (server_request \<times> content) list \<times> server_world \<times> kafka" where
  "api_run sd [] s = ([], s)"
| "api_run sd (Request q # evs) (s, k) =
     (case NewRouter (sd (sq_now q)) q s of ((c, rid, line), s') \<Rightarrow>
        case api_run sd evs (s', k) of (answers, end_state) \<Rightarrow> ((q, c) # answers, end_state))"
| "api_run sd (Tick held delivered # evs) (s, k) =
     (case publishBatch held 100 delivered (sw_world s, k) of (r, w', k') \<Rightarrow> api_run sd evs (s\<lparr>sw_world := w'\<rparr>, k'))"

text \<open>The program: exit code 1 where a component does not start, else it runs until it is told to stop.\<close>

definition api_main ::
  "'key api_outside \<Rightarrow> ('key \<Rightarrow> string \<Rightarrow> jwt option) \<Rightarrow> api_parts \<Rightarrow> binders \<Rightarrow> (string \<Rightarrow> string) \<Rightarrow> (json \<Rightarrow> string) \<Rightarrow> int
   \<Rightarrow> config \<Rightarrow> api_event list \<Rightarrow> world \<Rightarrow> key_table \<Rightarrow> kafka \<Rightarrow> int \<times> (server_request \<times> content) list \<times> server_world \<times> kafka" where
  "api_main out parse parts binders sha encode openapi cfg evs w keys k =
     (let s = \<lparr>sw_world = w, sw_keys = keys, sw_metrics = NewMetrics\<rparr>
      in case api_start out cfg of
           Inl what \<Rightarrow> (1, [], s, k)
         | Inr st \<Rightarrow> (0, api_run (\<lambda>now. api_server parse now parts binders sha encode openapi cfg st) evs (s, k)))"

fun requests :: "api_event list \<Rightarrow> server_request list" where
  "requests [] = []"
| "requests (Request q # evs) = q # requests evs"
| "requests (Tick held delivered # evs) = requests evs"

section \<open>What holds of it\<close>

lemma goes_grows: "goes w w' \<Longrightarrow> grows w w'"
  using moving_step by (auto simp: goes_def moves_def only_reads_def grows_refl)

lemma goes_books: "goes w w' \<Longrightarrow> books_ok (w_db w) \<Longrightarrow> books_ok (w_db w')"
  using acq_step_books by (auto simp: goes_def only_reads_def)

lemma round_books:
  assumes "publishBatch held limit delivered (w, k) = (r, w', k')"
  shows "books_ok (w_db w') \<longleftrightarrow> books_ok (w_db w)"
proof -
  have "t_ledger (w_db w') = t_ledger (w_db w)"
    using assms unfolding publishBatch_def stmt_def query_def exec_def by (auto split: option.splits if_splits prod.splits)
  then show ?thesis using batch_tables [OF assms] by (simp add: books_ok_def)
qed

definition alone_ticks :: "bool \<Rightarrow> api_event list \<Rightarrow> bool" where
  "alone_ticks alone evs \<longleftrightarrow> (alone \<longrightarrow> list_all (\<lambda>ev. case ev of Tick held delivered \<Rightarrow> held = [] | Request q \<Rightarrow> True) evs)"

lemma api_run_ok:
  assumes "api_run sd evs (s, k) = (answers, s', k')" "alone_ticks alone evs"
    and "relay_ok alone (t_outbox (w_db (sw_world s))) (w_outbox_seq (sw_world s)) (k_log k)"
  shows "relay_ok alone (t_outbox (w_db (sw_world s'))) (w_outbox_seq (sw_world s')) (k_log k')
    \<and> (books_ok (w_db (sw_world s)) \<longrightarrow> books_ok (w_db (sw_world s'))) \<and> map fst answers = requests evs"
  using assms
proof (induction sd evs "(s, k)" arbitrary: s k answers rule: api_run.induct)
  case (2 sd q evs s k)
  obtain c rid line s1 where 1: "NewRouter (sd (sq_now q)) q s = ((c, rid, line), s1)" by (metis prod.exhaust)
  obtain answers1 r where rest: "api_run sd evs (s1, k) = (answers1, r)" by (rule prod.exhaust)
  have goes: "goes (sw_world s) (sw_world s1)" by (rule router_goes [OF 1])
  have "relay_ok alone (t_outbox (w_db (sw_world s1))) (w_outbox_seq (sw_world s1)) (k_log k)"
    by (rule relay_ok_grows [OF 2(4) goes_grows [OF goes]])
  moreover have "alone_ticks alone evs" using 2(3) by (simp add: alone_ticks_def)
  ultimately show ?case using 2 1 rest goes_books [OF goes] by auto
next
  case (3 sd held delivered evs s k)
  obtain r w1 k1 where 1: "publishBatch held 100 delivered (sw_world s, k) = (r, w1, k1)" by (metis prod.exhaust)
  have "relay_step alone (sw_world s, k) (w1, k1)"
    using 3(3) by (intro relay_round [OF 1]) (simp add: alone_ticks_def)
  from relay_step_ok [OF this] have "relay_ok alone (t_outbox (w_db w1)) (w_outbox_seq w1) (k_log k1)" using 3(4) by simp
  moreover have "alone_ticks alone evs" using 3(3) by (simp add: alone_ticks_def)
  ultimately show ?case using 3 1 round_books [OF 1] by auto
qed simp

section \<open>An answered sale stays\<close>

definition stored :: "string \<Rightarrow> world \<Rightarrow> bool" where
  "stored i w \<longleftrightarrow> i \<in> tx_id ` set (t_transactions (w_db w)) \<and> list_ex (announces i) (t_outbox (w_db w))"

definition keeps_stored :: "world \<Rightarrow> world \<Rightarrow> bool" where
  "keeps_stored w w' \<longleftrightarrow> (\<forall>i. stored i w \<longrightarrow> stored i w')"

lemma handler_keeps_stored:
  assumes "handle_endpoint d p rq e w = (rp, w')"
  shows "keeps_stored w w'"
proof -
  have "tx_id ` set (t_transactions (w_db w)) \<subseteq> tx_id ` set (t_transactions (w_db w'))"
    using handler_sales [OF assms] unfolding same_sales_def by (metis Un_upper1 image_Un set_append list.set_map order_refl)
  moreover have "set (t_outbox (w_db w)) \<subseteq> set (t_outbox (w_db w'))"
    using goes_grows [OF actsD [OF endpoint_goes assms]] by (auto simp: grows_def)
  ultimately show ?thesis by (auto simp: keeps_stored_def stored_def list_ex_iff)
qed

lemma guarded_sale:
  assumes "guarded_page sd idempotent build q i s = (c, p, s')"
  shows "keeps_stored (sw_world s) (sw_world s') \<and> (\<forall>rp j. c = Answer rp \<longrightarrow> new_sale rp = Some j \<longrightarrow> stored j (sw_world s'))"
proof -
  have refused: "Authenticate verify path header = Inl rp \<Longrightarrow> new_sale rp = None" "Authorize_scope path scope p' = Some rp \<Longrightarrow> new_sale rp = None"
    for verify path header scope p' rp
    by (auto simp: Authenticate_def Authorize_scope_def unauthorized_def gin_problem_def new_sale_def Let_def
        split: if_splits option.splits)
  have refl: "keeps_stored w w" for w by (simp add: keeps_stored_def)
  consider "s' = s" "\<And>rp. c = Answer rp \<Longrightarrow> new_sale rp = None" | e p' where "run_handler sd idempotent e p' q i s = (c, s')"
    using assms unfolding guarded_page_def Let_def by (auto dest: refused split: sum.splits option.splits prod.splits)
  then show ?thesis
  proof cases
    case 2
    then show ?thesis
    proof (cases rule: run_handler_cases)
      case (ran rp w t)
      then show ?thesis using handler_keeps_stored [OF ran(1)] sale_answered [OF ran(1)] by (auto simp: stored_def list_ex_iff)
    qed (simp add: refl)
  qed (simp add: refl)
qed

lemma router_sale:
  assumes "NewRouter sd q s = ((c, rid, line), s')"
  shows "keeps_stored (sw_world s) (sw_world s') \<and> (\<forall>rp i. c = Answer rp \<longrightarrow> new_sale rp = Some i \<longrightarrow> stored i (sw_world s'))"
proof (cases "find_route (sd_prod sd) (sq_method q) (sq_path q)")
  case None
  then show ?thesis using assms by (auto simp: NewRouter_def Let_def keeps_stored_def)
next
  case (Some ri)
  obtain r i where ri: "ri = (r, i)" by fastforce
  obtain p s1 where page: "run_page sd (rt_page r) q i s = (c, p, s1)" and s': "sw_world s' = sw_world s1"
    using assms Some ri by (auto simp: NewRouter_def Let_def split: prod.splits)
  show ?thesis
  proof (cases "rt_page r")
    case (Guarded idempotent build)
    then show ?thesis using guarded_sale page unfolding s' by (simp add: run_page_def)
  qed (use page s' in \<open>auto simp: run_page_def keeps_stored_def\<close>)
qed

lemma batch_keeps_stored:
  assumes "publishBatch held limit delivered (w, k) = (r, w', k')"
  shows "keeps_stored w w'"
proof -
  have "t_transactions (w_db w') = t_transactions (w_db w)"
    using assms unfolding publishBatch_def stmt_def query_def exec_def by (auto split: option.splits if_splits prod.splits)
  moreover have "list_ex (announces i) (mark_published ids rows) = list_ex (announces i) rows" for i ids rows
    by (induction rows) (auto simp: mark_published_def announces_def)
  then have "list_ex (announces i) (t_outbox (w_db w')) = list_ex (announces i) (t_outbox (w_db w))" for i
    using publishBatch_spec [OF assms] by metis
  ultimately show ?thesis by (simp add: keeps_stored_def stored_def)
qed

lemma api_run_sales:
  assumes "api_run sd evs (s, k) = (answers, s', k')"
  shows "keeps_stored (sw_world s) (sw_world s')
    \<and> (\<forall>q rp i. (q, Answer rp) \<in> set answers \<longrightarrow> new_sale rp = Some i \<longrightarrow> stored i (sw_world s'))"
  using assms
proof (induction sd evs "(s, k)" arbitrary: s k answers rule: api_run.induct)
  case (1 sd s k)
  then show ?case by (simp add: keeps_stored_def)
next
  case (2 sd q evs s k)
  obtain c rid line s1 where 1: "NewRouter (sd (sq_now q)) q s = ((c, rid, line), s1)" by (metis prod.exhaust)
  obtain answers1 r where rest: "api_run sd evs (s1, k) = (answers1, r)" by (rule prod.exhaust)
  then have "r = (s', k')" "answers = (q, c) # answers1" using 2(2) 1 by simp_all
  then show ?case using 2(1) [OF 1 [symmetric]] rest router_sale [OF 1] unfolding keeps_stored_def by auto
next
  case (3 sd held delivered evs s k)
  obtain r w1 k1 where 1: "publishBatch held 100 delivered (sw_world s, k) = (r, w1, k1)" by (metis prod.exhaust)
  then show ?case using 3 batch_keeps_stored [OF 1] unfolding keeps_stored_def by auto
qed

text \<open>C12: the API as it runs. With a component that does not start it exits with code 1 and has done
  nothing; else it answers every request it is sent, whatever their methods, paths, tokens and
  bodies, however the database fails and the relay's rounds fall between them, and at the end:
  every sale that was answered with 201 is stored under the id in the answer, its event is in the
  outbox and, once that row is marked as published, in Kafka; Kafka has only events of the
  outbox; and the books agree with the receivables if they did at the start.\<close>

theorem api_process_sound:
  assumes "api_main out parse parts binders sha encode openapi cfg evs w0 keys k0 = (code, answers, s, k)"
    and "t_outbox (w_db w0) = []" "k_log k0 = []"
  shows "(case api_start out cfg of
        Inl what \<Rightarrow> code = 1 \<and> answers = [] \<and> sw_world s = w0 \<and> k = k0
      | Inr st \<Rightarrow> code = 0 \<and> map fst answers = requests evs)
    \<and> (\<forall>q rp i. (q, Answer rp) \<in> set answers \<longrightarrow> new_sale rp = Some i \<longrightarrow>
         i \<in> tx_id ` set (t_transactions (w_db (sw_world s)))
         \<and> (\<exists>x \<in> set (t_outbox (w_db (sw_world s))). announces i x \<and> (ob_published x \<longrightarrow> message_of x \<in> set (k_log k))))
    \<and> set (k_log k) \<subseteq> message_of ` set (t_outbox (w_db (sw_world s)))
    \<and> (books_ok (w_db w0) \<longrightarrow> books_ok (w_db (sw_world s)))"
proof (cases "api_start out cfg")
  case (Inl what)
  then show ?thesis using assms by (auto simp: api_main_def Let_def)
next
  case (Inr st)
  define s0 where "s0 = \<lparr>sw_world = w0, sw_keys = keys, sw_metrics = NewMetrics\<rparr>"
  have run: "api_run (\<lambda>now. api_server parse now parts binders sha encode openapi cfg st) evs (s0, k0) = (answers, s, k)" "code = 0"
    using assms(1) Inr by (simp_all add: api_main_def Let_def s0_def)
  have "relay_ok False (t_outbox (w_db (sw_world s0))) (w_outbox_seq (sw_world s0)) (k_log k0)"
    using assms(2,3) by (simp add: s0_def relay_ok_def event_ids_def)
  note ok = api_run_ok [OF run(1) _ this, unfolded alone_ticks_def, simplified]
  have world: "sw_world s0 = w0" by (simp add: s0_def)
  show ?thesis
    using ok api_run_sales [OF run(1)] run(2) unfolding Inr sum.case world relay_ok_def stored_def list_ex_iff by blast
qed

section \<open>A sample run\<close>

definition sample_outside :: "string api_outside" where
  "sample_outside = \<lparr>ao_tls = sample_tls, ao_new_exporter = (\<lambda>_. None), ao_merge = None, ao_connect = (\<lambda>_. None), ao_gorm = None,
     ao_dial = (\<lambda>_ _. None), ao_ReadFile = Inr, ao_ParsePEM = Inr, ao_Unmarshal = (\<lambda>_. Inr [])\<rparr>"

definition sample_parse :: "string \<Rightarrow> string \<Rightarrow> jwt option" where
  "sample_parse key raw = Some \<lparr>jw_iss = cf_JWTIssuer sample_config, jw_aud = cf_JWTAudience sample_config, jw_sub = ''app'', jw_iat = 0,
     jw_exp = 900, jw_scope = ''transactions:write'', jw_merchant_id = Some ''m_1''\<rparr>"

lemma sample_api_start: "\<exists>st. api_start sample_outside sample_config = Inr st"
  by (simp add: api_start_def must_def result_of_def sample_outside_def SetupTracing_def LoadClientTLS_def NewIssuerClient_def
      NewVaultClient_def NewFake_def LoadPublicKey_def config_files_def sample_config_facts sample_tls_def)

lemma sample_api_server:
  fixes st :: "string api_started"
  defines "sd \<equiv> api_server sample_parse 5 sample_parts (sd_binders sample_server) id (\<lambda>_. ''{}'') 404 sample_config st"
  shows "sd_prod sd" "sd_sha sd = id" "\<And>body. bn_authorize (sd_binders sd) body = Inr sample_sale"
    and "Authenticate (dp_verify (sd_deps sd)) ''/v1/transactions'' ''Bearer t'' = Inr sample_principal"
    and "handle_endpoint (sd_deps sd) sample_principal sale_request (POST_transactions (Inr sample_sale)) idle_world
      = handle_endpoint (api_deps sample_parts sample_config) sample_principal sale_request (POST_transactions (Inr sample_sale)) idle_world"
proof -
  have texts: "TrimPrefix ''Bearer t'' ''Bearer '' = ''t''" "Fields ''transactions:write'' [] = [''transactions:write'']" by code_simp+
  show "Authenticate (dp_verify (sd_deps sd)) ''/v1/transactions'' ''Bearer t'' = Inr sample_principal"
    using texts by (simp add: Authenticate_def sd_def api_server_def api_deps_def ParseWithClaims_def sample_parse_def sample_principal_def)
qed (simp_all add: sd_def api_server_def sample_config_facts sample_server_def TransactionHandler_Authorize_def api_deps_def run_use_case_def
    requireMerchant_def bind_json_def sample_principal_def split: prod.split sum.split)

theorem api_process_sound_witness:
  "\<exists>rp i s k. api_main sample_outside sample_parse sample_parts (sd_binders sample_server) id (\<lambda>_. ''{}'') 404 sample_config
       [Request sample_post, Tick [] 100] idle_world Map.empty sample_kafka = (0, [(sample_post, Answer rp)], s, k)
     \<and> new_sale rp = Some i \<and> i \<in> tx_id ` set (t_transactions (w_db (sw_world s)))
     \<and> (\<exists>x \<in> set (t_outbox (w_db (sw_world s))). announces i x)"
proof -
  obtain st where st: "api_start sample_outside sample_config = Inr st" using sample_api_start by blast
  obtain t w1 where run: "handle_endpoint (api_deps sample_parts sample_config) sample_principal sale_request
      (POST_transactions (Inr sample_sale)) idle_world
      = (json_response 201 [(''Location'', ''/v1/transactions/'' @ tx_id t)] (JTransaction (toTransactionResponse t)), w1)"
    using sample_sale_handled by blast
  define rp where "rp = json_response 201 [(''Location'', ''/v1/transactions/'' @ tx_id t)] (JTransaction (toTransactionResponse t))"
  have sale: "new_sale rp = Some (tx_id t)" unfolding rp_def by (rule sale_response)
  obtain rid line s1 where served: "NewRouter (api_server sample_parse 5 sample_parts (sd_binders sample_server) id (\<lambda>_. ''{}'') 404 sample_config st)
      sample_post \<lparr>sw_world = idle_world, sw_keys = Map.empty, sw_metrics = NewMetrics\<rparr> = ((Answer rp, rid, line), s1)"
    using sample_post_served [OF sample_api_server(1-4) trans [OF sample_api_server(5) run [folded rp_def]]] by metis
  obtain r w' k' where tick: "publishBatch [] 100 100 (sw_world s1, sample_kafka) = (r, w', k')" by (metis prod.exhaust)
  have "sq_now sample_post = 5" by (simp add: sample_post_def)
  then have main: "api_main sample_outside sample_parse sample_parts (sd_binders sample_server) id (\<lambda>_. ''{}'') 404 sample_config
       [Request sample_post, Tick [] 100] idle_world Map.empty sample_kafka = (0, [(sample_post, Answer rp)], s1\<lparr>sw_world := w'\<rparr>, k')"
    by (simp add: api_main_def st served tick)
  have "t_outbox (w_db idle_world) = []" "k_log sample_kafka = []"
    by (simp_all add: idle_world_def start_world_def sample_world_def sample_tables_def sample_kafka_def)
  from api_process_sound [OF main this] show ?thesis using main sale by (intro exI conjI) auto
qed

end
