(* ===== verification/Issuer_Gateway.thy ===== *)
theory Issuer_Gateway
  imports Card_Vault
begin

text \<open>
  The issuer's side of an authorization: the simulated issuer
  (\<open>internal/handler/grpc/issuer_server.go\<close>) and the API's client with its circuit breaker
  (\<open>internal/infrastructure/grpcclient/issuer.go\<close>). The breaker is third-party code: what it
  lets through is the argument \<open>gate\<close> of a call. Durations are in nanoseconds.
\<close>

section \<open>The simulated issuer\<close>

datatype issuer_product = PRODUCT_CREDIT | PRODUCT_DEBIT

record issuer_request =
  ir_TransactionId :: string
  ir_Pan :: string
  ir_Expiry :: string
  ir_Amount :: int64
  ir_Currency :: string
  ir_Product :: issuer_product
  ir_Installments :: "32 word"
  ir_MerchantMcc :: string

definition second :: int where
  "second = 1000000000"

fun randomDigits :: "(nat \<Rightarrow> nat) \<Rightarrow> nat \<Rightarrow> string" where
  "randomDigits d 0 = ''''"
| "randomDigits d (Suc n) = dec (d 0 mod 10) @ randomDigits (\<lambda>i. d (Suc i)) n"

definition issuer_delay :: "int \<Rightarrow> issuer_request \<Rightarrow> int" where
  "issuer_delay latency req = (if has_suffix (ir_Pan req) ''9999'' then 5 * second else latency)"

text \<open>
  \<open>left\<close> is the time left until the call's deadline. Where deadline and delay coincide Go
  picks either branch of the select; here the deadline wins.
\<close>

definition IssuerServer_Authorize ::
  "int \<Rightarrow> int option \<Rightarrow> (nat \<Rightarrow> nat) \<Rightarrow> issuer_request \<Rightarrow> authorization_response rpc" where
  "IssuerServer_Authorize latency left digits req =
     (if (case left of None \<Rightarrow> False | Some t \<Rightarrow> t \<le> issuer_delay latency req)
      then Inl (CodeDeadlineExceeded, ''context deadline exceeded'')
      else if has_suffix (ir_Pan req) ''0000''
      then Inr \<lparr>as_Approved = False, as_AuthorizationCode = '''', as_ResponseCode = ''05''\<rparr>
      else if 500000 <s ir_Amount req
      then Inr \<lparr>as_Approved = False, as_AuthorizationCode = '''', as_ResponseCode = ''51''\<rparr>
      else Inr \<lparr>as_Approved = True, as_AuthorizationCode = randomDigits digits 6, as_ResponseCode = ''00''\<rparr>)"

section \<open>The client\<close>

datatype gate = Lets_through | ErrOpenState | ErrTooManyRequests

datatype call_error = Breaker gate | Status grpc_code string

text \<open>\<open>ReadyToTrip\<close>: after how many consecutive technical failures the breaker opens.\<close>

definition ReadyToTrip :: "nat \<Rightarrow> bool" where
  "ReadyToTrip consecutiveFailures \<longleftrightarrow> consecutiveFailures \<ge> 5"

definition translate :: "call_error \<Rightarrow> go_error" where
  "translate err =
     (case err of
        Breaker g \<Rightarrow> Errorf [''circuit breaker aberto''] (ErrorString ''circuit breaker'')
      | Status code msg \<Rightarrow>
          (case code of
             CodeDeadlineExceeded \<Rightarrow> Errorf [msg] (Sentinel DeadlineExceeded)
           | Unavailable \<Rightarrow> Errorf [''emissor indisponivel''] (ErrorString msg)
           | _ \<Rightarrow> ErrorString msg))"

definition issuer_wire :: "authorization_request \<Rightarrow> issuer_request" where
  "issuer_wire req =
     \<lparr>ir_TransactionId = ar_TransactionID req, ir_Pan = ar_PAN req, ir_Expiry = ar_Expiry req, ir_Amount = ar_Amount req,
      ir_Currency = ''BRL'', ir_Product = (if ar_Product req = Debit then PRODUCT_DEBIT else PRODUCT_CREDIT),
      ir_Installments = word_of_int (ar_Installments req), ir_MerchantMcc = ar_MerchantMCC req\<rparr>"

definition IssuerClient_Authorize :: "gate \<Rightarrow> (issuer_request \<Rightarrow> authorization_response rpc) \<Rightarrow> issuer" where
  "IssuerClient_Authorize gate server req =
     (if gate \<noteq> Lets_through then Inl (translate (Breaker gate))
      else case server (issuer_wire req) of
        Inl (code, msg) \<Rightarrow> Inl (translate (Status code msg))
      | Inr resp \<Rightarrow> Inr resp)"

text \<open>The reversal has a deadline of its own, of three seconds.\<close>

definition IssuerServer_Reverse :: "string \<Rightarrow> bool rpc" where
  "IssuerServer_Reverse transactionID = Inr True"

definition IssuerClient_Reverse :: "(string \<Rightarrow> bool rpc) \<Rightarrow> string \<Rightarrow> go_error option" where
  "IssuerClient_Reverse server transactionID =
     (case server transactionID of Inl (code, msg) \<Rightarrow> Some (translate (Status code msg)) | Inr accepted \<Rightarrow> None)"

lemma randomDigits_length: "length (randomDigits d n) = n"
proof (induction n arbitrary: d)
  case (Suc n)
  have "length (dec (d 0 mod 10)) = 1" by (simp add: dec.simps)
  then show ?case using Suc.IH by simp
qed simp

text \<open>What a sale gets from this issuer through this client. A closed breaker and a call that is in time
  give the issuer's verdict: refused with 05 for a card ending in 0000, refused with 51 above
  5000.00, else approved with a code of six digits. A call that runs into its deadline is
  reversed at the issuer and counts as refused with 91; a card ending in 9999 does so under
  every deadline of at most five seconds. An open breaker ends the operation with
  \<open>ErrIssuerUnavailable\<close> and leaves no trace.\<close>

theorem issuer_verdicts:
  assumes "answer = IssuerClient_Authorize gate (IssuerServer_Authorize latency left digits) req"
    and "late = (case left of None \<Rightarrow> False | Some t \<Rightarrow> t \<le> (if has_suffix (ar_PAN req) ''9999'' then 5 * second else latency))"
  shows "issuer_outcome txid answer w =
     (if gate \<noteq> Lets_through then (Inl (Errorf [''issuer''] (Sentinel ErrIssuerUnavailable)), w)
      else if late
      then (Inr \<lparr>as_Approved = False, as_AuthorizationCode = '''', as_ResponseCode = ''91''\<rparr>,
            w\<lparr>w_effects := w_effects w @ [IssuerReverse txid]\<rparr>)
      else (Inr (if has_suffix (ar_PAN req) ''0000'' then \<lparr>as_Approved = False, as_AuthorizationCode = '''', as_ResponseCode = ''05''\<rparr>
                 else if 500000 <s ar_Amount req then \<lparr>as_Approved = False, as_AuthorizationCode = '''', as_ResponseCode = ''51''\<rparr>
                 else \<lparr>as_Approved = True, as_AuthorizationCode = randomDigits digits 6, as_ResponseCode = ''00''\<rparr>), w))
    \<and> length (randomDigits digits 6) = 6"
  using assms
  by (auto simp: IssuerClient_Authorize_def IssuerServer_Authorize_def issuer_outcome_def translate_def issuer_wire_def
      issuer_delay_def randomDigits_length effect_log_def mbind_def split: option.splits)

theorem issuer_verdicts_witness:
  "\<exists>answer. issuer_outcome ''tx_1'' answer sample_world =
     (Inr \<lparr>as_Approved = False, as_AuthorizationCode = '''', as_ResponseCode = ''91''\<rparr>,
      sample_world\<lparr>w_effects := w_effects sample_world @ [IssuerReverse ''tx_1'']\<rparr>)"
proof -
  define req where "req = \<lparr>ar_TransactionID = ''tx_1'', ar_PAN = ''4000000000009999'', ar_Expiry = ''12/30'', ar_Amount = 100,
    ar_Product = Credit, ar_Installments = 1, ar_MerchantMCC = ''5411''\<rparr>"
  have "has_suffix (ar_PAN req) ''9999''" by (simp add: req_def has_suffix_def)
  then show ?thesis
    using issuer_verdicts [OF refl refl, of "''tx_1''" Lets_through 1 "Some (3 * second)" "\<lambda>_. 1" req sample_world]
    by (simp add: second_def) blast
qed

end
