(* ===== verification/Lock.thy ===== *)
theory Lock
  imports Notifying
begin

text \<open>
  \<open>internal/infrastructure/redis/lock.go\<close>: the lock that keeps two settlement runs of a day
  apart. Redis is a table of keys that expire. Each command is atomic, but commands of
  different processes interleave in any order, time passes between them, and a process may
  end at any point: \<open>lock_step\<close> is one such event. A command's answer may get lost, whether it
  took effect or not, and the client library may have sent it twice.
\<close>

section \<open>The keys\<close>

type_synonym redis_keys = "string \<rightharpoonup> string \<times> time option"

definition live_key :: "time \<Rightarrow> redis_keys \<Rightarrow> string \<Rightarrow> string option" where
  "live_key now ks key =
     (case ks key of
        Some (value, Some expires) \<Rightarrow> if now < expires then Some value else None
      | Some (value, None) \<Rightarrow> Some value
      | None \<Rightarrow> None)"

text \<open>SET with NX and a time to live; 0 is none.\<close>

definition SetNX :: "time \<Rightarrow> string \<Rightarrow> string \<Rightarrow> int \<Rightarrow> redis_keys \<Rightarrow> bool \<times> redis_keys" where
  "SetNX now key value ttl ks =
     (if live_key now ks key = None
      then (True, ks(key \<mapsto> (value, if ttl = 0 then None else Some (now + ttl))))
      else (False, ks))"

text \<open>The script: it deletes the key only while it still holds the value.\<close>

definition releaseScript :: "time \<Rightarrow> string \<Rightarrow> string \<Rightarrow> redis_keys \<Rightarrow> redis_keys" where
  "releaseScript now key value ks = (if live_key now ks key = Some value then ks(key := None) else ks)"

section \<open>The client\<close>

datatype redis_end = Answered | Answered_twice | Lost go_error bool

definition Acquire ::
  "string result \<Rightarrow> redis_end \<Rightarrow> time \<Rightarrow> string \<Rightarrow> int \<Rightarrow> (string \<rightharpoonup> string) \<times> redis_keys
   \<Rightarrow> bool result \<times> (string \<rightharpoonup> string) \<times> redis_keys" where
  "Acquire random how now key ttl s =
     (case s of (tokens, ks) \<Rightarrow>
        case random of
          Inl err \<Rightarrow> (Inl err, tokens, ks)
        | Inr buf \<Rightarrow>
            let token = hex_encode buf
            in case SetNX now key token ttl ks of (ok, ks') \<Rightarrow>
              case how of
                Lost err applied \<Rightarrow> (Inl err, tokens, if applied then ks' else ks)
              | Answered \<Rightarrow> (Inr ok, if ok then tokens(key \<mapsto> token) else tokens, ks')
              | Answered_twice \<Rightarrow>
                  (case SetNX now key token ttl ks' of (ok2, ks'') \<Rightarrow>
                     (Inr ok2, if ok2 then tokens(key \<mapsto> token) else tokens, ks'')))"

definition Release ::
  "redis_end \<Rightarrow> time \<Rightarrow> string \<Rightarrow> (string \<rightharpoonup> string) \<times> redis_keys \<Rightarrow> unit result \<times> (string \<rightharpoonup> string) \<times> redis_keys" where
  "Release how now key s =
     (case s of (tokens, ks) \<Rightarrow>
        case tokens key of
          None \<Rightarrow> (Inr (), tokens, ks)
        | Some token \<Rightarrow>
            let tokens' = tokens(key := None); ks' = releaseScript now key token ks
            in case how of
              Lost err applied \<Rightarrow> (Inl err, tokens', if applied then ks' else ks)
            | Answered \<Rightarrow> (Inr (), tokens', ks')
            | Answered_twice \<Rightarrow> (Inr (), tokens', releaseScript now key token ks'))"

section \<open>Many processes\<close>

record lock_world =
  lw_now :: time
  lw_keys :: redis_keys
  lw_clients :: "nat \<Rightarrow> string \<rightharpoonup> string"
  lw_drawn :: "string list"

text \<open>16 random bytes never come twice: that is all that is assumed of the tokens.\<close>

inductive lock_step :: "lock_world \<Rightarrow> lock_world \<Rightarrow> bool" where
  time_passes: "0 \<le> d \<Longrightarrow> lock_step s (s\<lparr>lw_now := lw_now s + d\<rparr>)"
| acquires: "Acquire (Inr buf) how (lw_now s) key ttl (lw_clients s c, lw_keys s) = (r, tokens, ks) \<Longrightarrow>
    hex_encode buf \<notin> set (lw_drawn s) \<Longrightarrow> 0 \<le> ttl \<Longrightarrow>
    lock_step s (s\<lparr>lw_keys := ks, lw_clients := (lw_clients s)(c := tokens), lw_drawn := hex_encode buf # lw_drawn s\<rparr>)"
| releases: "Release how (lw_now s) key (lw_clients s c, lw_keys s) = (r, tokens, ks) \<Longrightarrow>
    lock_step s (s\<lparr>lw_keys := ks, lw_clients := (lw_clients s)(c := tokens)\<rparr>)"
| process_ends: "lock_step s (s\<lparr>lw_clients := (lw_clients s)(c := Map.empty)\<rparr>)"

inductive lock_reach :: "lock_world \<Rightarrow> lock_world \<Rightarrow> bool" for s0 where
  lock_start: "lock_reach s0 s0"
| lock_next: "lock_reach s0 s \<Longrightarrow> lock_step s s' \<Longrightarrow> lock_reach s0 s'"

text \<open>A process holds a key while Redis has the token the process got for it.\<close>

definition holds :: "lock_world \<Rightarrow> nat \<Rightarrow> string \<Rightarrow> bool" where
  "holds s c key \<longleftrightarrow> lw_clients s c key \<noteq> None \<and> live_key (lw_now s) (lw_keys s) key = lw_clients s c key"

definition lock_ok :: "lock_world \<Rightarrow> bool" where
  "lock_ok s \<longleftrightarrow> (\<forall>c key token. lw_clients s c key = Some token \<longrightarrow> token \<in> set (lw_drawn s))
     \<and> (\<forall>c d key key' token. lw_clients s c key = Some token \<longrightarrow> lw_clients s d key' = Some token \<longrightarrow> c = d)"

lemma live_key_update:
  "live_key now (ks(key \<mapsto> v)) key' = (if key' = key then live_key now (\<lambda>_. Some v) key else live_key now ks key')"
  "live_key now (ks(key := None)) key' = (if key' = key then None else live_key now ks key')"
  by (simp_all add: live_key_def)

text \<open>What \<open>Acquire\<close> and \<open>Release\<close> do, on every answer.\<close>

lemma Acquire_cases:
  assumes "Acquire random how now key ttl (tokens, ks) = (r, tokens', ks')"
  obtains (unchanged) "tokens' = tokens" "ks' = ks" "r \<noteq> Inr True"
    | (unknown) buf expires where "random = Inr buf" "tokens' = tokens" "ks' = ks(key \<mapsto> (hex_encode buf, expires))"
        "live_key now ks key = None" "r \<noteq> Inr True"
    | (taken) buf expires where "random = Inr buf" "tokens' = tokens(key \<mapsto> hex_encode buf)"
        "ks' = ks(key \<mapsto> (hex_encode buf, expires))" "live_key now ks key = None" "r = Inr True"
proof (cases random)
  case (Inl e)
  then show ?thesis using assms by - (rule unchanged, auto simp: Acquire_def)
next
  case (Inr buf)
  show ?thesis
  proof (cases "live_key now ks key")
    case None
    then show ?thesis using assms Inr that
      by (cases how) (auto simp: Acquire_def SetNX_def Let_def split: if_splits)
  next
    case (Some v)
    then show ?thesis using assms Inr unchanged
      by (cases how) (auto simp: Acquire_def SetNX_def Let_def split: if_splits)
  qed
qed

lemma Release_cases:
  assumes "Release how now key (tokens, ks) = (r, tokens', ks')"
  obtains (nothing) "tokens' = tokens" "ks' = ks" "tokens key = None"
    | (forgotten) "tokens' = tokens(key := None)" "ks' = ks"
    | (freed) token where "tokens key = Some token" "tokens' = tokens(key := None)" "ks' = ks(key := None)"
        "live_key now ks key = Some token"
proof (cases "tokens key")
  case None
  then show ?thesis using assms by - (rule nothing, auto simp: Release_def)
next
  case (Some token)
  show ?thesis
  proof (cases "live_key now ks key = Some token")
    case True
    then show ?thesis using assms Some that
      by (cases how) (auto simp: Release_def releaseScript_def Let_def live_key_update split: if_splits)
  next
    case False
    then show ?thesis using assms Some forgotten
      by (cases how) (auto simp: Release_def releaseScript_def Let_def split: if_splits)
  qed
qed

lemma lock_step_ok: "lock_step s s' \<Longrightarrow> lock_ok s \<Longrightarrow> lock_ok s'"
proof (induction rule: lock_step.induct)
  case (acquires buf how s key ttl c r tokens ks)
  from acquires(1) show ?case
  proof (cases rule: Acquire_cases)
    case unchanged
    then show ?thesis using acquires(4) unfolding lock_ok_def by (auto split: if_splits)
  next
    case (unknown b e)
    then show ?thesis using acquires(4) unfolding lock_ok_def by (auto split: if_splits)
  next
    case (taken b e)
    then show ?thesis using acquires(2,4) unfolding lock_ok_def by (auto split: if_splits; metis)
  qed
next
  case (releases how s key c r tokens ks)
  from releases(1) show ?case
    by (cases rule: Release_cases) (use releases(2) in \<open>auto simp: lock_ok_def split: if_splits; metis\<close>)+
qed (auto simp: lock_ok_def split: if_splits)

lemma lock_reach_ok: "lock_reach s0 s \<Longrightarrow> lock_ok s0 \<Longrightarrow> lock_ok s"
  by (induction rule: lock_reach.induct) (auto intro: lock_step_ok)

lemma one_holder: "lock_ok s \<Longrightarrow> holds s c key \<Longrightarrow> holds s d key \<Longrightarrow> c = d"
  unfolding holds_def lock_ok_def by (metis not_None_eq)

lemma still_held:
  assumes step: "lock_step s s'" and ok: "lock_ok s" and held: "holds s c key"
  shows "holds s' c key \<or> lw_clients s' c key = None
    \<or> (\<exists>expires. lw_keys s key = Some (the (lw_clients s c key), Some expires) \<and> expires \<le> lw_now s')"
proof -
  obtain token where tok: "lw_clients s c key = Some token" "live_key (lw_now s) (lw_keys s) key = Some token"
    using held by (auto simp: holds_def)
  from step show ?thesis
  proof (cases rule: lock_step.cases)
    case (time_passes d)
    then show ?thesis using tok by (auto simp: holds_def live_key_def split: option.splits if_splits)
  next
    case (acquires buf how key' ttl c' r tokens ks)
    from acquires(2) show ?thesis
      by (cases rule: Acquire_cases) (use tok acquires(1) in \<open>auto simp: holds_def live_key_update\<close>)
  next
    case (releases how key' c' r tokens ks)
    from releases(2) show ?thesis
    proof (cases rule: Release_cases)
      case (freed token')
      have "c' = c" if "key' = key" using ok freed(1,4) tok that unfolding lock_ok_def by (metis option.inject)
      then show ?thesis using freed tok releases(1) by (auto simp: holds_def live_key_update)
    qed (use tok releases(1) in \<open>auto simp: holds_def\<close>)
  next
    case (process_ends c')
    then show ?thesis using tok by (auto simp: holds_def)
  qed
qed

text \<open>C33: the lock excludes, with any number of processes, any loss of answers, any passing of time and any
  process ending at any point: two processes never hold the same key; while one holds it,
  nobody's \<open>Acquire\<close> answers true; and a process that holds it keeps it until it releases it
  itself, ends, or its time to live is over, so no other process's late \<open>Release\<close> takes it away.\<close>

theorem lock_exclusive:
  assumes "lock_reach s0 s" "lw_clients s0 = (\<lambda>_. Map.empty)"
  shows "(holds s c key \<and> holds s d key \<longrightarrow> c = d)
    \<and> (holds s c key \<longrightarrow> fst (Acquire random how (lw_now s) key ttl (lw_clients s d, lw_keys s)) \<noteq> Inr True)
    \<and> (holds s c key \<and> lock_step s s' \<longrightarrow> holds s' c key \<or> lw_clients s' c key = None
        \<or> (\<exists>expires. lw_keys s key = Some (the (lw_clients s c key), Some expires) \<and> expires \<le> lw_now s'))"
proof -
  have ok: "lock_ok s" using lock_reach_ok [OF assms(1)] assms(2) by (simp add: lock_ok_def)
  have "fst (Acquire random how (lw_now s) key ttl (lw_clients s d, lw_keys s)) \<noteq> Inr True" if held: "holds s c key"
  proof -
    obtain r tokens ks where a: "Acquire random how (lw_now s) key ttl (lw_clients s d, lw_keys s) = (r, tokens, ks)" by (metis prod_cases3)
    then have "r \<noteq> Inr True" by (cases rule: Acquire_cases) (use held in \<open>auto simp: holds_def\<close>)
    then show ?thesis by (simp add: a)
  qed
  then show ?thesis using one_holder [OF ok] still_held [OF _ ok] by blast
qed

text \<open>One process takes the lock for ten minutes and lets it run out; another takes it; the release of the
  first leaves it alone.\<close>

definition first_lock :: lock_world where
  "first_lock = \<lparr>lw_now = 0, lw_keys = Map.empty, lw_clients = (\<lambda>_. Map.empty), lw_drawn = []\<rparr>"

definition second_lock :: lock_world where
  "second_lock = \<lparr>lw_now = 600, lw_keys = [''d'' \<mapsto> (''62'', Some 1200)],
     lw_clients = (\<lambda>_. Map.empty)(0 := [''d'' \<mapsto> ''61''], 1 := [''d'' \<mapsto> ''62'']), lw_drawn = [''62'', ''61'']\<rparr>"

lemma hex_ab: "hex_encode ''a'' = ''61''" "hex_encode ''b'' = ''62''"
  by code_simp+

lemma second_reached: "lock_reach first_lock second_lock"
proof -
  define s1 where "s1 = \<lparr>lw_now = 0, lw_keys = [''d'' \<mapsto> (''61'', Some 600)],
    lw_clients = (\<lambda>_. Map.empty)(0 := [''d'' \<mapsto> ''61'']), lw_drawn = [''61'']\<rparr>"
  have "Acquire (Inr ''a'') Answered (lw_now first_lock) ''d'' 600 (lw_clients first_lock 0, lw_keys first_lock)
      = (Inr True, [''d'' \<mapsto> ''61''], [''d'' \<mapsto> (''61'', Some 600)])"
    by (simp add: Acquire_def SetNX_def live_key_def first_lock_def hex_ab Let_def)
  from acquires [OF this] have 1: "lock_step first_lock s1" by (simp add: first_lock_def s1_def hex_ab)
  have 2: "lock_step s1 (s1\<lparr>lw_now := 600\<rparr>)" using time_passes [of 600 s1] by (simp add: s1_def)
  have "Acquire (Inr ''b'') Answered (lw_now (s1\<lparr>lw_now := 600\<rparr>)) ''d'' 600 (lw_clients (s1\<lparr>lw_now := 600\<rparr>) 1, lw_keys (s1\<lparr>lw_now := 600\<rparr>))
      = (Inr True, [''d'' \<mapsto> ''62''], [''d'' \<mapsto> (''62'', Some 1200)])"
    by (simp add: Acquire_def SetNX_def live_key_def s1_def hex_ab Let_def)
  from acquires [OF this] have 3: "lock_step (s1\<lparr>lw_now := 600\<rparr>) second_lock" by (simp add: second_lock_def s1_def hex_ab)
  show ?thesis by (rule lock_next [OF lock_next [OF lock_next [OF lock_start 1] 2] 3])
qed

theorem lock_exclusive_witness:
  "\<exists>s'. lock_step second_lock s' \<and> lw_clients s' 0 = Map.empty \<and> holds second_lock 1 ''d'' \<and> holds s' 1 ''d''"
proof -
  define s' where "s' = second_lock\<lparr>lw_clients := (lw_clients second_lock)(0 := Map.empty)\<rparr>"
  have "Release Answered (lw_now second_lock) ''d'' (lw_clients second_lock 0, lw_keys second_lock)
      = (Inr (), Map.empty, lw_keys second_lock)"
    by (simp add: Release_def releaseScript_def live_key_def second_lock_def)
  from releases [OF this] have step: "lock_step second_lock s'" by (simp add: s'_def)
  have held: "holds second_lock 1 ''d''" by (simp add: holds_def live_key_def second_lock_def)
  have "lw_clients s' 1 ''d'' \<noteq> None" "\<not> (\<exists>expires. lw_keys second_lock ''d'' = Some (the (lw_clients second_lock 1 ''d''), Some expires)
      \<and> expires \<le> lw_now s')" by (simp_all add: s'_def second_lock_def)
  moreover have start: "lw_clients first_lock = (\<lambda>_. Map.empty)" by (simp add: first_lock_def)
  note safe = lock_exclusive [OF second_reached start, of 1 "''d''" 1 "Inr ''c''" Answered 600 s']
  ultimately have "holds s' 1 ''d''" using safe [THEN conjunct2, THEN conjunct2, THEN mp, OF conjI, OF held step] by (elim disjE exE) auto
  then show ?thesis using step held by (intro exI [of _ s']) (simp add: s'_def)
qed

end
