(* ===== verification/Spec2Isabelle.thy ===== *)
theory Spec2Isabelle
  imports Outcomes Pipeline Pricing Merchant_Model Processes Service Issuer_Gateway Api_Guarantees Lock Login
    Adapters
begin

text \<open>
  A model of the acquirer (\<open>adquirente\<close>): the Go services that onboard merchants, authorize and
  capture card sales, turn them into receivables, anticipate and settle these, and handle
  chargebacks. The definitions are executable translations of the Go code; the theorems say
  what makes it correct.

  \<^bold>\<open>The program.\<close> The API (\<open>cmd/api\<close>) runs the use cases over PostgreSQL. Each one changes its
  rows and writes its events to the table \<open>outbox\<close> in one transaction. A relay publishes the
  outbox to Kafka; the scheduler and the notifier (\<open>cmd/scheduler\<close>, \<open>cmd/notifier\<close>) consume the
  topics, mark each event as processed in the transaction that handles it, and create the
  receivables or call the merchant's webhook. The settlement worker (\<open>cmd/settlement\<close>) pays
  once a day what is due. Card numbers live in a vault (\<open>cmd/vault\<close>) behind gRPC, the issuer
  is simulated (\<open>cmd/issuer-sim\<close>), and tokens come from \<open>cmd/auth-sim\<close>.

  \<^bold>\<open>Theories.\<close>
  \<^item> \<open>Prelude\<close>, \<open>GoTime\<close>: 64-bit integers, decimal texts, dates; lemma collections.
  \<^item> Domain (\<open>internal/domain\<close>): \<open>Calendar\<close>, \<open>Shared\<close>, \<open>Money\<close> (\<open>shared\<close>), \<open>Merchant\<close>, \<open>Card\<close> and
    \<open>Transaction\<close>, \<open>Receivable\<close>, \<open>Anticipation\<close> and \<open>Pricing\<close>, \<open>Settlement\<close>, \<open>Chargeback\<close>, \<open>Ledger\<close>. Structs
    are records, status strings datatypes with their transition table; \<open>State_Machine\<close> is the
    contract the four state machines share.
  \<^item> Storage (\<open>internal/infrastructure/postgres\<close>, \<open>gormrepo\<close>): \<open>Store\<close> has the tables, one function per
    repository method and the unit of work as \<open>Do\<close>; \<open>Merchant_Model\<close> GORM's row of a merchant;
    \<open>Store_Effects\<close> and \<open>Frames\<close> what the operations change and what a run leaves alone.
  \<^item> Use cases (\<open>internal/application\<close>): \<open>Onboarding\<close>, \<open>Authorization\<close>, \<open>Scheduling\<close>, \<open>Disputes\<close>, \<open>Settling\<close>,
    \<open>Notifying\<close>, with their guarantees in \<open>Books\<close> and \<open>Accounting\<close> (the ledger against the
    receivables), \<open>Outcomes\<close> (what each returns, writes and sends) and \<open>Daily_Settlement\<close>; \<open>Sample_Runs\<close>
    is a concrete run.
  \<^item> Between the processes: \<open>Idempotency\<close> (key store and middleware), \<open>Messaging\<close> (relay, publisher,
    consumer), \<open>Pipeline\<close> (use cases, relay, Kafka and the scheduler interleaved), \<open>Delivery\<close> (any
    consumer group, and the notifier's webhooks as one), \<open>Retries\<close> (repeated requests on several
    servers, with the rest of the program), \<open>Service\<close> (the running API: requests and relay), \<open>Lock\<close> (Redis).
  \<^item> Edges: \<open>Http\<close>, \<open>Api\<close>, \<open>Api_Guarantees\<close> (\<open>internal/handler/http\<close>), \<open>Card_Vault\<close>, \<open>Issuer_Gateway\<close>, \<open>Login\<close>,
    \<open>Adapters\<close> (registry, bank file, webhook, configuration, connecting), \<open>Observability\<close> (logs, metrics, the
    start of tracing), \<open>Router\<close> (a request's way through routes and middleware) and \<open>Processes\<close> (the
    programs of \<open>cmd\<close>: how they start, what they wire, their certificates).

  \<^bold>\<open>State and operations.\<close> \<open>world\<close> is the database with its sequences, the statements executed so far,
  and what was sent outside (\<open>w_effects\<close>). A use case is a function \<open>world \<Rightarrow> (error + result) \<times> world\<close>
  (\<open>'a dbm\<close>). \<open>w_faults\<close> gives the statements that fail and \<open>w_locked\<close> the rows other transactions
  hold, both arbitrary, so a theorem covers a failure at every point. Go errors are values
  of \<open>go_error\<close>; \<open>errors_Is\<close> follows wrapped errors as \<open>errors.Is\<close> does.

  \<^bold>\<open>What is shown.\<close>
  \<^item> Money: amounts, fees, installments, orders and bookings neither lose nor create a centavo,
    with the wrap-around of \<open>int64\<close> in the statements; every state the program reaches has
    books that agree with its receivables; the present value is the compound formula to half
    a centavo in spite of floating point.
  \<^item> Life cycles: transactions, receivables, settlements and chargebacks move along their tables
    only, and the repositories' version check lets no update get lost.
  \<^item> Failures: an error changes nothing in the database; a repeated request runs once; a key
    stores at most one sale on any number of servers that may die; a repeated event is handled once;
    published events are exactly the outbox's and in its order; a captured sale whose message
    was committed has receivables or is dead-lettered, and an event the notifier committed reached the
    merchant's URL, signed, or is dead-lettered.
  \<^item> From the request to Kafka: every sale the API answered with 201 is stored, its event is in the
    outbox and, once marked, published.
  \<^item> Separation: no route without its scope for any method and path, no answer from another
    merchant's data, one answer for every error, no vault in production without client certificates. Every request is counted once, under a
    bounded number of routes.
  \<^item> Termination: calendars, retries, the relay's backlog and the settlement loop. This loop does
    not end while the bank refuses an order, which a theorem of \<open>Daily_Settlement\<close> states.

  \<^bold>\<open>Locales.\<close> \<open>calendar_contract\<close>, \<open>transition_table\<close> and \<open>transition_machine\<close>, \<open>versioned_rows\<close>, \<open>run_frame\<close>
  with \<open>rollback_frame\<close> and \<open>outside_frame\<close>, and \<open>consumer_group\<close> state the interfaces; each is interpreted on the
  definitions that provide it, and the properties use the facts of these interpretations.

  \<^bold>\<open>Bounds and fuel.\<close> \<open>execute_loop\<close> takes fuel, one unit for each batch; one more than the number
  of due receivables is enough, as \<open>Daily_Settlement\<close> proves, and None is a loop still running. The
  consumer's attempts are bounded by \<open>maxAttempts\<close>. Go's \<open>int\<close> is unbounded here: such values are
  counters and validated inputs. \<open>within_range\<close> says that sums over the receivables fit
  in 64 bits.

  \<^bold>\<open>Arguments.\<close> What is not in the repository is an argument of the definitions: AES-GCM, SHA-256,
  HMAC, RS256 and JWT parsing, base64, \<open>url.Parse\<close>, \<open>math.Pow\<close>, random bytes and UUIDs, the clock, the
  issuer, the bank, HTTP transport and the circuit breaker. A theorem that needs something
  of them has it as a hypothesis; its witness gives a concrete function.

  \<^bold>\<open>Not modelled.\<close> Gin's recovery from panics and its redirections, OpenTelemetry's middleware and
  spans, and the exposition format of the metrics are library code; so are listening, time limits
  of the servers, signals and shutdown in the \<open>main\<close> functions. Binding of request bodies is gin's; its outcome is an argument.
  The text of SQL and JSON is replaced by tables and values. Transactions of the database are
  serial: row locks appear as \<open>w_locked\<close>, and the version check covers what interleaves without
  them. Of consumer groups there are offsets, restarts and lost commits, not their protocol. Interfaces
  (\<open>ports.go\<close>, \<open>application/uow.go\<close>) have no code of their own: a definition takes what it
  uses of them as arguments or calls the repository's functions. The issuer's and the vault's
  wire types (\<open>gen\<close>) are generated.
\<close>

end
